(* ===== verification/GwPrelude.thy ===== *)
theory GwPrelude
  imports
    Main
    "HOL-Library.Word"
    "HOL-Library.Multiset"
    "HOL-Library.Char_ord"
    "HOL-Library.List_Lexorder"
    "HOL-Library.Signed_Division"
begin

text \<open>
  Shared vocabulary of the development: the parts of the Go language and of its standard library
  that the gateway's sources use, with the lemmas about them that the component theories share.

  \<^item> A Go \<^verbatim>\<open>string\<close> or \<^verbatim>\<open>[]byte\<close> is a list of bytes: \<^typ>\<open>string\<close> where the code treats it as text,
    \<^typ>\<open>8 word list\<close> where the code treats it as a binary buffer.
  \<^item> A Go \<^verbatim>\<open>int\<close> and \<^verbatim>\<open>int64\<close> are 64 bits wide: they are \<^typ>\<open>int\<close> here, and every conversion of the
    sources that can change a value is written out (\<open>int64_of\<close>, \<open>int32_of\<close>, \<open>uint32_of\<close>).
  \<^item> A \<^verbatim>\<open>float64\<close> is its IEEE 754 bit pattern, a \<^typ>\<open>64 word\<close>: the sources move float values about
    and compute with none of those that are modelled.
  \<^item> A call that can fail returns a sum, \<^term>\<open>Inl\<close> for the error.
\<close>

section \<open>Collections of facts\<close>

named_theorems go_strings \<open>facts about the string functions of Go's standard library\<close>
named_theorems go_ints \<open>facts about Go's sized integers\<close>

type_synonym gobyte = "8 word"
type_synonym float64 = "64 word"
type_synonym uint32 = "32 word"

section \<open>Sized integers\<close>

text \<open>The conversions \<^verbatim>\<open>int64(x)\<close>, \<^verbatim>\<open>int32(x)\<close> and \<^verbatim>\<open>uint32(x)\<close> of Go keep the low bits.\<close>

definition int64_of :: "int \<Rightarrow> int" where
  "int64_of x = sint (word_of_int x :: 64 word)"

definition int32_of :: "int \<Rightarrow> int" where
  "int32_of x = sint (word_of_int x :: 32 word)"

definition uint32_of :: "int \<Rightarrow> uint32" where
  "uint32_of x = word_of_int x"

lemma int64_of_id [go_ints]: "- (2 ^ 63) \<le> x \<Longrightarrow> x < 2 ^ 63 \<Longrightarrow> int64_of x = x"
  by (simp add: int64_of_def int_word_sint)

lemma int32_of_id [go_ints]: "- (2 ^ 31) \<le> x \<Longrightarrow> x < 2 ^ 31 \<Longrightarrow> int32_of x = x"
  by (simp add: int32_of_def int_word_sint)

lemma uint_uint32_of [go_ints]: "0 \<le> x \<Longrightarrow> x < 2 ^ 32 \<Longrightarrow> uint (uint32_of x) = x"
  by (simp add: uint32_of_def uint_word_of_int)

lemma int64_of_bounds: "- (2 ^ 63) \<le> int64_of x \<and> int64_of x < 2 ^ 63"
  using sint_ge [of "word_of_int x :: 64 word"] sint_lt [of "word_of_int x :: 64 word"]
  by (simp add: int64_of_def)

section \<open>Checked indexing\<close>

text \<open>
  \<^verbatim>\<open>xs[i]\<close> panics when \<^verbatim>\<open>i\<close> is out of range. A definition that indexes a slice goes through
  \<open>index_or\<close> and names the panic as its error.
\<close>

definition index_or :: "'e \<Rightarrow> 'a list \<Rightarrow> nat \<Rightarrow> 'e + 'a" where
  "index_or e xs i = (if i < length xs then Inr (xs ! i) else Inl e)"

lemma index_or_in [simp]: "i < length xs \<Longrightarrow> index_or e xs i = Inr (xs ! i)"
  by (simp add: index_or_def)

lemma index_or_out [simp]: "length xs \<le> i \<Longrightarrow> index_or e xs i = Inl e"
  by (simp add: index_or_def)

section \<open>Package strings\<close>

subsection \<open>Split, SplitN, Join\<close>

text \<open>\<^verbatim>\<open>strings.Split(s, sep)\<close> for a one-byte separator: it always returns at least one piece.\<close>

fun split_on :: "char \<Rightarrow> string \<Rightarrow> string list" where
  "split_on c [] = [[]]"
| "split_on c (x # xs) =
     (if x = c then [] # split_on c xs
      else case split_on c xs of [] \<Rightarrow> [[x]] | y # ys \<Rightarrow> (x # y) # ys)"

text \<open>\<^verbatim>\<open>strings.SplitN(s, sep, 2)\<close>: at most two pieces, cut at the first separator.\<close>

definition splitn2 :: "char \<Rightarrow> string \<Rightarrow> string list" where
  "splitn2 c s =
     (if c \<in> set s then [takeWhile (\<lambda>x. x \<noteq> c) s, tl (dropWhile (\<lambda>x. x \<noteq> c) s)] else [s])"

fun join_with :: "char \<Rightarrow> string list \<Rightarrow> string" where
  "join_with c [] = []"
| "join_with c [x] = x"
| "join_with c (x # y # xs) = x @ c # join_with c (y # xs)"

lemma split_on_not_Nil [simp]: "split_on c s \<noteq> []"
  by (induction s) (auto split: list.splits)

lemma length_split_on: "length (split_on c s) = Suc (count_list s c)"
proof (induction s)
  case (Cons x xs)
  then show ?case by (cases "split_on c xs") auto
qed simp

lemma split_on_no_sep: "t \<in> set (split_on c s) \<Longrightarrow> c \<notin> set t"
proof (induction s arbitrary: t)
  case (Cons x xs)
  then show ?case by (cases "split_on c xs") (auto split: if_splits)
qed simp

lemma split_on_absent [simp]: "c \<notin> set s \<Longrightarrow> split_on c s = [s]"
  by (induction s) auto

lemma join_split: "join_with c (split_on c s) = s"
proof (induction s)
  case (Cons x xs)
  show ?case
  proof (cases "split_on c xs")
    case (Cons y ys)
    with \<open>join_with c (split_on c xs) = xs\<close> show ?thesis by (cases ys) auto
  qed simp
qed simp

lemma split_on_append:
  "c \<notin> set xs \<Longrightarrow> split_on c (xs @ c # ys) = xs # split_on c ys"
  by (induction xs) auto

lemma split_join: "ts \<noteq> [] \<Longrightarrow> \<forall>t \<in> set ts. c \<notin> set t \<Longrightarrow> split_on c (join_with c ts) = ts"
  by (induction c ts rule: join_with.induct) (auto simp: split_on_append)

lemma splitn2_length: "length (splitn2 c s) = (if c \<in> set s then 2 else 1)"
  by (simp add: splitn2_def)

lemma splitn2_absent [simp]: "c \<notin> set s \<Longrightarrow> splitn2 c s = [s]"
  by (simp add: splitn2_def)

lemma splitn2_append [simp]: "c \<notin> set xs \<Longrightarrow> splitn2 c (xs @ c # ys) = [xs, ys]"
  by (induction xs) (auto simp: splitn2_def)

lemma splitn2_Cons_sep [simp]: "splitn2 c (c # ys) = [[], ys]"
  by (simp add: splitn2_def)

lemma splitn2_cases:
  obtains "splitn2 c s = [s]" "c \<notin> set s"
  | a b where "splitn2 c s = [a, b]" "s = a @ c # b" "c \<notin> set a"
proof (cases "c \<in> set s")
  case True
  then obtain a b where "s = a @ c # b" "c \<notin> set a" by (meson split_list_first)
  then show ?thesis using that(2) by simp
qed (use that(1) in simp)

subsection \<open>Prefixes, suffixes, occurrences\<close>

definition has_prefix :: "string \<Rightarrow> string \<Rightarrow> bool" where
  "has_prefix p s \<longleftrightarrow> take (length p) s = p"

definition has_suffix :: "string \<Rightarrow> string \<Rightarrow> bool" where
  "has_suffix p s \<longleftrightarrow> has_prefix (rev p) (rev s)"

lemma has_prefix_iff: "has_prefix p s \<longleftrightarrow> (\<exists>r. s = p @ r)"
  by (metis append_eq_conv_conj append_take_drop_id has_prefix_def)

lemma has_suffix_iff: "has_suffix p s \<longleftrightarrow> (\<exists>r. s = r @ p)"
  unfolding has_suffix_def has_prefix_iff by (metis rev_append rev_rev_ident)

lemma has_prefix_Nil [simp]: "has_prefix [] s"
  by (simp add: has_prefix_def)

lemma has_prefix_Cons [simp]:
  "has_prefix (p # ps) s = (case s of [] \<Rightarrow> False | x # xs \<Rightarrow> x = p \<and> has_prefix ps xs)"
  by (auto simp: has_prefix_def split: list.splits)

text \<open>\<^verbatim>\<open>strings.Replace(s, old, new, -1)\<close> for one-byte \<^verbatim>\<open>old\<close> and \<^verbatim>\<open>new\<close>.\<close>

definition replace_char :: "char \<Rightarrow> char \<Rightarrow> string \<Rightarrow> string" where
  "replace_char a b s = map (\<lambda>x. if x = a then b else x) s"

lemma replace_char_absent: "a \<noteq> b \<Longrightarrow> a \<notin> set (replace_char a b s)"
  by (auto simp: replace_char_def)

text \<open>
  \<^verbatim>\<open>strings.FieldsFunc(s, f)\<close> where \<^verbatim>\<open>f\<close> holds of one byte only: the pieces between the separators,
  without the empty ones.
\<close>

definition fields_func :: "char \<Rightarrow> string \<Rightarrow> string list" where
  "fields_func c s = filter (\<lambda>t. t \<noteq> []) (split_on c s)"

subsection \<open>White space\<close>

text \<open>
  \<^verbatim>\<open>strings.TrimSpace\<close> and \<^verbatim>\<open>strings.Fields\<close> cut at the runes of \<^verbatim>\<open>unicode.IsSpace\<close>. Each of those is a
  fixed UTF-8 byte sequence; the table lists them.
\<close>

definition space_runes :: "string list" where
  "space_runes =
     [[CHR 0x09], [CHR 0x0A], [CHR 0x0B], [CHR 0x0C], [CHR 0x0D], [CHR 0x20], [CHR 0xC2, CHR 0x85],
      [CHR 0xC2, CHR 0xA0], [CHR 0xE1, CHR 0x9A, CHR 0x80], [CHR 0xE2, CHR 0x80, CHR 0x80],
      [CHR 0xE2, CHR 0x80, CHR 0x81], [CHR 0xE2, CHR 0x80, CHR 0x82],
      [CHR 0xE2, CHR 0x80, CHR 0x83], [CHR 0xE2, CHR 0x80, CHR 0x84],
      [CHR 0xE2, CHR 0x80, CHR 0x85], [CHR 0xE2, CHR 0x80, CHR 0x86],
      [CHR 0xE2, CHR 0x80, CHR 0x87], [CHR 0xE2, CHR 0x80, CHR 0x88],
      [CHR 0xE2, CHR 0x80, CHR 0x89], [CHR 0xE2, CHR 0x80, CHR 0x8A],
      [CHR 0xE2, CHR 0x80, CHR 0xA8], [CHR 0xE2, CHR 0x80, CHR 0xA9],
      [CHR 0xE2, CHR 0x80, CHR 0xAF], [CHR 0xE2, CHR 0x81, CHR 0x9F],
      [CHR 0xE3, CHR 0x80, CHR 0x80]]"

text \<open>The length of the white space rune at the head of a string, 0 when there is none.\<close>

definition space_len :: "string \<Rightarrow> nat" where
  "space_len s = (case find (\<lambda>r. has_prefix r s) space_runes of None \<Rightarrow> 0 | Some r \<Rightarrow> length r)"

definition space_len_rev :: "string \<Rightarrow> nat" where
  "space_len_rev s =
     (case find (\<lambda>r. has_prefix (rev r) s) space_runes of None \<Rightarrow> 0 | Some r \<Rightarrow> length r)"

function drop_spaces :: "(string \<Rightarrow> nat) \<Rightarrow> string \<Rightarrow> string" where
  "drop_spaces f s = (if s = [] \<or> f s = 0 then s else drop_spaces f (drop (f s) s))"
  by pat_completeness auto
termination
  by (relation "measure (\<lambda>(f, s). length s)") auto

declare drop_spaces.simps [simp del]

text \<open>A string whose first and last byte belong to no white space rune is not trimmed.\<close>

definition no_space :: "char \<Rightarrow> bool" where
  "no_space x \<longleftrightarrow> (\<forall>r \<in> set space_runes. hd r \<noteq> x \<and> last r \<noteq> x)"

lemma space_runes_not_Nil: "r \<in> set space_runes \<Longrightarrow> r \<noteq> []"
  by (auto simp: space_runes_def)

lemma space_len_no_space:
  assumes "no_space x"
  shows "space_len (x # s) = 0" and "space_len_rev (x # s) = 0"
proof -
  have "\<not> has_prefix r (x # s) \<and> \<not> has_prefix (rev r) (x # s)" if "r \<in> set space_runes" for r
  proof -
    have "hd r \<noteq> x" "hd (rev r) \<noteq> x" "r \<noteq> []" "rev r \<noteq> []"
      using space_runes_not_Nil [OF that] assms that by (auto simp: no_space_def hd_rev)
    then show ?thesis by (cases r; cases "rev r") auto
  qed
  then have "find (\<lambda>r. has_prefix r (x # s)) space_runes = None"
    "find (\<lambda>r. has_prefix (rev r) (x # s)) space_runes = None"
    by (auto simp: find_None_iff)
  then show "space_len (x # s) = 0" "space_len_rev (x # s) = 0"
    by (simp_all add: space_len_def space_len_rev_def)
qed

definition trim_space :: "string \<Rightarrow> string" where
  "trim_space s = rev (drop_spaces space_len_rev (rev (drop_spaces space_len s)))"

lemma space_len_blank [simp]: "space_len (CHR '' '' # s) = 1"
  by (simp add: space_len_def space_runes_def)

lemma drop_spaces_no_space:
  "s \<noteq> [] \<Longrightarrow> no_space (hd s) \<Longrightarrow> drop_spaces space_len s = s \<and> drop_spaces space_len_rev s = s"
  by (cases s) (simp_all add: drop_spaces.simps [of _ "_ # _"] space_len_no_space)

lemma trim_space_id [go_strings]:
  "s \<noteq> [] \<Longrightarrow> no_space (hd s) \<Longrightarrow> no_space (last s) \<Longrightarrow> trim_space s = s"
  by (simp add: trim_space_def drop_spaces_no_space hd_rev)

text \<open>\<^verbatim>\<open>strings.Fields\<close>: \<open>cur\<close> is the field being read, reversed.\<close>

function fields_from :: "string \<Rightarrow> string \<Rightarrow> string list" where
  "fields_from cur s =
     (if s = [] then (if cur = [] then [] else [rev cur])
      else if space_len s = 0 then fields_from (hd s # cur) (tl s)
      else (if cur = [] then [] else [rev cur]) @ fields_from [] (drop (space_len s) s))"
  by pat_completeness auto
termination
  by (relation "measure (\<lambda>(cur, s). length s)") auto

declare fields_from.simps [simp del]

definition fields :: "string \<Rightarrow> string list" where
  "fields s = fields_from [] s"

lemma fields_from_nonempty: "[] \<notin> set (fields_from cur s)"
proof (induction cur s rule: fields_from.induct)
  case (1 cur s)
  then show ?case by (subst fields_from.simps) auto
qed

lemma fields_nonempty [go_strings]: "[] \<notin> set (fields s)"
  by (simp add: fields_def fields_from_nonempty)

lemma fields_from_token:
  "\<forall>c \<in> set t. no_space c \<Longrightarrow> fields_from cur (t @ s) = fields_from (rev t @ cur) s"
proof (induction t arbitrary: cur)
  case (Cons c t)
  then show ?case using space_len_no_space(1) [of c "t @ s"] by (subst fields_from.simps) simp
qed simp

lemma fields_from_blank: "fields_from cur (CHR '' '' # s) = (if cur = [] then [] else [rev cur]) @ fields_from [] s"
  by (subst fields_from.simps) simp

section \<open>Ranging over a map\<close>

text \<open>A \<^verbatim>\<open>range\<close> over a map visits every key once, in an order the language leaves open.\<close>

definition map_order :: "'k list \<Rightarrow> ('k \<rightharpoonup> 'v) \<Rightarrow> bool" where
  "map_order ks m \<longleftrightarrow> distinct ks \<and> set ks = dom m"

lemma map_order_empty [simp]: "map_order ks Map.empty \<longleftrightarrow> ks = []"
  by (auto simp: map_order_def)

section \<open>Reading a map\<close>

text \<open>\<^verbatim>\<open>m[k]\<close> on a map of numbers is 0 when the key is absent.\<close>

definition map_get0 :: "('k \<rightharpoonup> 'n::zero) \<Rightarrow> 'k \<Rightarrow> 'n" where
  "map_get0 m k = (case m k of None \<Rightarrow> 0 | Some n \<Rightarrow> n)"

lemma map_get0_upd [simp]: "map_get0 (m(k \<mapsto> v)) j = (if j = k then v else map_get0 m j)"
  by (simp add: map_get0_def)

lemma map_get0_empty [simp]: "map_get0 Map.empty k = 0"
  by (simp add: map_get0_def)

end
