(* ===== verification/GoNumeric.thy ===== *)
theory GoNumeric
  imports GwPrelude
begin

text \<open>
  The parts of Go's \<^verbatim>\<open>strconv\<close>, \<^verbatim>\<open>encoding/hex\<close> and \<^verbatim>\<open>encoding/binary\<close> packages that the gateway uses:
  decimal parsing and printing, hexadecimal encoding and little-endian byte order, with their
  round trips and ranges.
\<close>

section \<open>Package strconv\<close>

datatype num_error = ErrSyntax | ErrRange

definition digit_val :: "char \<Rightarrow> nat option" where
  "digit_val c =
     (let n = of_char c :: nat in if 48 \<le> n \<and> n \<le> 57 then Some (n - 48) else None)"

definition digit_char :: "nat \<Rightarrow> char" where
  "digit_char d = char_of (48 + d)"

text \<open>
  \<^verbatim>\<open>strconv.ParseUint(s, 10, bits)\<close>: the first byte that is no digit is a syntax error, the first
  digit that takes the value past \<^verbatim>\<open>1<<bits - 1\<close> a range error, whichever comes first.
\<close>

fun parse_digits :: "nat \<Rightarrow> nat \<Rightarrow> string \<Rightarrow> num_error + nat" where
  "parse_digits maxv n [] = Inr n"
| "parse_digits maxv n (c # cs) =
     (case digit_val c of
        None \<Rightarrow> Inl ErrSyntax
      | Some d \<Rightarrow> if n * 10 + d > maxv then Inl ErrRange else parse_digits maxv (n * 10 + d) cs)"

definition parse_uint :: "nat \<Rightarrow> string \<Rightarrow> num_error + nat" where
  "parse_uint bits s = (if s = [] then Inl ErrSyntax else parse_digits (2 ^ bits - 1) 0 s)"

text \<open>\<^verbatim>\<open>strconv.ParseInt(s, 10, bits)\<close>; \<^verbatim>\<open>strconv.Atoi\<close> is the 64-bit case.\<close>

definition parse_int :: "nat \<Rightarrow> string \<Rightarrow> num_error + int" where
  "parse_int bits s =
     (if s = [] then Inl ErrSyntax
      else
        let neg = (hd s = CHR ''-'');
            rest = (if hd s = CHR ''+'' \<or> hd s = CHR ''-'' then tl s else s)
        in case parse_uint bits rest of
             Inl e \<Rightarrow> Inl e
           | Inr un \<Rightarrow>
               if \<not> neg \<and> un \<ge> 2 ^ (bits - 1) then Inl ErrRange
               else if neg \<and> un > 2 ^ (bits - 1) then Inl ErrRange
               else Inr (if neg then - int un else int un))"

definition atoi :: "string \<Rightarrow> num_error + int" where
  "atoi s = parse_int 64 s"

text \<open>\<^verbatim>\<open>strconv.Itoa\<close>, \<^verbatim>\<open>strconv.FormatInt(_, 10)\<close> and the verb \<^verbatim>\<open>%d\<close>.\<close>

fun nat_digits :: "nat \<Rightarrow> string" where
  "nat_digits n =
     (if n < 10 then [digit_char n] else nat_digits (n div 10) @ [digit_char (n mod 10)])"

declare nat_digits.simps [simp del]

definition itoa :: "int \<Rightarrow> string" where
  "itoa n = (if n < 0 then CHR ''-'' # nat_digits (nat (- n)) else nat_digits (nat n))"

subsection \<open>Round trips and ranges\<close>

lemma digit_val_char [simp]: "d < 10 \<Longrightarrow> digit_val (digit_char d) = Some d"
  by (simp add: digit_val_def digit_char_def Let_def)

lemma digit_val_less: "digit_val c = Some d \<Longrightarrow> d < 10"
  by (auto simp: digit_val_def Let_def split: if_splits)

lemma nat_digits_not_Nil [simp]: "nat_digits n \<noteq> []"
  by (subst nat_digits.simps) simp

lemma digits_no_space: "digit_val x \<noteq> None \<Longrightarrow> no_space x"
  by (auto simp: digit_val_def no_space_def space_runes_def split: if_splits)

lemma set_nat_digits: "c \<in> set (nat_digits n) \<Longrightarrow> digit_val c \<noteq> None"
proof (induction n rule: nat_digits.induct)
  case (1 n)
  then show ?case by (subst (asm) nat_digits.simps) (auto split: if_splits)
qed

lemma nat_digits_no_space: "x \<in> set (nat_digits n) \<Longrightarrow> no_space x"
  using set_nat_digits digits_no_space by blast

lemma parse_digits_nat_digits:
  "n \<le> maxv \<Longrightarrow> parse_digits maxv 0 (nat_digits n @ ys) = parse_digits maxv n ys"
proof (induction n arbitrary: ys rule: nat_digits.induct)
  case (1 n)
  show ?case
  proof (cases "n < 10")
    case False
    with 1 have "parse_digits maxv 0 (nat_digits (n div 10) @ digit_char (n mod 10) # ys)
      = parse_digits maxv (n div 10) (digit_char (n mod 10) # ys)"
      by simp
    moreover have "\<not> maxv < n div 10 * 10 + n mod 10" using "1.prems" by presburger
    ultimately show ?thesis using False by (subst nat_digits.simps) simp
  qed (use 1 in \<open>subst nat_digits.simps, simp\<close>)
qed

lemma parse_uint_nat_digits [go_strings]: "n < 2 ^ bits \<Longrightarrow> parse_uint bits (nat_digits n) = Inr n"
  using parse_digits_nat_digits [of n "2 ^ bits - 1" "[]"] by (simp add: parse_uint_def)

lemma parse_digits_bound: "n \<le> maxv \<Longrightarrow> parse_digits maxv n s = Inr m \<Longrightarrow> m \<le> maxv"
proof (induction s arbitrary: n)
  case (Cons c s)
  from Cons.prems obtain d where "n * 10 + d \<le> maxv" "parse_digits maxv (n * 10 + d) s = Inr m"
    by (auto split: option.splits if_splits simp: not_less)
  then show ?case by (rule Cons.IH)
qed simp

lemma parse_uint_bound: "parse_uint bits s = Inr n \<Longrightarrow> n < 2 ^ bits"
  using parse_digits_bound [of 0 "2 ^ bits - 1" s n]
  by (auto simp: parse_uint_def split: if_splits intro: le_less_trans)

lemma digit_val_signs [simp]: "digit_val CHR ''-'' = None" "digit_val CHR ''+'' = None"
  "digit_val CHR ''.'' = None" "digit_val CHR '':'' = None"
  by (simp_all add: digit_val_def)

lemma hd_nat_digits: "digit_val (hd (nat_digits n)) \<noteq> None"
  by (rule set_nat_digits [of _ n]) simp

lemma parse_uint_signed [simp]: "parse_uint bits (CHR ''-'' # s) = Inl ErrSyntax"
  by (simp add: parse_uint_def)

lemma parse_int_itoa [go_strings]:
  assumes "0 < bits" and "- (2 ^ (bits - 1)) \<le> n" and "n < 2 ^ (bits - 1)"
  shows "parse_int bits (itoa n) = Inr n"
proof -
  have "(2::nat) ^ (bits - 1) < 2 ^ bits"
    by (rule power_strict_increasing) (use \<open>0 < bits\<close> in simp_all)
  then have parse: "parse_uint bits (nat_digits u) = Inr u" if "u \<le> 2 ^ (bits - 1)" for u
    using that by (blast intro: parse_uint_nat_digits le_less_trans)
  show ?thesis
  proof (cases "n < 0")
    case True
    with assms(2) have "nat (- n) \<le> 2 ^ (bits - 1)"
      by (simp add: nat_le_iff)
    with True parse [of "nat (- n)"] show ?thesis
      by (simp add: parse_int_def itoa_def)
  next
    case False
    with assms(3) have less: "nat n < 2 ^ (bits - 1)"
      by (simp add: nat_less_iff)
    have "hd (nat_digits (nat n)) \<noteq> CHR ''+''" "hd (nat_digits (nat n)) \<noteq> CHR ''-''"
      using hd_nat_digits [of "nat n"] by (metis digit_val_signs(1,2))+
    with False less parse [of "nat n"] show ?thesis
      by (simp add: parse_int_def itoa_def)
  qed
qed

lemma itoa_inj:
  assumes "0 < bits" and "- (2 ^ (bits - 1)) \<le> a" and "a < 2 ^ (bits - 1)"
    and "- (2 ^ (bits - 1)) \<le> b" and "b < 2 ^ (bits - 1)" and "itoa a = itoa b"
  shows "a = b"
proof -
  have "(Inr a :: num_error + int) = Inr b"
    by (metis parse_int_itoa [OF assms(1-3)] parse_int_itoa [OF assms(1,4,5)] assms(6))
  then show ?thesis by simp
qed

lemma itoa_inject [simp]: "itoa a = itoa b \<longleftrightarrow> a = b"
proof
  let ?n = "nat \<bar>a\<bar> + nat \<bar>b\<bar>"
  have "?n < 2 ^ ?n" by (rule less_exp)
  then have "int ?n < 2 ^ ?n" by (metis of_nat_less_iff of_nat_numeral of_nat_power)
  then have big: "\<bar>a\<bar> + \<bar>b\<bar> < 2 ^ (Suc ?n - 1)" by simp
  have "- (2 ^ (Suc ?n - 1)) \<le> a" "a < 2 ^ (Suc ?n - 1)" "- (2 ^ (Suc ?n - 1)) \<le> b" "b < 2 ^ (Suc ?n - 1)"
    using big by linarith+
  moreover assume "itoa a = itoa b"
  ultimately show "a = b" by (intro itoa_inj [of "Suc ?n"]) simp_all
qed simp

lemma parse_int_bounds:
  assumes "parse_int bits s = Inr n"
  shows "- (2 ^ (bits - 1)) \<le> n \<and> n < 2 ^ (bits - 1)"
proof -
  obtain neg un where n: "n = (if neg then - int un else int un)"
    and un: "un \<le> 2 ^ (bits - 1)" "\<not> neg \<Longrightarrow> un < 2 ^ (bits - 1)"
    using assms by (force simp: parse_int_def Let_def not_le not_less split: if_splits sum.splits)
  from un(1) have "int un \<le> 2 ^ (bits - 1)"
    by (metis of_nat_le_iff of_nat_numeral of_nat_power)
  moreover from un(2) have "\<not> neg \<Longrightarrow> int un < 2 ^ (bits - 1)"
    by (metis of_nat_less_iff of_nat_numeral of_nat_power)
  moreover have "(0::int) < 2 ^ (bits - 1)" by simp
  ultimately show ?thesis unfolding n by (cases neg) (simp_all only: if_True if_False simp_thms, linarith+)
qed

lemma itoa_not_Nil [simp]: "itoa n \<noteq> []"
  by (simp add: itoa_def)

lemma itoa_chars: "c \<in> set (itoa n) \<Longrightarrow> digit_val c \<noteq> None \<or> c = CHR ''-''"
  using set_nat_digits by (auto simp: itoa_def split: if_splits)

lemma itoa_no_colon [simp]: "CHR '':'' \<notin> set (itoa n)"
  using itoa_chars [of "CHR '':''" n] by auto

section \<open>Package encoding/hex\<close>

definition hex_char :: "nat \<Rightarrow> char" where
  "hex_char d = (if d < 10 then char_of (48 + d) else char_of (87 + d))"

definition hex_val :: "char \<Rightarrow> nat option" where
  "hex_val c =
     (let n = of_char c :: nat in
      if 48 \<le> n \<and> n \<le> 57 then Some (n - 48)
      else if 97 \<le> n \<and> n \<le> 102 then Some (n - 87)
      else if 65 \<le> n \<and> n \<le> 70 then Some (n - 55)
      else None)"

definition hex_byte :: "gobyte \<Rightarrow> string" where
  "hex_byte b = [hex_char (unat b div 16), hex_char (unat b mod 16)]"

text \<open>The verb \<^verbatim>\<open>%x\<close> of a byte slice.\<close>

definition hex_encode :: "gobyte list \<Rightarrow> string" where
  "hex_encode bs = concat (map hex_byte bs)"

text \<open>\<^verbatim>\<open>hex.DecodeString\<close>; \<^term>\<open>None\<close> for a byte that is no hexadecimal digit or an odd length.\<close>

fun hex_decode :: "string \<Rightarrow> gobyte list option" where
  "hex_decode [] = Some []"
| "hex_decode [c] = None"
| "hex_decode (a # b # cs) =
     (case (hex_val a, hex_val b) of
        (Some x, Some y) \<Rightarrow> map_option ((#) (word_of_nat (x * 16 + y))) (hex_decode cs)
      | _ \<Rightarrow> None)"

lemma hex_val_char [simp]: "d < 16 \<Longrightarrow> hex_val (hex_char d) = Some d"
  by (auto simp: hex_val_def hex_char_def Let_def)

lemma unat_byte_less [simp]: "unat (b :: gobyte) < 256"
  using unsigned_less [where ?'a = nat and w = b] by simp

lemma unat_byte_div [simp]: "unat (b :: gobyte) div 16 < 16"
  by (simp add: less_mult_imp_div_less)

lemma hex_decode_encode [simp]: "hex_decode (hex_encode bs) = Some bs"
proof (induction bs)
  case (Cons b bs)
  then show ?case
    by (simp add: hex_encode_def hex_byte_def)
qed (simp add: hex_encode_def)

lemma length_hex_encode [simp]: "length (hex_encode bs) = 2 * length bs"
  by (induction bs) (auto simp: hex_encode_def hex_byte_def)

lemma length_hex_decode: "hex_decode s = Some bs \<Longrightarrow> length s = 2 * length bs"
  by (induction s arbitrary: bs rule: hex_decode.induct) (auto split: option.splits)

section \<open>Package encoding/binary, little-endian\<close>

definition put_uint32 :: "32 word \<Rightarrow> gobyte list" where
  "put_uint32 w = map (\<lambda>i. ucast (drop_bit (8 * i) w)) [0..<4]"

definition put_uint64 :: "64 word \<Rightarrow> gobyte list" where
  "put_uint64 w = map (\<lambda>i. ucast (drop_bit (8 * i) w)) [0..<8]"

definition le_nat :: "gobyte list \<Rightarrow> nat" where
  "le_nat bs = foldr (\<lambda>b n. unat b + 256 * n) bs 0"

definition uint32_le :: "gobyte list \<Rightarrow> 32 word" where
  "uint32_le bs = word_of_nat (le_nat (take 4 bs))"

definition uint64_le :: "gobyte list \<Rightarrow> 64 word" where
  "uint64_le bs = word_of_nat (le_nat (take 8 bs))"

lemma length_put_uint [simp]: "length (put_uint32 w) = 4" "length (put_uint64 v) = 8"
  by (simp_all add: put_uint32_def put_uint64_def)

lemma unat_ucast_byte: "unat (ucast (drop_bit n w) :: gobyte) = unat w div 2 ^ n mod 256"
  for w :: "'a::len word"
proof -
  have "unat (ucast (drop_bit n w) :: gobyte) = take_bit 8 (drop_bit n (unat w))"
    by (simp only: unsigned_ucast_eq unat_drop_bit_eq) simp
  then show ?thesis by (simp only: take_bit_eq_mod drop_bit_eq_div) simp
qed

lemma le_nat_Cons: "le_nat (b # bs) = unat b + 256 * le_nat bs"
  by (simp add: le_nat_def)

lemma le_nat_bytes:
  "le_nat (map (\<lambda>i. ucast (drop_bit (8 * i) w)) [a..<a + n]) = unat w div 2 ^ (8 * a) mod 256 ^ n"
  for w :: "'a::len word"
proof (induction n arbitrary: a)
  case 0
  then show ?case by (simp add: le_nat_def)
next
  case (Suc n)
  let ?q = "unat w div 2 ^ (8 * a)"
  have upt: "[a..<a + Suc n] = a # [Suc a..<Suc a + n]"
    by (simp only: add_Suc_shift [symmetric]) (simp add: upt_conv_Cons)
  have shift: "unat w div 2 ^ (8 * Suc a) = ?q div 256"
    by (simp only: div_mult2_eq [symmetric] mult_Suc_right power_add) (simp add: mult.commute)
  have "le_nat (map (\<lambda>i. ucast (drop_bit (8 * i) w)) [a..<a + Suc n])
    = ?q mod 256 + 256 * (?q div 256 mod 256 ^ n)"
    by (simp only: upt list.map le_nat_Cons unat_ucast_byte Suc.IH shift)
  also have "\<dots> = ?q mod 256 ^ Suc n"
    by (simp only: mod_mult2_eq power_Suc add.commute)
  finally show ?case .
qed

lemma uint32_le_put [simp]: "uint32_le (put_uint32 w @ rest) = w"
proof -
  have "le_nat (put_uint32 w) = unat w"
    using le_nat_bytes [of w 0 4] unsigned_less [where ?'a = nat and w = w] by (simp add: put_uint32_def)
  then show ?thesis by (simp add: uint32_le_def)
qed

lemma uint64_le_put [simp]: "uint64_le (put_uint64 w @ rest) = w"
proof -
  have "le_nat (put_uint64 w) = unat w"
    using le_nat_bytes [of w 0 8] unsigned_less [where ?'a = nat and w = w] by (simp add: put_uint64_def)
  then show ?thesis by (simp add: uint64_le_def)
qed

end
