(* ===== verification/Md5.thy ===== *)
theory Md5
  imports GoNumeric
begin

text \<open>
  \<^verbatim>\<open>md5.Sum\<close> of Go's standard library package \<^verbatim>\<open>crypto/md5\<close> (RFC 1321), which metric identifiers are
  built from. The development relies on one fact about it only, that a digest has 16 bytes; the
  definition is executable so that no assumption is made about the function.
\<close>

unbundle bit_operations_syntax

definition md5_K :: "32 word list" where
  "md5_K =
    [0xd76aa478, 0xe8c7b756, 0x242070db, 0xc1bdceee, 0xf57c0faf, 0x4787c62a, 0xa8304613, 0xfd469501,
     0x698098d8, 0x8b44f7af, 0xffff5bb1, 0x895cd7be, 0x6b901122, 0xfd987193, 0xa679438e, 0x49b40821,
     0xf61e2562, 0xc040b340, 0x265e5a51, 0xe9b6c7aa, 0xd62f105d, 0x2441453, 0xd8a1e681, 0xe7d3fbc8,
     0x21e1cde6, 0xc33707d6, 0xf4d50d87, 0x455a14ed, 0xa9e3e905, 0xfcefa3f8, 0x676f02d9, 0x8d2a4c8a,
     0xfffa3942, 0x8771f681, 0x6d9d6122, 0xfde5380c, 0xa4beea44, 0x4bdecfa9, 0xf6bb4b60, 0xbebfbc70,
     0x289b7ec6, 0xeaa127fa, 0xd4ef3085, 0x4881d05, 0xd9d4d039, 0xe6db99e5, 0x1fa27cf8, 0xc4ac5665,
     0xf4292244, 0x432aff97, 0xab9423a7, 0xfc93a039, 0x655b59c3, 0x8f0ccc92, 0xffeff47d, 0x85845dd1,
     0x6fa87e4f, 0xfe2ce6e0, 0xa3014314, 0x4e0811a1, 0xf7537e82, 0xbd3af235, 0x2ad7d2bb, 0xeb86d391]"

definition md5_shift :: "nat list" where
  "md5_shift =
     concat (replicate 4 [7, 12, 17, 22]) @ concat (replicate 4 [5, 9, 14, 20]) @
     concat (replicate 4 [4, 11, 16, 23]) @ concat (replicate 4 [6, 10, 15, 21])"

type_synonym md5_state = "32 word \<times> 32 word \<times> 32 word \<times> 32 word"

definition md5_mix :: "nat \<Rightarrow> 32 word \<Rightarrow> 32 word \<Rightarrow> 32 word \<Rightarrow> 32 word" where
  "md5_mix i b c d =
     (if i < 16 then (b AND c) OR (NOT b AND d)
      else if i < 32 then (d AND b) OR (NOT d AND c)
      else if i < 48 then b XOR c XOR d
      else c XOR (b OR NOT d))"

definition md5_index :: "nat \<Rightarrow> nat" where
  "md5_index i =
     (if i < 16 then i
      else if i < 32 then (5 * i + 1) mod 16
      else if i < 48 then (3 * i + 5) mod 16
      else (7 * i) mod 16)"

definition md5_round :: "32 word list \<Rightarrow> nat \<Rightarrow> md5_state \<Rightarrow> md5_state" where
  "md5_round block i st =
     (case st of (a, b, c, d) \<Rightarrow>
        (d, b + word_rotl (md5_shift ! i)
              (a + md5_mix i b c d + md5_K ! i + block ! md5_index i), b, c))"

definition md5_block :: "gobyte list \<Rightarrow> md5_state \<Rightarrow> md5_state" where
  "md5_block bs st =
     (let block = map (\<lambda>i. uint32_le (drop (4 * i) bs)) [0..<16];
          st' = fold (md5_round block) [0..<64] st
      in case (st, st') of ((a, b, c, d), (a', b', c', d')) \<Rightarrow>
           (a + a', b + b', c + c', d + d'))"

definition md5_pad :: "gobyte list \<Rightarrow> gobyte list" where
  "md5_pad bs =
     bs @ [0x80] @ replicate ((119 - length bs mod 64) mod 64) 0 @
     put_uint64 (word_of_nat (8 * length bs))"

fun md5_blocks :: "nat \<Rightarrow> gobyte list \<Rightarrow> md5_state \<Rightarrow> md5_state" where
  "md5_blocks 0 bs st = st"
| "md5_blocks (Suc n) bs st = md5_blocks n (drop 64 bs) (md5_block (take 64 bs) st)"

definition md5_sum :: "gobyte list \<Rightarrow> gobyte list" where
  "md5_sum bs =
     (let p = md5_pad bs
      in case md5_blocks (length p div 64) p (0x67452301, 0xefcdab89, 0x98badcfe, 0x10325476) of
           (a, b, c, d) \<Rightarrow> put_uint32 a @ put_uint32 b @ put_uint32 c @ put_uint32 d)"

lemma length_md5_sum [simp]: "length (md5_sum bs) = 16"
  by (simp add: md5_sum_def Let_def split: prod.splits)

text \<open>The padded message is a whole number of 64-byte blocks, so the block count above is exact.\<close>

lemma md5_pad_blocks: "length (md5_pad bs) mod 64 = 0"
proof -
  define r where "r = length bs mod 64"
  have "r < 64" by (simp add: r_def)
  have "(r + 9 + (119 - r) mod 64) mod 64 = 0"
  proof (cases "r \<le> 55")
    case True
    then have "119 - r = 64 + (55 - r)" by simp
    then have "(119 - r) mod 64 = 55 - r" by (simp only: mod_add_self1) simp
    with True show ?thesis by simp
  next
    case False
    then have "(119 - r) mod 64 = 119 - r" by simp
    with \<open>r < 64\<close> False show ?thesis by simp
  qed
  then have "(length bs + 9 + (119 - r) mod 64) mod 64 = 0"
    unfolding r_def by (metis (no_types) add.assoc mod_add_left_eq)
  then show ?thesis by (simp add: md5_pad_def r_def add.assoc)
qed

end
