(* ===== verification/Schema.thy ===== *)
theory Schema
  imports Md5
begin

text \<open>
  The metric data model of the vendored package \<^verbatim>\<open>metrictank/schema\<close>, which every ingest path of the
  gateway produces and the Kafka publisher consumes: \<^verbatim>\<open>MetricData\<close> with its validation and its
  identifier (\<^verbatim>\<open>metric.go\<close>), the binary keys (\<^verbatim>\<open>key.go\<close>), the fixed-size point encodings
  (\<^verbatim>\<open>metricpoint.go\<close>) and partitioning (\<^verbatim>\<open>partition.go\<close>, \<^verbatim>\<open>cluster/partitioner\<close>).

  The composition of \<^verbatim>\<open>xxhash\<close> and \<^verbatim>\<open>jump.Hash\<close>, which partitioning by series with tags uses, is the
  parameter \<open>jumpHash\<close> of the definitions that call it.
\<close>

unbundle bit_operations_syntax

section \<open>MetricData\<close>

record MetricData =
  md_Id :: string
  md_OrgId :: int
  md_Name :: string
  md_Interval :: int
  md_Value :: float64
  md_Unit :: string
  md_Time :: int
  md_Mtype :: string
  md_Tags :: "string list"

text \<open>\<open>PanicIndex\<close> is a slice index out of range, \<open>PanicDivide\<close> an integer division by zero.\<close>

datatype schema_error =
  ErrInvalidIntervalzero | ErrInvalidOrgIdzero | ErrInvalidEmptyName | ErrInvalidMtype
  | ErrInvalidTagFormat | ErrUnknownPartitionMethod | PanicIndex | PanicDivide

subsection \<open>EatDots\<close>

text \<open>The counting loop over \<^verbatim>\<open>i = 1 .. len(name)-1\<close>.\<close>

function count_dots :: "string \<Rightarrow> nat \<Rightarrow> nat \<Rightarrow> nat" where
  "count_dots name i dotsToRemove =
     (if i < length name then
        count_dots name (Suc i)
          (if name ! i = CHR ''.'' then
             dotsToRemove + (if name ! (i - 1) = CHR ''.'' then 1 else 0)
               + (if i = length name - 1 then 1 else 0)
           else dotsToRemove)
      else dotsToRemove)"
  by pat_completeness auto
termination
  by (relation "measure (\<lambda>(name, i, n). length name - i)") auto

declare count_dots.simps [simp del]

text \<open>
  The copying loop. \<open>newName\<close> is the buffer made by the caller; a write past its end is the panic
  \<^term>\<open>None\<close>.
\<close>

definition write_at :: "string \<Rightarrow> nat \<Rightarrow> char \<Rightarrow> string option" where
  "write_at buf j c = (if j < length buf then Some (buf[j := c]) else None)"

fun copy_dots :: "string \<Rightarrow> string \<Rightarrow> nat \<Rightarrow> bool \<Rightarrow> string option" where
  "copy_dots [] newName j sawDot = Some newName"
| "copy_dots (c # cs) newName j sawDot =
     (if c = CHR ''.'' then copy_dots cs newName j (sawDot \<or> j > 0)
      else if sawDot then
        (case write_at newName j CHR ''.'' of
           None \<Rightarrow> None
         | Some b \<Rightarrow>
             (case write_at b (Suc j) c of
                None \<Rightarrow> None
              | Some b' \<Rightarrow> copy_dots cs b' (Suc (Suc j)) False))
      else
        (case write_at newName j c of
           None \<Rightarrow> None
         | Some b \<Rightarrow> copy_dots cs b (Suc j) False))"

definition EatDots :: "string \<Rightarrow> string option" where
  "EatDots name =
     (if length name = 0 then Some []
      else
        let dotsToRemove = count_dots name 1 (if name ! 0 = CHR ''.'' then 1 else 0)
        in if dotsToRemove = 0 then Some name
           else if dotsToRemove \<ge> length name then Some []
           else copy_dots name (replicate (length name - dotsToRemove) (char_of (0::nat))) 0 False)"

subsection \<open>Validation\<close>

definition ValidateTagKey :: "string \<Rightarrow> bool" where
  "ValidateTagKey key = (if length key = 0 then False else \<not> (\<exists>c \<in> set key. c \<in> set '';!^=''))"

definition ValidateTagValue :: "string \<Rightarrow> bool" where
  "ValidateTagValue value =
     (if length value = 0 then False
      else if value ! 0 = CHR ''~'' then False
      else CHR '';'' \<notin> set value)"

definition ValidateTag :: "string \<Rightarrow> bool" where
  "ValidateTag tag =
     (if length tag < 3 then False
      else if CHR ''='' \<notin> set tag then False
      else
        let equal = length (takeWhile (\<lambda>c. c \<noteq> CHR ''='') tag)
        in if equal = 0 \<or> equal = length tag - 1 then False
           else ValidateTagKey (take equal tag) \<and> ValidateTagValue (drop (Suc equal) tag))"

fun ValidateTags :: "string list \<Rightarrow> bool" where
  "ValidateTags [] = True"
| "ValidateTags (t # ts) = (if \<not> ValidateTag t then False else ValidateTags ts)"

definition mtypes :: "string list" where
  "mtypes = [''gauge'', ''rate'', ''count'', ''counter'', ''timestamp'']"

text \<open>\<^verbatim>\<open>Validate\<close> also rewrites the name: the second component is the metric afterwards.\<close>

definition Validate :: "MetricData \<Rightarrow> schema_error option \<times> MetricData" where
  "Validate m =
     (if md_OrgId m = 0 then (Some ErrInvalidOrgIdzero, m)
      else if md_Interval m = 0 then (Some ErrInvalidIntervalzero, m)
      else
        case EatDots (md_Name m) of
          None \<Rightarrow> (Some PanicIndex, m)
        | Some name \<Rightarrow>
            let m = m\<lparr>md_Name := name\<rparr>
            in if md_Name m = [] then (Some ErrInvalidEmptyName, m)
               else if md_Mtype m = [] \<or> md_Mtype m \<notin> set mtypes then (Some ErrInvalidMtype, m)
               else if \<not> ValidateTags (md_Tags m) then (Some ErrInvalidTagFormat, m)
               else (None, m))"

subsection \<open>The identifier\<close>

definition string_bytes :: "string \<Rightarrow> gobyte list" where
  "string_bytes s = map of_char s"

definition id_buffer :: "MetricData \<Rightarrow> string" where
  "id_buffer m =
     (let z = [char_of (0::nat)]
      in md_Name m @ z @ md_Unit m @ z @ md_Mtype m @ z @ itoa (md_Interval m) @
         concat (map (\<lambda>k. z @ k) (sort (md_Tags m))))"

definition SetId :: "MetricData \<Rightarrow> MetricData" where
  "SetId m =
     m\<lparr>md_Tags := sort (md_Tags m),
       md_Id := itoa (md_OrgId m) @ CHR ''.'' # hex_encode (md5_sum (string_bytes (id_buffer m)))\<rparr>"

section \<open>Keys\<close>

type_synonym Key = "gobyte list"

record MKey =
  mk_Key :: Key
  mk_Org :: uint32

datatype key_error = ErrStringTooShort | ErrHex | ErrOrg num_error

definition MKeyFromString :: "string \<Rightarrow> key_error + MKey" where
  "MKeyFromString s =
     (let l = length s
      in if l < 34 then Inl ErrStringTooShort
         else
           let hashStr = drop (l - 32) s;
               orgStr = take (l - 33) s
           in case hex_decode hashStr of
                None \<Rightarrow> Inl ErrHex
              | Some hash \<Rightarrow>
                  (case parse_uint 32 orgStr of
                     Inl e \<Rightarrow> Inl (ErrOrg e)
                   | Inr org \<Rightarrow> Inr \<lparr>mk_Key = hash, mk_Org = word_of_nat org\<rparr>))"

definition MKey_String :: "MKey \<Rightarrow> string" where
  "MKey_String m = itoa (uint (mk_Org m)) @ CHR ''.'' # hex_encode (mk_Key m)"

section \<open>MetricPoint\<close>

record MetricPoint =
  mp_MKey :: MKey
  mp_Value :: float64
  mp_Time :: uint32

definition putWithoutOrg :: "MetricPoint \<Rightarrow> gobyte list" where
  "putWithoutOrg m = mk_Key (mp_MKey m) @ put_uint64 (mp_Value m) @ put_uint32 (mp_Time m)"

text \<open>
  The marshalling functions append to a slice of capacity \<open>c\<close> and panic (\<^term>\<open>None\<close>) when it has
  no room.
\<close>

definition MarshalWithoutOrg28 :: "nat \<Rightarrow> gobyte list \<Rightarrow> MetricPoint \<Rightarrow> gobyte list option" where
  "MarshalWithoutOrg28 c b m = (if length b + 28 \<le> c then Some (b @ putWithoutOrg m) else None)"

definition Marshal32 :: "nat \<Rightarrow> gobyte list \<Rightarrow> MetricPoint \<Rightarrow> gobyte list option" where
  "Marshal32 c b m =
     (if length b + 32 \<le> c then Some (b @ putWithoutOrg m @ put_uint32 (mk_Org (mp_MKey m)))
      else None)"

definition UnmarshalWithoutOrg :: "uint32 \<Rightarrow> gobyte list \<Rightarrow> (MetricPoint \<times> gobyte list) option" where
  "UnmarshalWithoutOrg org bts =
     (if length bts < 28 then None
      else Some (\<lparr>mp_MKey = \<lparr>mk_Key = take 16 bts, mk_Org = org\<rparr>,
                  mp_Value = uint64_le (drop 16 bts), mp_Time = uint32_le (drop 24 bts)\<rparr>,
                 drop 28 bts))"

definition Unmarshal :: "gobyte list \<Rightarrow> (MetricPoint \<times> gobyte list) option" where
  "Unmarshal bts =
     (if length bts < 32 then None
      else Some (\<lparr>mp_MKey = \<lparr>mk_Key = take 16 bts, mk_Org = uint32_le (drop 28 bts)\<rparr>,
                  mp_Value = uint64_le (drop 16 bts), mp_Time = uint32_le (drop 24 bts)\<rparr>,
                 drop 32 bts))"

section \<open>Partitioning\<close>

datatype PartitionByMethod =
  PartitionByOrg | PartitionBySeries | PartitionBySeriesWithTags | PartitionBySeriesWithTagsFnv

definition PartitonMethodFromString :: "string \<Rightarrow> PartitionByMethod option" where
  "PartitonMethodFromString input =
     (if input = ''byOrg'' then Some PartitionByOrg
      else if input = ''bySeries'' then Some PartitionBySeries
      else if input = ''bySeriesWithTags'' then Some PartitionBySeriesWithTags
      else if input = ''bySeriesWithTagsFnv'' then Some PartitionBySeriesWithTagsFnv
      else None)"

text \<open>
  The runes of a string, as a \<^verbatim>\<open>range\<close> loop over it yields them: an invalid UTF-8 sequence gives
  U+FFFD and one byte is skipped.
\<close>

definition cont_byte :: "nat \<Rightarrow> nat \<Rightarrow> nat \<Rightarrow> bool" where
  "cont_byte lo hi b \<longleftrightarrow> lo \<le> b \<and> b \<le> hi"

definition second_range :: "nat \<Rightarrow> nat \<times> nat" where
  "second_range b =
     (if b = 0xE0 then (0xA0, 0xBF) else if b = 0xED then (0x80, 0x9F)
      else if b = 0xF0 then (0x90, 0xBF) else if b = 0xF4 then (0x80, 0x8F) else (0x80, 0xBF))"

definition decode_rune :: "nat list \<Rightarrow> nat \<times> nat" where
  "decode_rune bs =
     (case bs of
        [] \<Rightarrow> (0xFFFD, 0)
      | b0 # r \<Rightarrow>
          let (lo, hi) = second_range b0;
              ok1 = (r \<noteq> [] \<and> cont_byte lo hi (r ! 0));
              ok2 = (ok1 \<and> 2 \<le> length r \<and> cont_byte 0x80 0xBF (r ! 1));
              ok3 = (ok2 \<and> 3 \<le> length r \<and> cont_byte 0x80 0xBF (r ! 2))
          in if b0 < 0x80 then (b0, 1)
             else if 0xC2 \<le> b0 \<and> b0 \<le> 0xDF \<and> ok1 then (b0 mod 32 * 64 + r ! 0 mod 64, 2)
             else if 0xE0 \<le> b0 \<and> b0 \<le> 0xEF \<and> ok2
               then (b0 mod 16 * 4096 + r ! 0 mod 64 * 64 + r ! 1 mod 64, 3)
             else if 0xF0 \<le> b0 \<and> b0 \<le> 0xF4 \<and> ok3
               then (b0 mod 8 * 262144 + r ! 0 mod 64 * 4096 + r ! 1 mod 64 * 64 + r ! 2 mod 64, 4)
             else (0xFFFD, 1))"

lemma decode_rune_width: "bs \<noteq> [] \<Longrightarrow> 0 < snd (decode_rune bs)"
  by (auto simp: decode_rune_def Let_def split: list.splits prod.splits)

function runes_of :: "nat list \<Rightarrow> nat list" where
  "runes_of bs =
     (if bs = [] then [] else fst (decode_rune bs) # runes_of (drop (snd (decode_rune bs)) bs))"
  by pat_completeness auto
termination
  by (relation "measure length") (auto simp: decode_rune_width)

declare runes_of.simps [simp del]

definition runes :: "string \<Rightarrow> nat list" where
  "runes s = runes_of (map of_char s)"

text \<open>The FNV-1a hash, over bytes (\<^verbatim>\<open>hash/fnv\<close>) and over runes (\<^verbatim>\<open>Sum32aStringWriter\<close>).\<close>

definition fnv32a_step :: "nat \<Rightarrow> 32 word \<Rightarrow> 32 word" where
  "fnv32a_step c h = (h XOR word_of_nat c) * 16777619"

definition fnv32a :: "nat list \<Rightarrow> 32 word" where
  "fnv32a cs = fold fnv32a_step cs 2166136261"

fun writeSortedTags :: "string list \<Rightarrow> string" where
  "writeSortedTags [] = []"
| "writeSortedTags (t # ts) =
     (if length t > 5 \<and> take 5 t = ''name='' then writeSortedTags ts
      else CHR '';'' # t @ writeSortedTags ts)"

definition writeSortedTagString :: "string \<Rightarrow> string list \<Rightarrow> string" where
  "writeSortedTagString name tags = name @ writeSortedTags (sort tags)"

definition mod_partition :: "32 word \<Rightarrow> int \<Rightarrow> schema_error + int" where
  "mod_partition h partitions =
     (if partitions = 0 then Inl PanicDivide
      else let partition = sint h smod partitions
           in Inr (if partition < 0 then - partition else partition))"

text \<open>\<^verbatim>\<open>PartitionID\<close>; the methods that write the tags also sort the metric's tags in place.\<close>

definition PartitionID ::
  "(string \<Rightarrow> int \<Rightarrow> int) \<Rightarrow> MetricData \<Rightarrow> PartitionByMethod \<Rightarrow> int
    \<Rightarrow> (schema_error + int) \<times> MetricData" where
  "PartitionID jumpHash m meth partitions =
     (let sorted_m = m\<lparr>md_Tags := sort (md_Tags m)\<rparr>;
          tagged = writeSortedTagString (md_Name m) (md_Tags m)
      in case meth of
           PartitionByOrg \<Rightarrow>
             (mod_partition (fnv32a (map unat (put_uint32 (uint32_of (md_OrgId m))))) partitions, m)
         | PartitionBySeries \<Rightarrow> (mod_partition (fnv32a (runes (md_Name m))) partitions, m)
         | PartitionBySeriesWithTags \<Rightarrow> (Inr (jumpHash tagged partitions), sorted_m)
         | PartitionBySeriesWithTagsFnv \<Rightarrow> (mod_partition (fnv32a (runes tagged)) partitions, sorted_m))"

section \<open>EatDots is the join of the non-empty nodes\<close>

text \<open>The copying loop without its buffer: \<open>st\<close> says whether a byte was written already.\<close>

fun squeeze :: "bool \<Rightarrow> bool \<Rightarrow> string \<Rightarrow> string" where
  "squeeze st saw [] = []"
| "squeeze st saw (c # cs) =
     (if c = CHR ''.'' then squeeze st (saw \<or> st) cs
      else (if saw then [CHR ''.''] else []) @ c # squeeze True False cs)"

lemma write_at_take:
  "j < length buf \<Longrightarrow> write_at buf j c = Some (take j buf @ c # drop (Suc j) buf)"
  by (simp add: write_at_def upd_conv_take_nth_drop)

lemma copy_dots_squeeze:
  "j + length (squeeze (j > 0) saw cs) \<le> length buf \<Longrightarrow>
   copy_dots cs buf j saw =
     Some (take j buf @ squeeze (j > 0) saw cs @ drop (j + length (squeeze (j > 0) saw cs)) buf)"
  by (induction cs buf j saw rule: copy_dots.induct) (auto simp: write_at_take add.commute)

lemma copy_dots_exact:
  assumes "length buf = length (squeeze False False cs)"
  shows "copy_dots cs buf 0 False = Some (squeeze False False cs)"
  using copy_dots_squeeze [of 0 False cs buf] assms by simp

abbreviation nodes :: "string \<Rightarrow> string list" where
  "nodes s \<equiv> filter (\<lambda>t. t \<noteq> []) (split_on CHR ''.'' s)"

definition dotted :: "string list \<Rightarrow> string" where
  "dotted ts = concat (map ((#) CHR ''.'') ts)"

lemma dotted_simps [simp]: "dotted [] = []" "dotted (t # ts) = CHR ''.'' # t @ dotted ts"
  by (simp_all add: dotted_def)

lemma join_dotted: "join_with CHR ''.'' (t # ts) = t @ dotted ts"
  by (induction ts arbitrary: t) auto

lemma squeeze_started:
  "squeeze True True s = dotted (nodes s) \<and>
   squeeze True False s =
     hd (split_on CHR ''.'' s) @ dotted (filter (\<lambda>t. t \<noteq> []) (tl (split_on CHR ''.'' s)))"
proof (induction s)
  case (Cons c cs)
  then show ?case by (cases "split_on CHR ''.'' cs") auto
qed simp

lemma squeeze_nodes: "squeeze False False s = join_with CHR ''.'' (nodes s)"
proof (induction s)
  case (Cons c cs)
  then show ?case
    using squeeze_started [of cs]
    by (cases "split_on CHR ''.'' cs") (auto simp: join_dotted)
qed simp

text \<open>The counting loop as a recursion on the rest of the name; \<open>p\<close>: the byte before was a dot.\<close>

fun surplus :: "bool \<Rightarrow> string \<Rightarrow> nat" where
  "surplus p [] = 0"
| "surplus p (c # cs) =
     (if c = CHR ''.'' then (if p then 1 else 0) + (if cs = [] then 1 else 0) else 0)
     + surplus (c = CHR ''.'') cs"

lemma count_dots_surplus:
  "xs \<noteq> [] \<Longrightarrow> count_dots (xs @ ys) (length xs) n = n + surplus (last xs = CHR ''.'') ys"
proof (induction ys arbitrary: xs n)
  case Nil
  then show ?case by (subst count_dots.simps) simp
next
  case (Cons y ys)
  have prev: "(xs @ y # ys) ! (length xs - 1) = last xs"
    using Cons.prems by (simp add: nth_append last_conv_nth)
  have "count_dots ((xs @ [y]) @ ys) (length (xs @ [y])) k
      = k + surplus (last (xs @ [y]) = CHR ''.'') ys" for k
    by (rule Cons.IH) simp
  then show ?case
    using prev Cons.prems by (subst count_dots.simps) (auto simp del: length_greater_0_conv)
qed

lemma surplus_squeeze:
  "surplus False s + length (squeeze True False s) = length s \<and>
   (s \<noteq> [] \<longrightarrow> surplus True s + length (squeeze True True s) = Suc (length s))"
proof (induction s)
  case (Cons c cs)
  then show ?case by (cases cs) auto
qed simp

lemma surplus_leading:
  "s \<noteq> [] \<Longrightarrow> if squeeze False False s = [] then length s < surplus True s
    else surplus True s + length (squeeze False False s) = length s"
proof (induction s)
  case (Cons c cs)
  then show ?case using surplus_squeeze [of cs] by (cases cs) (auto split: if_splits)
qed simp

lemma squeeze_no_surplus:
  "surplus False s = 0 \<Longrightarrow> squeeze True False s = s"
  "surplus True s = 0 \<Longrightarrow> s \<noteq> [] \<Longrightarrow> squeeze True True s = CHR ''.'' # s"
proof (induction s)
  case (Cons c cs)
  {
    case 1
    then show ?case using Cons.IH by (cases cs) (auto split: if_splits)
  next
    case 2
    then show ?case using Cons.IH by (cases cs) (auto split: if_splits)
  }
qed simp_all

lemma EatDots_nodes: "EatDots name = Some (join_with CHR ''.'' (nodes name))"
proof (cases name)
  case (Cons c cs)
  let ?d = "(if c = CHR ''.'' then 1 else 0) + surplus (c = CHR ''.'') cs"
  have count: "count_dots name 1 (if name ! 0 = CHR ''.'' then 1 else 0) = ?d"
    using count_dots_surplus [of "[c]" cs] Cons by simp
  have zero: "?d = 0 \<Longrightarrow> squeeze False False name = name"
    using Cons squeeze_no_surplus(1) [of cs] by (auto split: if_splits)
  have lead: "cs \<noteq> [] \<Longrightarrow> squeeze False False cs \<noteq> [] \<Longrightarrow>
      surplus True cs + length (squeeze False False cs) = length cs"
    using surplus_leading [of cs] by simp
  have all_dots: "cs \<noteq> [] \<Longrightarrow> length cs \<le> surplus True cs \<Longrightarrow> squeeze False False cs = []"
    using lead by (cases "squeeze False False cs") auto
  have many: "length name \<le> ?d \<Longrightarrow> squeeze False False name = []"
    using Cons surplus_squeeze [of cs] all_dots by (cases "cs = []") (auto split: if_splits)
  have some: "?d < length name \<Longrightarrow> length name - ?d = length (squeeze False False name)"
    using Cons surplus_squeeze [of cs] surplus_leading [of cs]
    by (cases "cs = []") (auto split: if_splits)
  have "EatDots name = Some (squeeze False False name)"
    using zero many some copy_dots_exact [of _ name] Cons
    unfolding EatDots_def count Let_def by (auto simp del: squeeze.simps)
  then show ?thesis by (simp add: squeeze_nodes)
qed (simp add: EatDots_def)

section \<open>Validation\<close>

definition tag_ok :: "string \<Rightarrow> bool" where
  "tag_ok t \<longleftrightarrow> (\<exists>k v. t = k @ CHR ''='' # v \<and> k \<noteq> [] \<and> v \<noteq> [] \<and> hd v \<noteq> CHR ''~'' \<and>
     set k \<inter> set '';!^='' = {} \<and> CHR '';'' \<notin> set v)"

lemma takeWhile_upto_sep [simp]:
  "c \<notin> set k \<Longrightarrow> takeWhile (\<lambda>x. x \<noteq> c) (k @ c # v) = k"
  by (induction k) auto

lemma ValidateTag_split:
  assumes "CHR ''='' \<notin> set k"
  shows "ValidateTag (k @ CHR ''='' # v) \<longleftrightarrow>
    k \<noteq> [] \<and> v \<noteq> [] \<and> ValidateTagKey k \<and> ValidateTagValue v"
proof (cases "k = [] \<or> v = []")
  case True
  then show ?thesis using assms by (auto simp: ValidateTag_def Let_def)
next
  case False
  then have "3 \<le> length (k @ CHR ''='' # v)" by (cases k; cases v) auto
  with False show ?thesis using assms by (simp add: ValidateTag_def Let_def)
qed

lemma ValidateTag_tag_ok: "ValidateTag t = tag_ok t"
proof (cases "CHR ''='' \<in> set t")
  case True
  then obtain k v where t: "t = k @ CHR ''='' # v" and k: "CHR ''='' \<notin> set k"
    by (meson split_list_first)
  have "tag_ok t \<longleftrightarrow> k \<noteq> [] \<and> v \<noteq> [] \<and> hd v \<noteq> CHR ''~'' \<and> set k \<inter> set '';!^='' = {} \<and> CHR '';'' \<notin> set v"
    (is "_ \<longleftrightarrow> ?ok k v")
  proof
    assume "tag_ok t"
    then obtain k' v' where t': "t = k' @ CHR ''='' # v'" and ok: "?ok k' v'"
      unfolding tag_ok_def by blast
    from ok have "CHR ''='' \<notin> set k'" by auto
    with t' have "takeWhile (\<lambda>x. x \<noteq> CHR ''='') t = k'" by simp
    moreover have "takeWhile (\<lambda>x. x \<noteq> CHR ''='') t = k" using t k by simp
    ultimately have "k' = k" "v' = v" using t t' by simp_all
    with ok show "?ok k v" by simp
  qed (use t in \<open>auto simp: tag_ok_def\<close>)
  moreover have "ValidateTag t \<longleftrightarrow> ?ok k v"
    using ValidateTag_split [OF k, of v] unfolding t
    by (auto simp: ValidateTagKey_def ValidateTagValue_def hd_conv_nth)
  ultimately show ?thesis by simp
next
  case False
  then show ?thesis by (auto simp: ValidateTag_def tag_ok_def)
qed

lemma ValidateTags_all: "ValidateTags ts \<longleftrightarrow> (\<forall>t \<in> set ts. ValidateTag t)"
  by (induction ts) auto

lemma Validate_no_panic: "fst (Validate m) \<noteq> Some PanicIndex"
  by (simp add: Validate_def EatDots_nodes Let_def)

lemma Validate_cases:
  "Validate m =
     (if md_OrgId m = 0 then (Some ErrInvalidOrgIdzero, m)
      else if md_Interval m = 0 then (Some ErrInvalidIntervalzero, m)
      else
        let m = m\<lparr>md_Name := join_with CHR ''.'' (nodes (md_Name m))\<rparr>
        in (if md_Name m = [] then Some ErrInvalidEmptyName
            else if md_Mtype m \<notin> set mtypes then Some ErrInvalidMtype
            else if \<not> (\<forall>t \<in> set (md_Tags m). tag_ok t) then Some ErrInvalidTagFormat
            else None, m))"
  by (auto simp: Validate_def EatDots_nodes Let_def ValidateTags_all ValidateTag_tag_ok mtypes_def)

lemma Validate_frame:
  "snd (Validate m) = m\<lparr>md_Name := md_Name (snd (Validate m))\<rparr>"
  by (simp add: Validate_cases Let_def)

lemma Validate_frame_fields [simp]:
  "md_OrgId (snd (Validate m)) = md_OrgId m" "md_Interval (snd (Validate m)) = md_Interval m"
  "md_Time (snd (Validate m)) = md_Time m" "md_Tags (snd (Validate m)) = md_Tags m"
  "md_Id (snd (Validate m)) = md_Id m" "md_Mtype (snd (Validate m)) = md_Mtype m"
  "md_Unit (snd (Validate m)) = md_Unit m" "md_Value (snd (Validate m)) = md_Value m"
  by (simp_all add: Validate_cases Let_def)

section \<open>Identifiers and keys\<close>

definition id_hash :: "MetricData \<Rightarrow> Key" where
  "id_hash m = md5_sum (string_bytes (id_buffer m))"

lemma length_id_hash [simp]: "length (id_hash m) = 16"
  by (simp add: id_hash_def)

lemma md_Id_SetId: "md_Id (SetId m) = itoa (md_OrgId m) @ CHR ''.'' # hex_encode (id_hash m)"
  by (simp add: SetId_def id_hash_def)

lemma SetId_fields [simp]:
  "md_OrgId (SetId m) = md_OrgId m" "md_Interval (SetId m) = md_Interval m"
  "md_Name (SetId m) = md_Name m" "md_Time (SetId m) = md_Time m" "md_Value (SetId m) = md_Value m"
  "md_Unit (SetId m) = md_Unit m" "md_Mtype (SetId m) = md_Mtype m"
  "md_Tags (SetId m) = sort (md_Tags m)"
  by (simp_all add: SetId_def)

lemma sort_cong_mset: "mset xs = mset ys \<Longrightarrow> sort xs = sort (ys :: 'a::linorder list)"
  by (simp add: properties_for_sort)

lemma id_hash_cong:
  assumes "md_Name m = md_Name m'" and "md_Unit m = md_Unit m'" and "md_Mtype m = md_Mtype m'"
    and "md_Interval m = md_Interval m'" and "mset (md_Tags m) = mset (md_Tags m')"
  shows "id_hash m = id_hash m'"
  using assms(1-4) sort_cong_mset [OF assms(5)] by (simp add: id_hash_def id_buffer_def)

lemma sort_sort [simp]: "sort (sort xs) = sort (xs :: 'a::linorder list)"
  by (simp add: sort_key_id_if_sorted)

lemma SetId_idem [simp]: "SetId (SetId m) = SetId m"
  by (simp add: SetId_def id_buffer_def)

lemma MKeyFromString_String:
  assumes "length (mk_Key k) = 16"
  shows "MKeyFromString (MKey_String k) = Inr k"
proof -
  let ?org = "itoa (uint (mk_Org k))" and ?hex = "hex_encode (mk_Key k)"
  have "0 < length ?org" by simp
  then have long: "\<not> length (MKey_String k) < 34"
    unfolding MKey_String_def using assms by simp
  have parts: "drop (length (MKey_String k) - 32) (MKey_String k) = ?hex"
    "take (length (MKey_String k) - 33) (MKey_String k) = ?org"
    unfolding MKey_String_def using assms by (simp_all add: Suc_diff_le)
  have "uint (mk_Org k) = int (unat (mk_Org k))" by simp
  then have org: "?org = nat_digits (unat (mk_Org k))"
    by (simp add: itoa_def)
  have "unat (mk_Org k) < 2 ^ 32" using unsigned_less [where ?'a = nat and w = "mk_Org k"] by simp
  then have "parse_uint 32 ?org = Inr (unat (mk_Org k))"
    unfolding org by (rule parse_uint_nat_digits)
  then show ?thesis
    using long unfolding MKeyFromString_def Let_def parts by simp
qed

lemma MKeyFromString_SetId:
  assumes "0 \<le> md_OrgId m" and "md_OrgId m < 2 ^ 32"
  shows "MKeyFromString (md_Id (SetId m)) = Inr \<lparr>mk_Key = id_hash m, mk_Org = uint32_of (md_OrgId m)\<rparr>"
proof -
  let ?k = "\<lparr>mk_Key = id_hash m, mk_Org = uint32_of (md_OrgId m)\<rparr>"
  have "md_Id (SetId m) = MKey_String ?k"
    using assms by (simp only: md_Id_SetId MKey_String_def) (simp add: uint_uint32_of)
  then show ?thesis by (simp only: MKeyFromString_String) (simp add: MKeyFromString_String)
qed

lemma MKeyFromString_length: "MKeyFromString s = Inr k \<Longrightarrow> length (mk_Key k) = 16"
  by (auto simp: MKeyFromString_def Let_def split: if_splits option.splits sum.splits
      dest!: length_hex_decode)

section \<open>Points\<close>

lemma length_putWithoutOrg: "length (mk_Key (mp_MKey p)) = 16 \<Longrightarrow> length (putWithoutOrg p) = 28"
  by (simp add: putWithoutOrg_def)

lemma Unmarshal_put:
  assumes "length (mk_Key (mp_MKey p)) = 16"
  shows "Unmarshal (putWithoutOrg p @ put_uint32 (mk_Org (mp_MKey p)) @ rest) = Some (p, rest)"
proof -
  have "drop 24 (putWithoutOrg p @ put_uint32 (mk_Org (mp_MKey p)) @ rest) =
      put_uint32 (mp_Time p) @ put_uint32 (mk_Org (mp_MKey p)) @ rest"
    "drop 28 (putWithoutOrg p @ put_uint32 (mk_Org (mp_MKey p)) @ rest) =
      put_uint32 (mk_Org (mp_MKey p)) @ rest"
    using assms by (simp_all add: putWithoutOrg_def)
  then show ?thesis
    using assms by (simp add: Unmarshal_def length_putWithoutOrg) (simp add: putWithoutOrg_def)
qed

lemma UnmarshalWithoutOrg_put:
  assumes "length (mk_Key (mp_MKey p)) = 16"
  shows "UnmarshalWithoutOrg org (putWithoutOrg p @ rest) =
    Some (p\<lparr>mp_MKey := (mp_MKey p)\<lparr>mk_Org := org\<rparr>\<rparr>, rest)"
proof -
  have "drop 24 (putWithoutOrg p @ rest) = put_uint32 (mp_Time p) @ rest"
    using assms by (simp add: putWithoutOrg_def)
  then show ?thesis
    using assms by (simp add: UnmarshalWithoutOrg_def length_putWithoutOrg) (simp add: putWithoutOrg_def)
qed

section \<open>Partition numbers\<close>

lemma mod_partition_range:
  assumes "1 \<le> n"
  shows "\<exists>p. mod_partition h n = Inr p \<and> 0 \<le> p \<and> p < n"
proof -
  have "\<bar>sint h smod n\<bar> < n"
    using assms by (simp add: signed_modulo_int_def signed_divide_int_def sgn_if abs_mod_less
        minus_mult_div_eq_mod)
  with assms show ?thesis by (auto simp: mod_partition_def Let_def)
qed

lemma PartitionID_metric:
  "snd (PartitionID jh m meth n) = m \<or> snd (PartitionID jh m meth n) = m\<lparr>md_Tags := sort (md_Tags m)\<rparr>"
  by (auto simp: PartitionID_def Let_def split: PartitionByMethod.splits)

lemma PartitionID_range:
  assumes "1 \<le> n" and "\<And>s. 0 \<le> jh s n \<and> jh s n < n"
  shows "\<exists>p. fst (PartitionID jh m meth n) = Inr p \<and> 0 \<le> p \<and> p < n"
  using assms mod_partition_range [OF assms(1)]
  by (cases meth) (simp_all add: PartitionID_def Let_def)

section \<open>Properties\<close>

text \<open>
  \<^verbatim>\<open>EatDots\<close> never writes past its buffer, and its result is the name with the leading, trailing and
  repeated dots gone: the non-empty nodes of the name, joined by single dots.
\<close>

theorem eat_dots_normal_form: "EatDots name = Some (join_with CHR ''.'' (nodes name))"
  by (rule EatDots_nodes)

text \<open>
  \<^verbatim>\<open>Validate\<close> on every branch: the order in which the defects of a metric are reported, the normalised
  name it leaves behind, and that it never panics. A tag is accepted exactly when it has the form
  \<open>key=value\<close> with both parts non-empty, no character of \<^verbatim>\<open>;!^=\<close> in the key, no semicolon in the value
  and no tilde at its head.
\<close>

theorem validate_outcome:
  "Validate m =
     (if md_OrgId m = 0 then (Some ErrInvalidOrgIdzero, m)
      else if md_Interval m = 0 then (Some ErrInvalidIntervalzero, m)
      else
        let m = m\<lparr>md_Name := join_with CHR ''.'' (nodes (md_Name m))\<rparr>
        in (if md_Name m = [] then Some ErrInvalidEmptyName
            else if md_Mtype m \<notin> set mtypes then Some ErrInvalidMtype
            else if \<not> list_all tag_ok (md_Tags m) then Some ErrInvalidTagFormat
            else None, m))"
  by (simp add: Validate_cases list_all_iff Let_def)

text \<open>
  C21. The identifier that \<^verbatim>\<open>SetId\<close> writes is parsed back by \<^verbatim>\<open>MKeyFromString\<close> into the organisation and
  the hash of the metric, for every organisation of 32 bits, and the hash does not depend on the
  order in which the tags came.
\<close>

theorem set_id_parses_back:
  assumes "0 \<le> md_OrgId m" and "md_OrgId m < 2 ^ 32" and "mset tags = mset (md_Tags m)"
  shows "MKeyFromString (md_Id (SetId (m\<lparr>md_Tags := tags\<rparr>))) =
    Inr \<lparr>mk_Key = md5_sum (string_bytes (id_buffer m)), mk_Org = uint32_of (md_OrgId m)\<rparr>"
proof -
  have "id_hash (m\<lparr>md_Tags := tags\<rparr>) = id_hash m" using assms(3) by (intro id_hash_cong) simp_all
  then show ?thesis
    using MKeyFromString_SetId [of "m\<lparr>md_Tags := tags\<rparr>"] assms(1,2) by (simp add: id_hash_def)
qed

definition sample_metric :: MetricData where
  "sample_metric = \<lparr>md_Id = [], md_OrgId = 7, md_Name = ''a.b'', md_Interval = 10, md_Value = 1,
     md_Unit = [], md_Time = 1500000000, md_Mtype = ''gauge'', md_Tags = [''x=1'', ''y=2'']\<rparr>"

theorem set_id_parses_back_witness:
  "MKeyFromString (md_Id (SetId (sample_metric\<lparr>md_Tags := [''y=2'', ''x=1'']\<rparr>))) =
     Inr \<lparr>mk_Key = md5_sum (string_bytes (id_buffer sample_metric)), mk_Org = uint32_of 7\<rparr>"
  using set_id_parses_back [of sample_metric "[''y=2'', ''x=1'']"]
  by (simp add: sample_metric_def add_mset_commute)

text \<open>
  The two fixed-size encodings of a point are read back: \<^verbatim>\<open>Marshal32\<close> into a buffer with room gives
  32 bytes from which \<^verbatim>\<open>Unmarshal\<close> restores the point, \<^verbatim>\<open>MarshalWithoutOrg28\<close> gives 28 bytes from which
  \<^verbatim>\<open>UnmarshalWithoutOrg\<close> restores it for the organisation the reader supplies.
\<close>

theorem metric_point_round_trip:
  assumes "length (mk_Key (mp_MKey p)) = 16" and "length b + 32 \<le> c"
  shows "\<exists>e e'. Marshal32 c b p = Some (b @ e) \<and> length e = 32 \<and> Unmarshal e = Some (p, []) \<and>
    MarshalWithoutOrg28 c b p = Some (b @ e') \<and> length e' = 28 \<and>
    UnmarshalWithoutOrg (mk_Org (mp_MKey p)) e' = Some (p, [])"
  using assms Unmarshal_put [OF assms(1), of "[]"] UnmarshalWithoutOrg_put [OF assms(1), of _ "[]"]
  by (simp add: Marshal32_def MarshalWithoutOrg28_def length_putWithoutOrg)

definition sample_point :: MetricPoint where
  "sample_point = \<lparr>mp_MKey = \<lparr>mk_Key = replicate 16 7, mk_Org = 3\<rparr>, mp_Value = 5, mp_Time = 99\<rparr>"

theorem metric_point_round_trip_witness:
  "\<exists>e e'. Marshal32 33 [2] sample_point = Some ([2] @ e) \<and> length e = 32 \<and>
    Unmarshal e = Some (sample_point, []) \<and>
    MarshalWithoutOrg28 33 [2] sample_point = Some ([2] @ e') \<and> length e' = 28 \<and>
    UnmarshalWithoutOrg (mk_Org (mp_MKey sample_point)) e' = Some (sample_point, [])"
  by (rule metric_point_round_trip) (simp_all add: sample_point_def)

text \<open>
  With at least one partition, and with a jump hash that stays in its range, every partitioning
  method gives a partition number in range and neither panics nor fails; the metric keeps everything
  but the order of its tags.
\<close>

theorem partition_in_range:
  assumes "1 \<le> n" and "\<And>s. 0 \<le> jumpHash s n \<and> jumpHash s n < n"
  shows "(\<exists>p. fst (PartitionID jumpHash m meth n) = Inr p \<and> 0 \<le> p \<and> p < n) \<and>
    snd (PartitionID jumpHash m meth n) \<in> {m, m\<lparr>md_Tags := sort (md_Tags m)\<rparr>}"
  using PartitionID_range [of n jumpHash m meth] assms PartitionID_metric [of jumpHash m meth n] by simp

theorem partition_in_range_witness:
  "(\<exists>p. fst (PartitionID (\<lambda>s n. 0) sample_metric PartitionBySeriesWithTagsFnv 8) = Inr p \<and> 0 \<le> p \<and> p < 8) \<and>
    snd (PartitionID (\<lambda>s n. 0) sample_metric PartitionBySeriesWithTagsFnv 8) \<in>
      {sample_metric, sample_metric\<lparr>md_Tags := sort (md_Tags sample_metric)\<rparr>}"
  by (rule partition_in_range) simp_all

end
