(* ===== verification/Transitions.thy ===== *)
theory Transitions
  imports Main
begin

text \<open>
  What the state machines of the development have in common. The key cache, the caches of grafana.com, the buffers,
  the carbon input and the shutdown are step relations; the locales below are the arguments about them, and the theory
  of each machine interprets those it needs.

  \<^item> \<open>transition_system\<close>: steps without labels, and the states that are reached from a start.
  \<^item> \<open>invariant_system\<close>: an invariant that every step keeps.
  \<^item> \<open>terminating_system\<close>: moves that reduce the work left, and that are possible until the end.
  \<^item> \<open>serving_system\<close>: a system that may take in new work for ever, but whose own moves end.
  \<^item> \<open>event_system\<close>: steps with events, and the lists of events of runs.
\<close>

section \<open>Reached states\<close>

locale transition_system =
  fixes step :: "'s \<Rightarrow> 's \<Rightarrow> bool"
    and reached :: "'s \<Rightarrow> bool"
    and start :: 's
  assumes reached_start: "reached start"
    and reached_step: "reached s \<Longrightarrow> step s s' \<Longrightarrow> reached s'"
    and reached_only: "reached s \<Longrightarrow> step\<^sup>*\<^sup>* start s"
begin

lemma reached_run: "step\<^sup>*\<^sup>* s s' \<Longrightarrow> reached s \<Longrightarrow> reached s'"
  by (induction rule: rtranclp_induct) (auto intro: reached_step)

lemma reached_iff: "reached s \<longleftrightarrow> step\<^sup>*\<^sup>* start s"
  using reached_only reached_run reached_start by blast

end

locale invariant_system = transition_system step reached start
  for step :: "'s \<Rightarrow> 's \<Rightarrow> bool" and reached :: "'s \<Rightarrow> bool" and start :: 's +
  fixes inv :: "'s \<Rightarrow> bool"
  assumes inv_start: "inv start"
    and inv_step: "inv s \<Longrightarrow> step s s' \<Longrightarrow> inv s'"
begin

lemma inv_run: "step\<^sup>*\<^sup>* s s' \<Longrightarrow> inv s \<Longrightarrow> inv s'"
  by (induction rule: rtranclp_induct) (auto intro: inv_step)

lemma reached_inv: "reached s \<Longrightarrow> inv s"
  using reached_only inv_run inv_start by blast

end

section \<open>Moves that end\<close>

locale terminating_system =
  fixes move :: "'s \<Rightarrow> 's \<Rightarrow> bool"
    and inv :: "'s \<Rightarrow> bool"
    and work :: "'s \<Rightarrow> nat"
    and final :: "'s \<Rightarrow> bool"
  assumes inv_move: "inv s \<Longrightarrow> move s s' \<Longrightarrow> inv s'"
    and move_work: "inv s \<Longrightarrow> move s s' \<Longrightarrow> work s' < work s"
    and progress: "inv s \<Longrightarrow> \<not> final s \<Longrightarrow> \<exists>s'. move s s'"
begin

lemma moves_bounded: "(move ^^ n) s s' \<Longrightarrow> inv s \<Longrightarrow> n + work s' \<le> work s \<and> inv s'"
proof (induction n arbitrary: s')
  case (Suc n)
  then obtain s1 where run: "(move ^^ n) s s1" and last: "move s1 s'" by auto
  note IH = Suc.IH [OF run Suc.prems(2)]
  then show ?case using move_work [OF _ last] inv_move [OF _ last] by force
qed simp

lemma stuck_final:
  assumes "(move ^^ n) s s'" and "inv s" and "\<forall>s''. \<not> move s' s''"
  shows "final s'"
  using moves_bounded [OF assms(1,2)] progress [of s'] assms(3) by blast

lemma final_reached: "inv s \<Longrightarrow> \<exists>s'. move\<^sup>*\<^sup>* s s' \<and> final s'"
proof (induction "work s" arbitrary: s rule: less_induct)
  case less
  show ?case
  proof (cases "final s")
    case False
    then obtain s1 where s1: "move s s1" using progress [OF less.prems] by blast
    then obtain s' where "move\<^sup>*\<^sup>* s1 s' \<and> final s'"
      using less.hyps [of s1] move_work [OF less.prems s1] inv_move [OF less.prems s1] by blast
    then show ?thesis using s1 by (meson converse_rtranclp_into_rtranclp)
  qed blast
qed

end

text \<open>A system whose own moves end, whenever it takes in no more work.\<close>

locale serving_system = invariant_system step reached start inv
  for step :: "'s \<Rightarrow> 's \<Rightarrow> bool" and reached :: "'s \<Rightarrow> bool" and start :: 's and inv :: "'s \<Rightarrow> bool" +
  fixes move :: "'s \<Rightarrow> 's \<Rightarrow> bool"
    and work :: "'s \<Rightarrow> nat"
    and final :: "'s \<Rightarrow> bool"
  assumes move_step: "move s s' \<Longrightarrow> step s s'"
    and own_work: "inv s \<Longrightarrow> move s s' \<Longrightarrow> work s' < work s"
    and own_progress: "inv s \<Longrightarrow> \<not> final s \<Longrightarrow> \<exists>s'. move s s'"

sublocale serving_system \<subseteq> own: terminating_system move inv work final
  by unfold_locales (auto intro: inv_step move_step own_work own_progress)

section \<open>Events\<close>

locale event_system =
  fixes event :: "'s \<Rightarrow> 'e \<Rightarrow> 's \<Rightarrow> bool"
    and trace :: "'s \<Rightarrow> 'e list \<Rightarrow> 's \<Rightarrow> bool"
  assumes trace_Nil: "trace s [] s' \<longleftrightarrow> s' = s"
    and trace_snoc: "trace s (es @ [e]) s'' \<longleftrightarrow> (\<exists>s'. trace s es s' \<and> event s' e s'')"
begin

lemma trace_append: "trace s (es @ fs) s'' \<longleftrightarrow> (\<exists>s'. trace s es s' \<and> trace s' fs s'')"
proof (induction fs arbitrary: s'' rule: rev_induct)
  case (snoc f fs)
  show ?case unfolding append_assoc [symmetric] trace_snoc snoc.IH by blast
qed (simp add: trace_Nil)

lemma trace_Cons: "trace s (e # es) s'' \<longleftrightarrow> (\<exists>s'. event s e s' \<and> trace s' es s'')"
  using trace_append [of s "[e]" es s''] trace_snoc [of s "[]" e] by (simp add: trace_Nil)

lemma trace_induct [consumes 1, case_names start event]:
  assumes "trace s es s'" and "P [] s"
    and "\<And>es s' e s''. trace s es s' \<Longrightarrow> P es s' \<Longrightarrow> event s' e s'' \<Longrightarrow> P (es @ [e]) s''"
  shows "P es s'"
  using assms(1)
proof (induction es arbitrary: s' rule: rev_induct)
  case Nil
  then show ?case using assms(2) by (simp add: trace_Nil)
next
  case (snoc e es)
  then show ?case using assms(3) by (auto simp: trace_snoc)
qed

lemma trace_inv:
  assumes "trace s es s'" and "ok s" and "\<And>s e s'. event s e s' \<Longrightarrow> ok s \<Longrightarrow> ok s'"
  shows "ok s'"
  using assms(1) by (induction rule: trace_induct) (auto intro: assms(2,3))

end

end
