(* ===== verification/KeyCache.thy ===== *)
theory KeyCache
  imports Schema Transitions
begin

text \<open>
  The package \<^verbatim>\<open>publish/kafka/keycache\<close>: which metric keys were published recently, per organisation,
  in 256 shards of which one is wiped at every tick.

  \<^item> \<open>Shard\<close>, \<open>Cache\<close> and \<open>KeyCache\<close> are the structs; one definition per method, run under the locks
    the code takes (the interleavings are the subject of \<open>KeyCacheConc\<close>).
  \<^item> A \<^verbatim>\<open>range\<close> over a map visits its keys in an unspecified order: the definitions that range over the
    caches take the order as the argument \<open>orgs\<close>.
  \<^item> \<open>seen\<close> is the abstract value of a cache, the set of keys it holds; the locale \<open>key_seen\<close> is the
    contract of \<^verbatim>\<open>Touch\<close> towards it, and the publisher relies on that contract only.
\<close>

section \<open>Shards\<close>

type_synonym SubKey = "gobyte list"

record Shard =
  sh_data :: "SubKey set"

definition NewShard :: Shard where
  "NewShard = \<lparr>sh_data = {}\<rparr>"

definition Shard_Touch :: "Key \<Rightarrow> Shard \<Rightarrow> bool \<times> Shard" where
  "Shard_Touch key s =
     (let sub = drop 1 key;
          ok = (sub \<in> sh_data s)
      in (ok, s\<lparr>sh_data := insert sub (sh_data s)\<rparr>))"

definition Shard_Len :: "Shard \<Rightarrow> nat" where
  "Shard_Len s = card (sh_data s)"

definition Shard_Reset :: "Shard \<Rightarrow> Shard" where
  "Shard_Reset s = s\<lparr>sh_data := {}\<rparr>"

section \<open>Caches of one organisation\<close>

record Cache =
  ca_shards :: "Shard list"

definition NewCache :: Cache where
  "NewCache = \<lparr>ca_shards = map (\<lambda>i. NewShard) [0..<256]\<rparr>"

definition Cache_Touch :: "Key \<Rightarrow> Cache \<Rightarrow> bool \<times> Cache" where
  "Cache_Touch key c =
     (let shard = unat (key ! 0);
          (ok, s) = Shard_Touch key (ca_shards c ! shard)
      in (ok, c\<lparr>ca_shards := (ca_shards c)[shard := s]\<rparr>))"

definition Cache_Len :: "Cache \<Rightarrow> nat" where
  "Cache_Len c = fold (\<lambda>i sum. sum + Shard_Len (ca_shards c ! i)) [0..<256] 0"

definition Cache_Clear :: "nat \<Rightarrow> Cache \<Rightarrow> Cache \<times> nat" where
  "Cache_Clear i c =
     (let c = c\<lparr>ca_shards := (ca_shards c)[i := Shard_Reset (ca_shards c ! i)]\<rparr>
      in (c, Cache_Len c))"

section \<open>All organisations\<close>

record KeyCache =
  kc_clearIdx :: nat
  kc_clearInterval :: int
  kc_caches :: "uint32 \<rightharpoonup> Cache"

definition NewKeyCache :: "int \<Rightarrow> KeyCache" where
  "NewKeyCache clearInterval =
     \<lparr>kc_clearIdx = 0, kc_clearInterval = clearInterval sdiv 256, kc_caches = Map.empty\<rparr>"

definition KeyCache_Touch :: "KeyCache \<Rightarrow> MKey \<Rightarrow> bool \<times> KeyCache" where
  "KeyCache_Touch k key =
     (let cache = (case kc_caches k (mk_Org key) of None \<Rightarrow> NewCache | Some c \<Rightarrow> c);
          (ok, c) = Cache_Touch (mk_Key key) cache
      in (ok, k\<lparr>kc_caches := (kc_caches k)(mk_Org key \<mapsto> c)\<rparr>))"

fun KeyCache_Len :: "uint32 list \<Rightarrow> KeyCache \<Rightarrow> nat" where
  "KeyCache_Len [] k = 0"
| "KeyCache_Len (org # orgs) k =
     (case kc_caches k org of None \<Rightarrow> 0 | Some c \<Rightarrow> Cache_Len c) + KeyCache_Len orgs k"

text \<open>One tick of the loop in \<^verbatim>\<open>clear\<close>.\<close>

definition clear_target :: "nat \<Rightarrow> uint32 \<Rightarrow> (uint32 \<rightharpoonup> Cache) \<Rightarrow> (uint32 \<rightharpoonup> Cache)" where
  "clear_target idx org m =
     (case m org of
        None \<Rightarrow> m
      | Some c \<Rightarrow>
          let (c', size) = Cache_Clear idx c
          in if size = 0 then m(org := None) else m(org \<mapsto> c'))"

fun clear_targets :: "nat \<Rightarrow> uint32 list \<Rightarrow> (uint32 \<rightharpoonup> Cache) \<Rightarrow> (uint32 \<rightharpoonup> Cache)" where
  "clear_targets idx [] m = m"
| "clear_targets idx (org # orgs) m = clear_targets idx orgs (clear_target idx org m)"

definition KeyCache_tick :: "uint32 list \<Rightarrow> KeyCache \<Rightarrow> KeyCache" where
  "KeyCache_tick orgs k =
     (let caches = clear_targets (kc_clearIdx k) orgs (kc_caches k);
          idx = kc_clearIdx k + 1
      in k\<lparr>kc_caches := caches, kc_clearIdx := (if idx = 256 then 0 else idx)\<rparr>)"

section \<open>Invariant and abstract value\<close>

definition shard_ok :: "Shard \<Rightarrow> bool" where
  "shard_ok s \<longleftrightarrow> finite (sh_data s) \<and> (\<forall>k \<in> sh_data s. length k = 15)"

definition cache_ok :: "Cache \<Rightarrow> bool" where
  "cache_ok c \<longleftrightarrow> length (ca_shards c) = 256 \<and> (\<forall>s \<in> set (ca_shards c). shard_ok s)"

definition kc_inv :: "KeyCache \<Rightarrow> bool" where
  "kc_inv k \<longleftrightarrow> kc_clearIdx k < 256 \<and> (\<forall>c \<in> ran (kc_caches k). cache_ok c)"

definition key_ok :: "MKey \<Rightarrow> bool" where
  "key_ok mk \<longleftrightarrow> length (mk_Key mk) = 16"

text \<open>The shard a key belongs to is its first byte.\<close>

definition shard_of :: "Key \<Rightarrow> nat" where
  "shard_of key = unat (key ! 0)"

definition cache_keys :: "Cache \<Rightarrow> Key set" where
  "cache_keys c = {key. length key = 16 \<and> drop 1 key \<in> sh_data (ca_shards c ! shard_of key)}"

definition org_keys :: "(uint32 \<rightharpoonup> Cache) \<Rightarrow> uint32 \<Rightarrow> Key set" where
  "org_keys m org = (case m org of None \<Rightarrow> {} | Some c \<Rightarrow> cache_keys c)"

definition seen :: "KeyCache \<Rightarrow> MKey set" where
  "seen k = {mk. mk_Key mk \<in> org_keys (kc_caches k) (mk_Org mk)}"

lemma shard_of_less [simp]: "shard_of key < 256"
  by (simp add: shard_of_def)

lemma shard_okI: "cache_ok c \<Longrightarrow> i < 256 \<Longrightarrow> shard_ok (ca_shards c ! i)"
  by (simp add: cache_ok_def)

lemma cache_ok_update:
  "cache_ok c \<Longrightarrow> shard_ok s \<Longrightarrow> cache_ok (c\<lparr>ca_shards := (ca_shards c)[i := s]\<rparr>)"
  by (auto simp: cache_ok_def dest!: set_update_subset_insert [THEN subsetD])

lemma cache_ok_New [simp]: "cache_ok NewCache"
  by (auto simp: cache_ok_def NewCache_def NewShard_def shard_ok_def)

lemma cache_keys_New [simp]: "cache_keys NewCache = {}"
  by (simp add: cache_keys_def NewCache_def NewShard_def)

text \<open>Two keys in one shard that agree on the last 15 bytes are equal.\<close>

lemma key_split:
  assumes "length a = 16" and "length b = 16" and "shard_of a = shard_of b" and "drop 1 a = drop 1 b"
  shows "a = b"
proof -
  have "a ! 0 = b ! 0" using assms(3) unfolding shard_of_def by (rule unsigned_word_eqI)
  with assms show ?thesis by (cases a; cases b) auto
qed

lemma Cache_Touch_spec:
  assumes "cache_ok c" and "length key = 16"
  shows "fst (Cache_Touch key c) = (key \<in> cache_keys c)"
    and "cache_keys (snd (Cache_Touch key c)) = insert key (cache_keys c)"
    and "cache_ok (snd (Cache_Touch key c))"
proof -
  let ?i = "shard_of key"
  have len: "length (ca_shards c) = 256" using assms(1) by (simp add: cache_ok_def)
  show "fst (Cache_Touch key c) = (key \<in> cache_keys c)"
    using assms(2) by (simp add: Cache_Touch_def Shard_Touch_def cache_keys_def shard_of_def Let_def)
  have shards: "sh_data (ca_shards (snd (Cache_Touch key c)) ! j) =
      (if j = ?i then insert (drop 1 key) (sh_data (ca_shards c ! j)) else sh_data (ca_shards c ! j))"
    if "j < 256" for j
    using len that by (auto simp: Cache_Touch_def Shard_Touch_def Let_def shard_of_def [symmetric])
  have "x \<in> cache_keys (snd (Cache_Touch key c)) \<longleftrightarrow> x = key \<or> x \<in> cache_keys c" for x
    using shards [of "shard_of x"] assms(2) key_split [of x key] by (auto simp: cache_keys_def)
  then show "cache_keys (snd (Cache_Touch key c)) = insert key (cache_keys c)"
    by blast
  have "shard_ok (snd (Shard_Touch key (ca_shards c ! ?i)))"
    using shard_okI [OF assms(1), of ?i] assms(2)
    by (auto simp: Shard_Touch_def shard_ok_def Let_def)
  then show "cache_ok (snd (Cache_Touch key c))"
    using cache_ok_update [OF assms(1)]
    by (simp add: Cache_Touch_def Let_def shard_of_def [symmetric] split_beta)
qed

lemma Cache_Clear_spec:
  assumes "cache_ok c" and "i < 256"
  shows "cache_keys (fst (Cache_Clear i c)) = {key \<in> cache_keys c. shard_of key \<noteq> i}"
    and "cache_ok (fst (Cache_Clear i c))"
proof -
  have "length (ca_shards c) = 256" using assms(1) by (simp add: cache_ok_def)
  then have shards: "sh_data (ca_shards (fst (Cache_Clear i c)) ! j) =
      (if j = i then {} else sh_data (ca_shards c ! j))" if "j < 256" for j
    using that by (auto simp: Cache_Clear_def Shard_Reset_def Let_def)
  have "x \<in> cache_keys (fst (Cache_Clear i c)) \<longleftrightarrow> x \<in> cache_keys c \<and> shard_of x \<noteq> i" for x
    using shards [of "shard_of x"] by (auto simp: cache_keys_def)
  then show "cache_keys (fst (Cache_Clear i c)) = {key \<in> cache_keys c. shard_of key \<noteq> i}"
    by blast
  have "shard_ok (Shard_Reset s)" for s by (simp add: shard_ok_def Shard_Reset_def)
  then show "cache_ok (fst (Cache_Clear i c))"
    using cache_ok_update [OF assms(1)] by (simp add: Cache_Clear_def Let_def)
qed

lemma fold_sum_upt: "fold (\<lambda>i sum. sum + f i) [0..<n] (a::nat) = a + (\<Sum>i<n. f i)"
  by (induction n arbitrary: a) auto

lemma Cache_Len_sum: "Cache_Len c = (\<Sum>i<256. card (sh_data (ca_shards c ! i)))"
  unfolding Cache_Len_def fold_sum_upt by (simp add: Shard_Len_def)

lemma bij_key_split:
  "bij_betw (\<lambda>key. (shard_of key, drop 1 key)) {key. length key = 16} ({..<256} \<times> {k. length k = 15})"
  unfolding bij_betw_def
proof (intro conjI inj_onI set_eqI iffI)
  fix a b :: Key
  assume "a \<in> {key. length key = 16}" "b \<in> {key. length key = 16}"
    "(shard_of a, drop 1 a) = (shard_of b, drop 1 b)"
  then show "a = b" by (auto intro: key_split)
next
  fix p :: "nat \<times> SubKey"
  assume "p \<in> {..<256} \<times> {k. length k = 15}"
  then obtain i k where p: "p = (i, k)" "i < 256" "length k = 15" by auto
  then have "unat (word_of_nat i :: gobyte) = i" by (simp add: unsigned_of_nat take_bit_nat_eq_self)
  with p show "p \<in> (\<lambda>key. (shard_of key, drop 1 key)) ` {key. length key = 16}"
    by (intro image_eqI [of _ _ "word_of_nat i # k"]) (auto simp: shard_of_def)
qed (auto simp del: drop_Suc)

lemma Cache_Len_card:
  assumes "cache_ok c"
  shows "finite (cache_keys c)" and "Cache_Len c = card (cache_keys c)"
proof -
  let ?f = "\<lambda>key. (shard_of key, drop 1 key)"
  let ?D = "\<lambda>i. sh_data (ca_shards c ! i)"
  have ok: "finite (?D i) \<and> (\<forall>k \<in> ?D i. length k = 15)" if "i < 256" for i
    using shard_okI [OF assms that] by (simp add: shard_ok_def)
  have "cache_keys c \<subseteq> {key. length key = 16}" by (auto simp: cache_keys_def)
  moreover have "?f ` cache_keys c = (SIGMA i:{..<256}. ?D i)" (is "?L = ?R")
  proof
    show "?L \<subseteq> ?R" by (auto simp: cache_keys_def)
    show "?R \<subseteq> ?L"
    proof
      fix p
      assume p: "p \<in> ?R"
      with ok have "p \<in> {..<256} \<times> {k. length k = 15}" by auto
      then obtain key where key: "length key = 16" "p = ?f key"
        using bij_key_split unfolding bij_betw_def by auto
      with p show "p \<in> ?L" by (auto simp: cache_keys_def)
    qed
  qed
  ultimately have bij: "bij_betw ?f (cache_keys c) (SIGMA i:{..<256}. ?D i)"
    using bij_betw_subset [OF bij_key_split] by blast
  have "finite (SIGMA i:{..<256}. ?D i)" using ok by (intro finite_SigmaI) auto
  then show "finite (cache_keys c)" using bij_betw_finite [OF bij] by simp
  have "card (cache_keys c) = card (SIGMA i:{..<256}. ?D i)" by (rule bij_betw_same_card [OF bij])
  also have "\<dots> = (\<Sum>i<256. card (?D i))" using ok by (intro card_SigmaI) auto
  finally show "Cache_Len c = card (cache_keys c)" by (simp add: Cache_Len_sum)
qed

subsection \<open>Touch and tick on the whole cache\<close>

lemma kc_inv_New [simp]: "kc_inv (NewKeyCache d)"
  by (simp add: kc_inv_def NewKeyCache_def)

lemma seen_New [simp]: "seen (NewKeyCache d) = {}"
  by (simp add: seen_def NewKeyCache_def org_keys_def)

lemma kc_inv_cache: "kc_inv k \<Longrightarrow> kc_caches k org = Some c \<Longrightarrow> cache_ok c"
  by (auto simp: kc_inv_def ran_def)

lemma KeyCache_Touch_spec:
  assumes "kc_inv k" and "key_ok mk"
  shows "fst (KeyCache_Touch k mk) = (mk \<in> seen k)"
    and "seen (snd (KeyCache_Touch k mk)) = insert mk (seen k)"
    and "kc_inv (snd (KeyCache_Touch k mk))"
proof -
  define c where "c = (case kc_caches k (mk_Org mk) of None \<Rightarrow> NewCache | Some c \<Rightarrow> c)"
  have ok: "cache_ok c"
    using kc_inv_cache [OF assms(1)] by (auto simp: c_def split: option.splits)
  have len: "length (mk_Key mk) = 16" using assms(2) by (simp add: key_ok_def)
  note touch = Cache_Touch_spec [OF ok len]
  have result: "KeyCache_Touch k mk = (fst (Cache_Touch (mk_Key mk) c),
      k\<lparr>kc_caches := (kc_caches k)(mk_Org mk \<mapsto> snd (Cache_Touch (mk_Key mk) c))\<rparr>)"
    by (simp add: KeyCache_Touch_def c_def Let_def split_beta)
  have keys: "org_keys (kc_caches k) (mk_Org mk) = cache_keys c"
    by (auto simp: c_def org_keys_def split: option.splits)
  show "fst (KeyCache_Touch k mk) = (mk \<in> seen k)"
    using touch(1) keys by (simp add: result seen_def)
  have upd: "org_keys (kc_caches (snd (KeyCache_Touch k mk))) org =
      (if org = mk_Org mk then insert (mk_Key mk) (org_keys (kc_caches k) org)
       else org_keys (kc_caches k) org)" for org
    using touch(2) keys by (simp add: result org_keys_def)
  have "x \<in> seen (snd (KeyCache_Touch k mk)) \<longleftrightarrow> x = mk \<or> x \<in> seen k" for x
    by (auto simp: seen_def upd intro: MKey.equality)
  then show "seen (snd (KeyCache_Touch k mk)) = insert mk (seen k)" by blast
  show "kc_inv (snd (KeyCache_Touch k mk))"
    using assms(1) touch(3) by (auto simp: result kc_inv_def ran_def)
qed

lemma clear_target_eq:
  assumes "m x = Some c" and "cache_ok c" and "i < 256"
  shows "clear_target i x m =
    m(x := if cache_keys (fst (Cache_Clear i c)) = {} then None else Some (fst (Cache_Clear i c)))"
proof -
  note clear = Cache_Clear_spec [OF assms(2,3)]
  have "snd (Cache_Clear i c) = card (cache_keys (fst (Cache_Clear i c)))"
    using Cache_Len_card(2) [OF clear(2)] by (simp add: Cache_Clear_def Let_def)
  then have "snd (Cache_Clear i c) = 0 \<longleftrightarrow> cache_keys (fst (Cache_Clear i c)) = {}"
    using Cache_Len_card(1) [OF clear(2)] by simp
  then show ?thesis using assms(1) by (simp add: clear_target_def split_beta)
qed

lemma clear_target_spec:
  assumes "\<forall>c \<in> ran m. cache_ok c" and "i < 256"
  shows "\<forall>c \<in> ran (clear_target i x m). cache_ok c"
    and "org_keys (clear_target i x m) org =
      (if org = x then {key \<in> org_keys m org. shard_of key \<noteq> i} else org_keys m org)"
    and "clear_target i x m x \<noteq> None \<Longrightarrow> org_keys (clear_target i x m) x \<noteq> {}"
    and "org \<noteq> x \<Longrightarrow> clear_target i x m org = m org"
proof -
  have eq: "clear_target i x m = (case m x of None \<Rightarrow> m | Some c \<Rightarrow>
      m(x := if cache_keys (fst (Cache_Clear i c)) = {} then None else Some (fst (Cache_Clear i c))))"
  proof (cases "m x")
    case None
    then show ?thesis by (simp add: clear_target_def)
  next
    case (Some c)
    then have "cache_ok c" using assms(1) by (auto simp: ran_def)
    from clear_target_eq [of m x c, OF Some this assms(2)] Some show ?thesis by simp
  qed
  have ok: "m x = Some c \<Longrightarrow> cache_ok c" for c
    using assms(1) by (auto simp: ran_def)
  note clear = Cache_Clear_spec [OF ok assms(2)]
  show "\<forall>c \<in> ran (clear_target i x m). cache_ok c"
    unfolding eq using assms(1) clear(2) by (cases "m x") (auto simp: ran_def)
  show "org_keys (clear_target i x m) org =
      (if org = x then {key \<in> org_keys m org. shard_of key \<noteq> i} else org_keys m org)"
    unfolding eq using clear(1) by (cases "m x") (auto simp: org_keys_def)
  show "clear_target i x m x \<noteq> None \<Longrightarrow> org_keys (clear_target i x m) x \<noteq> {}"
    unfolding eq by (cases "m x") (auto simp: org_keys_def)
  show "org \<noteq> x \<Longrightarrow> clear_target i x m org = m org"
    unfolding eq by (cases "m x") auto
qed

lemma clear_targets_ok:
  "\<forall>c \<in> ran m. cache_ok c \<Longrightarrow> i < 256 \<Longrightarrow> \<forall>c \<in> ran (clear_targets i orgs m). cache_ok c"
proof (induction orgs arbitrary: m)
  case (Cons x orgs)
  show ?case using Cons.IH [OF clear_target_spec(1) [OF Cons.prems] Cons.prems(2)] by simp
qed simp

lemma clear_targets_other:
  "\<forall>c \<in> ran m. cache_ok c \<Longrightarrow> i < 256 \<Longrightarrow> org \<notin> set orgs \<Longrightarrow> clear_targets i orgs m org = m org"
proof (induction orgs arbitrary: m)
  case (Cons x orgs)
  show ?case
    using Cons.IH [OF clear_target_spec(1) [OF Cons.prems(1,2)]] Cons.prems
    by (simp add: clear_target_spec(4))
qed simp

lemma clear_targets_keys:
  "\<forall>c \<in> ran m. cache_ok c \<Longrightarrow> i < 256 \<Longrightarrow> org_keys (clear_targets i orgs m) org =
     (if org \<in> set orgs then {key \<in> org_keys m org. shard_of key \<noteq> i} else org_keys m org)"
proof (induction orgs arbitrary: m)
  case (Cons x orgs)
  then show ?case
    using Cons.IH [OF clear_target_spec(1) [OF Cons.prems]]
    by (auto simp: clear_target_spec(2) [OF Cons.prems])
qed simp

lemma clear_targets_nonempty:
  "\<forall>c \<in> ran m. cache_ok c \<Longrightarrow> i < 256 \<Longrightarrow> org \<in> set orgs \<Longrightarrow> clear_targets i orgs m org \<noteq> None \<Longrightarrow>
   org_keys (clear_targets i orgs m) org \<noteq> {}"
proof (induction orgs arbitrary: m)
  case (Cons x orgs)
  note ok = clear_target_spec(1) [OF Cons.prems(1,2)]
  show ?case
  proof (cases "org \<in> set orgs")
    case True
    with Cons ok show ?thesis by simp
  next
    case False
    with Cons.prems have "org = x" by simp
    with False Cons.prems clear_targets_other [OF ok Cons.prems(2)]
    show ?thesis using clear_target_spec(3) [OF Cons.prems(1,2), of x] by (simp add: org_keys_def)
  qed
qed simp

lemma KeyCache_tick_spec:
  assumes "kc_inv k" and "map_order orgs (kc_caches k)"
  shows "kc_inv (KeyCache_tick orgs k)"
    and "seen (KeyCache_tick orgs k) = {mk \<in> seen k. shard_of (mk_Key mk) \<noteq> kc_clearIdx k}"
    and "dom (kc_caches (KeyCache_tick orgs k)) = mk_Org ` seen (KeyCache_tick orgs k)"
    and "kc_clearIdx (KeyCache_tick orgs k) = (kc_clearIdx k + 1) mod 256"
proof -
  have idx: "kc_clearIdx k < 256" and ok: "\<forall>c \<in> ran (kc_caches k). cache_ok c"
    and dom: "set orgs = dom (kc_caches k)"
    using assms by (simp_all add: kc_inv_def map_order_def)
  note clear = clear_targets_ok [OF ok idx] clear_targets_keys [OF ok idx]
    clear_targets_nonempty [OF ok idx] clear_targets_other [OF ok idx]
  let ?m = "clear_targets (kc_clearIdx k) orgs (kc_caches k)"
  have caches: "kc_caches (KeyCache_tick orgs k) = ?m"
    by (simp add: KeyCache_tick_def Let_def)
  show "kc_clearIdx (KeyCache_tick orgs k) = (kc_clearIdx k + 1) mod 256"
    using idx by (auto simp: KeyCache_tick_def Let_def)
  then show "kc_inv (KeyCache_tick orgs k)"
    using clear(1) [of orgs] by (simp add: kc_inv_def caches)
  have keys: "org_keys ?m org = {key \<in> org_keys (kc_caches k) org. shard_of key \<noteq> kc_clearIdx k}" for org
    using clear(2) [of orgs org] dom by (auto simp: org_keys_def split: option.splits)
  then show "seen (KeyCache_tick orgs k) = {mk \<in> seen k. shard_of (mk_Key mk) \<noteq> kc_clearIdx k}"
    by (auto simp: seen_def caches)
  show "dom (kc_caches (KeyCache_tick orgs k)) = mk_Org ` seen (KeyCache_tick orgs k)"
  proof (intro set_eqI iffI)
    fix org
    assume "org \<in> dom (kc_caches (KeyCache_tick orgs k))"
    then have "?m org \<noteq> None" by (simp add: caches domIff)
    moreover have "org \<in> set orgs"
      using calculation clear(4) [of org orgs] dom by (metis domIff)
    ultimately obtain key where "key \<in> org_keys ?m org" using clear(3) [of org orgs] by blast
    then have "\<lparr>mk_Key = key, mk_Org = org\<rparr> \<in> seen (KeyCache_tick orgs k)"
      by (simp add: seen_def caches)
    then show "org \<in> mk_Org ` seen (KeyCache_tick orgs k)" by force
  next
    fix org
    assume "org \<in> mk_Org ` seen (KeyCache_tick orgs k)"
    then show "org \<in> dom (kc_caches (KeyCache_tick orgs k))"
      by (auto simp: seen_def org_keys_def split: option.splits)
  qed
qed

lemma KeyCache_Len_card:
  assumes "kc_inv k" and "map_order orgs (kc_caches k)"
  shows "KeyCache_Len orgs k = card (seen k)"
proof -
  have fin: "finite (org_keys (kc_caches k) org)" for org
    using kc_inv_cache [OF assms(1)] Cache_Len_card(1) by (auto simp: org_keys_def split: option.splits)
  have "distinct os \<Longrightarrow> KeyCache_Len os k = card {mk. mk_Org mk \<in> set os \<and> mk \<in> seen k} \<and>
      finite {mk. mk_Org mk \<in> set os \<and> mk \<in> seen k}" for os
  proof (induction os)
    case Nil
    then show ?case by simp
  next
    case (Cons org os)
    let ?A = "{mk. mk_Org mk = org \<and> mk \<in> seen k}"
    let ?B = "{mk. mk_Org mk \<in> set os \<and> mk \<in> seen k}"
    have img: "?A = (\<lambda>key. \<lparr>mk_Key = key, mk_Org = org\<rparr>) ` org_keys (kc_caches k) org"
      by (force simp: seen_def intro: MKey.equality)
    have inj: "inj_on (\<lambda>key. \<lparr>mk_Key = key, mk_Org = org\<rparr>) X" for X
      by (rule inj_onI) simp
    have A: "finite ?A \<and> card ?A = card (org_keys (kc_caches k) org)"
      unfolding img using fin by (simp add: card_image [OF inj])
    have "(case kc_caches k org of None \<Rightarrow> 0 | Some c \<Rightarrow> Cache_Len c) = card (org_keys (kc_caches k) org)"
      using kc_inv_cache [OF assms(1), of org] Cache_Len_card(2) by (auto simp: org_keys_def split: option.splits)
    moreover have "{mk. mk_Org mk \<in> set (org # os) \<and> mk \<in> seen k} = ?A \<union> ?B" by auto
    moreover have "?A \<inter> ?B = {}" using Cons.prems by auto
    ultimately show ?case using Cons A by (simp add: card_Un_disjoint)
  qed
  moreover have "{mk. mk_Org mk \<in> set orgs \<and> mk \<in> seen k} = seen k"
    using assms(2) by (auto simp: map_order_def seen_def org_keys_def split: option.splits)
  ultimately show ?thesis using assms(2) by (simp add: map_order_def)
qed

section \<open>The contract of Touch\<close>

text \<open>What a caller of \<^verbatim>\<open>Touch\<close> relies on: the answer is membership, the effect is insertion.\<close>

locale key_seen =
  fixes touch :: "'s \<Rightarrow> 'k \<Rightarrow> bool \<times> 's"
    and contents :: "'s \<Rightarrow> 'k set"
    and inv :: "'s \<Rightarrow> bool"
    and ok :: "'k \<Rightarrow> bool"
  assumes touch_answer: "inv s \<Longrightarrow> ok k \<Longrightarrow> fst (touch s k) = (k \<in> contents s)"
    and touch_effect: "inv s \<Longrightarrow> ok k \<Longrightarrow> contents (snd (touch s k)) = insert k (contents s)"
    and touch_inv: "inv s \<Longrightarrow> ok k \<Longrightarrow> inv (snd (touch s k))"
begin

lemma touch_again:
  assumes "inv s" and "ok k"
  shows "fst (touch (snd (touch s k)) k)"
  using assms by (simp add: touch_answer touch_effect touch_inv)

lemma touch_other:
  assumes "inv s" and "ok k" and "ok j" and "j \<noteq> k"
  shows "fst (touch (snd (touch s k)) j) = fst (touch s j)"
  using assms by (simp add: touch_answer touch_effect touch_inv)

lemma touch_fold:
  assumes "inv s" and "\<forall>k \<in> set ks. ok k"
  shows "inv (fold (\<lambda>k s. snd (touch s k)) ks s) \<and>
    contents (fold (\<lambda>k s. snd (touch s k)) ks s) = contents s \<union> set ks"
  using assms by (induction ks arbitrary: s) (auto simp: touch_effect touch_inv)

end

interpretation kc: key_seen KeyCache_Touch seen kc_inv key_ok
  by unfold_locales (simp_all add: KeyCache_Touch_spec)

section \<open>Runs: touches and ticks in any order\<close>

datatype kc_event = EvTouch MKey bool | EvTick

inductive kc_step :: "KeyCache \<Rightarrow> kc_event \<Rightarrow> KeyCache \<Rightarrow> bool" where
  touch: "key_ok mk \<Longrightarrow> kc_step k (EvTouch mk (fst (KeyCache_Touch k mk))) (snd (KeyCache_Touch k mk))"
| tick: "map_order orgs (kc_caches k) \<Longrightarrow> kc_step k EvTick (KeyCache_tick orgs k)"

inductive kc_trace :: "KeyCache \<Rightarrow> kc_event list \<Rightarrow> KeyCache \<Rightarrow> bool" where
  nil: "kc_trace k [] k"
| cons: "kc_step k e k' \<Longrightarrow> kc_trace k' es k'' \<Longrightarrow> kc_trace k (e # es) k''"

inductive_cases kc_step_touchE [elim!]: "kc_step k (EvTouch mk b) k'"
inductive_cases kc_step_tickE [elim!]: "kc_step k EvTick k'"
inductive_simps kc_trace_Nil [simp]: "kc_trace k [] k'"
inductive_simps kc_trace_Cons [simp]: "kc_trace k (e # es) k'"

lemma kc_step_inv: "kc_step k e k' \<Longrightarrow> kc_inv k \<Longrightarrow> kc_inv k'"
  by (induction rule: kc_step.induct) (simp_all add: KeyCache_Touch_spec KeyCache_tick_spec)

interpretation kc_runs: event_system kc_step kc_trace
proof
  show "kc_trace k (es @ [e]) k'' \<longleftrightarrow> (\<exists>k'. kc_trace k es k' \<and> kc_step k' e k'')" for k es e k''
    by (induction es arbitrary: k) auto
qed auto

lemma kc_trace_inv: "kc_trace k es k' \<Longrightarrow> kc_inv k \<Longrightarrow> kc_inv k'"
  by (erule kc_runs.trace_inv) (auto intro: kc_step_inv)

lemmas kc_trace_append = kc_runs.trace_append

text \<open>A key enters the cache only through a touch that answers no.\<close>

lemma kc_trace_enters:
  "kc_trace k es k' \<Longrightarrow> kc_inv k \<Longrightarrow> mk \<notin> seen k \<Longrightarrow> mk \<in> seen k' \<Longrightarrow> EvTouch mk False \<in> set es"
proof (induction rule: kc_trace.induct)
  case (cons k e k' es k'')
  show ?case
  proof (cases "mk \<in> seen k'")
    case True
    from cons.hyps(1) have "e = EvTouch mk False"
      using cons.prems(1,2) True
      by (cases rule: kc_step.cases) (auto simp: KeyCache_Touch_spec KeyCache_tick_spec)
    then show ?thesis by simp
  next
    case False
    then have "EvTouch mk False \<in> set es"
      using cons.IH cons.prems kc_step_inv [OF cons.hyps(1)] by blast
    then show ?thesis by simp
  qed
qed simp

text \<open>The number of ticks until the shard of a key is wiped.\<close>

definition ticks_left :: "KeyCache \<Rightarrow> Key \<Rightarrow> nat" where
  "ticks_left k key = (shard_of key + 256 - kc_clearIdx k) mod 256"

lemma ticks_left_less [simp]: "ticks_left k key < 256"
  by (simp add: ticks_left_def)

lemma ticks_left_tick:
  assumes "kc_clearIdx k < 256" and "shard_of key \<noteq> kc_clearIdx k"
    and "kc_clearIdx k' = (kc_clearIdx k + 1) mod 256"
  shows "ticks_left k key = Suc (ticks_left k' key)"
proof -
  have s: "shard_of key < 256" by simp
  show ?thesis
  proof (cases "kc_clearIdx k = 255")
    case True
    with assms(2) s have "Suc (shard_of key) < 256" by linarith
    with True assms(3) show ?thesis by (simp add: ticks_left_def)
  next
    case False
    with assms have k': "kc_clearIdx k' = Suc (kc_clearIdx k)" by simp
    show ?thesis
    proof (cases "kc_clearIdx k < shard_of key")
      case True
      then have "shard_of key + 256 - kc_clearIdx k = 256 + (shard_of key - kc_clearIdx k)"
        "shard_of key + 256 - Suc (kc_clearIdx k) = 256 + (shard_of key - Suc (kc_clearIdx k))"
        by linarith+
      moreover have "(shard_of key - kc_clearIdx k) mod 256 = shard_of key - kc_clearIdx k"
        "(shard_of key - Suc (kc_clearIdx k)) mod 256 = shard_of key - Suc (kc_clearIdx k)"
        using s by (auto intro!: mod_less simp del: shard_of_less)
      ultimately show ?thesis
        unfolding ticks_left_def k' using True by (simp only: mod_add_self1) simp
    next
      case False
      with assms(2) have "shard_of key + 256 - kc_clearIdx k < 256" by linarith
      then show ?thesis unfolding ticks_left_def k' using assms(1) by simp
    qed
  qed
qed

lemma kc_trace_wipes:
  "kc_trace k es k' \<Longrightarrow> kc_inv k \<Longrightarrow> ticks_left k (mk_Key mk) < length (filter (\<lambda>e. e = EvTick) es) \<Longrightarrow>
   \<exists>es1 es2 m. es = es1 @ es2 \<and> kc_trace k es1 m \<and> kc_trace m es2 k' \<and> mk \<notin> seen m"
proof (induction rule: kc_trace.induct)
  case (cons k e k' es k'')
  have inv': "kc_inv k'" using kc_step_inv cons.hyps(1) cons.prems(1) .
  have idx: "kc_clearIdx k < 256" using cons.prems(1) by (simp add: kc_inv_def)
  show ?case
  proof (cases "e = EvTick \<and> shard_of (mk_Key mk) = kc_clearIdx k")
    case True
    then have "mk \<notin> seen k'"
      using cons.hyps(1) cons.prems(1) by (auto simp: KeyCache_tick_spec)
    then show ?thesis
      using cons.hyps by (intro exI [of _ "[e]"] exI [of _ es] exI [of _ k']) simp
  next
    case False
    have "ticks_left k' (mk_Key mk) < length (filter (\<lambda>e. e = EvTick) es)"
    proof (cases "e = EvTick")
      case True
      with False cons.hyps(1) cons.prems(1) have "ticks_left k (mk_Key mk) = Suc (ticks_left k' (mk_Key mk))"
        by (auto intro!: ticks_left_tick idx simp: KeyCache_tick_spec)
      with True cons.prems(2) show ?thesis by simp
    next
      case False
      with cons.hyps(1) have "ticks_left k' (mk_Key mk) = ticks_left k (mk_Key mk)"
        by (cases e) (auto simp: ticks_left_def KeyCache_Touch_def Let_def split_beta)
      with False cons.prems(2) show ?thesis by simp
    qed
    then obtain es1 es2 m where "es = es1 @ es2" "kc_trace k' es1 m" "kc_trace m es2 k''" "mk \<notin> seen m"
      using cons.IH inv' by blast
    then show ?thesis
      using cons.hyps(1) by (intro exI [of _ "e # es1"] exI [of _ es2] exI [of _ m]) auto
  qed
qed simp

section \<open>Properties\<close>

text \<open>
  C20. \<^verbatim>\<open>KeyCache.Touch\<close> refines insertion into a set of keys: it answers whether the key was there, adds
  it and nothing else, and keeps the cache well formed.
\<close>

theorem touch_refines_set:
  assumes "kc_inv k" and "key_ok mk"
  shows "fst (KeyCache_Touch k mk) = (mk \<in> seen k) \<and>
    seen (snd (KeyCache_Touch k mk)) = insert mk (seen k) \<and> kc_inv (snd (KeyCache_Touch k mk))"
  using kc.touch_answer kc.touch_effect kc.touch_inv assms by blast

definition sample_key :: MKey where
  "sample_key = \<lparr>mk_Key = replicate 16 9, mk_Org = 4\<rparr>"

lemma mk_Org_sample [simp]: "mk_Org sample_key = 4"
  by (simp add: sample_key_def)

lemma key_ok_sample [simp]: "key_ok sample_key"
  by (simp add: key_ok_def sample_key_def)

theorem touch_refines_set_witness:
  "\<not> fst (KeyCache_Touch (NewKeyCache 256) sample_key) \<and>
    seen (snd (KeyCache_Touch (NewKeyCache 256) sample_key)) = {sample_key} \<and>
    kc_inv (snd (KeyCache_Touch (NewKeyCache 256) sample_key))"
  using touch_refines_set [of "NewKeyCache 256" sample_key] by simp

text \<open>
  One tick of the clearing loop removes exactly the keys of the shard at the clearing index, in
  every organisation and in whatever order the map is visited; afterwards the map has a cache exactly
  for the organisations that still have a key, and the index has moved on by one, modulo 256.
\<close>

theorem tick_expires_one_shard:
  assumes "kc_inv k" and "map_order orgs (kc_caches k)"
  shows "seen (KeyCache_tick orgs k) = {mk \<in> seen k. shard_of (mk_Key mk) \<noteq> kc_clearIdx k} \<and>
    dom (kc_caches (KeyCache_tick orgs k)) = mk_Org ` seen (KeyCache_tick orgs k) \<and>
    kc_clearIdx (KeyCache_tick orgs k) = (kc_clearIdx k + 1) mod 256 \<and>
    kc_inv (KeyCache_tick orgs k)"
  using KeyCache_tick_spec [OF assms] by simp

lemma map_order_Touch_New:
  "map_order [mk_Org mk] (kc_caches (snd (KeyCache_Touch (NewKeyCache d) mk)))"
  by (simp add: map_order_def KeyCache_Touch_def NewKeyCache_def Let_def split_beta)

theorem tick_expires_one_shard_witness:
  "seen (KeyCache_tick [4] (snd (KeyCache_Touch (NewKeyCache 256) sample_key))) = {sample_key}"
proof -
  let ?k = "snd (KeyCache_Touch (NewKeyCache 256) sample_key)"
  have idx: "kc_clearIdx ?k = 0"
    by (simp add: KeyCache_Touch_def NewKeyCache_def Let_def split_beta)
  have shard: "shard_of (mk_Key sample_key) = 9" by (simp add: shard_of_def sample_key_def)
  have "map_order [4] (kc_caches ?k)"
    using map_order_Touch_New [of sample_key 256] by (simp only: mk_Org_sample)
  moreover have inv: "kc_inv ?k" "seen ?k = {sample_key}" by (simp_all add: KeyCache_Touch_spec)
  ultimately have "seen (KeyCache_tick [4] ?k) = {mk \<in> {sample_key}. shard_of (mk_Key mk) \<noteq> 0}"
    using tick_expires_one_shard [of ?k "[4]"] unfolding idx inv(2) by blast
  also have "\<dots> = {sample_key}"
  proof (intro set_eqI iffI)
    fix mk
    assume "mk \<in> {sample_key}"
    then show "mk \<in> {mk \<in> {sample_key}. shard_of (mk_Key mk) \<noteq> 0}" using shard by simp
  qed simp
  finally show ?thesis .
qed

text \<open>
  \<^verbatim>\<open>KeyCache.Len\<close> is the number of keys in the cache, whatever order it visits the map in.
\<close>

theorem len_counts_keys:
  assumes "kc_inv k" and "map_order orgs (kc_caches k)"
  shows "KeyCache_Len orgs k = card (seen k)"
  by (rule KeyCache_Len_card [OF assms])

theorem len_counts_keys_witness:
  "KeyCache_Len [4] (snd (KeyCache_Touch (NewKeyCache 256) sample_key)) = 1"
proof -
  let ?k = "snd (KeyCache_Touch (NewKeyCache 256) sample_key)"
  have "map_order [4] (kc_caches ?k)"
    using map_order_Touch_New [of sample_key 256] by (simp only: mk_Org_sample)
  then show ?thesis using len_counts_keys [of ?k "[4]"] by (simp add: KeyCache_Touch_spec)
qed

text \<open>
  C17. A key is announced again within one turn of the clearing loop: in every run of touches and ticks,
  when a touch of a key answers yes after 256 or more ticks, some touch of the same key in that run
  answered no. So a full \<^verbatim>\<open>MetricData\<close> goes out at least once in every clearing interval in which the
  metric is seen.
\<close>

theorem key_reannounced_every_turn:
  assumes "kc_inv k" and "kc_trace k (es @ [EvTouch mk True]) k'"
    and "256 \<le> length (filter (\<lambda>e. e = EvTick) es)"
  shows "EvTouch mk False \<in> set es"
proof -
  obtain m where run: "kc_trace k es m" and last: "kc_step m (EvTouch mk True) k'"
    using assms(2) unfolding kc_trace_append kc_trace_Cons kc_trace_Nil by metis
  have "ticks_left k (mk_Key mk) < length (filter (\<lambda>e. e = EvTick) es)"
    by (rule less_le_trans [OF ticks_left_less assms(3)])
  then obtain es1 es2 j where es: "es = es1 @ es2" and j: "kc_trace k es1 j" "kc_trace j es2 m" "mk \<notin> seen j"
    using kc_trace_wipes [OF run assms(1)] by blast
  have "kc_inv m" using kc_trace_inv [OF run assms(1)] .
  then have "mk \<in> seen m" using last by (auto simp: KeyCache_Touch_spec)
  then have "EvTouch mk False \<in> set es2"
    using kc_trace_enters [OF j(2) kc_trace_inv [OF j(1) assms(1)] j(3)] by simp
  then show ?thesis by (simp add: es)
qed

lemma kc_trace_idle_ticks:
  "kc_inv k \<Longrightarrow> kc_caches k = Map.empty \<Longrightarrow>
   \<exists>k'. kc_trace k (replicate n EvTick) k' \<and> kc_inv k' \<and> seen k' = {}"
proof (induction n arbitrary: k)
  case 0
  then show ?case by (auto simp: seen_def org_keys_def)
next
  case (Suc n)
  have "kc_step k EvTick (KeyCache_tick [] k)" by (rule kc_step.tick) (simp add: Suc.prems(2))
  moreover have "kc_caches (KeyCache_tick [] k) = Map.empty"
    using Suc.prems(2) by (simp add: KeyCache_tick_def Let_def)
  ultimately show ?case
    using Suc.IH [of "KeyCache_tick [] k"] kc_step_inv Suc.prems(1)
    unfolding replicate_Suc kc_trace_Cons by metis
qed

theorem key_reannounced_every_turn_witness:
  "\<exists>k'. kc_trace (NewKeyCache 256)
      ((replicate 256 EvTick @ [EvTouch sample_key False]) @ [EvTouch sample_key True]) k' \<and>
    EvTouch sample_key False \<in> set (replicate 256 EvTick @ [EvTouch sample_key False])"
proof -
  have "kc_caches (NewKeyCache 256) = Map.empty" by (simp add: NewKeyCache_def)
  then obtain k1 where k1: "kc_trace (NewKeyCache 256) (replicate 256 EvTick) k1" "kc_inv k1" "seen k1 = {}"
    using kc_trace_idle_ticks [of "NewKeyCache 256" 256] by auto
  define k2 k3 where "k2 = snd (KeyCache_Touch k1 sample_key)" and "k3 = snd (KeyCache_Touch k2 sample_key)"
  have "kc_step k1 (EvTouch sample_key False) k2"
    using kc_step.touch [of sample_key k1] k1 by (simp add: k2_def KeyCache_Touch_spec)
  moreover have "kc_step k2 (EvTouch sample_key True) k3"
    using kc_step.touch [of sample_key k2] k1 by (simp add: k2_def k3_def KeyCache_Touch_spec)
  ultimately have run: "kc_trace (NewKeyCache 256)
      ((replicate 256 EvTick @ [EvTouch sample_key False]) @ [EvTouch sample_key True]) k3"
    using k1(1) unfolding kc_trace_append kc_trace_Cons kc_trace_Nil by metis
  have "EvTouch sample_key False \<in> set (replicate 256 EvTick @ [EvTouch sample_key False])"
    by (rule key_reannounced_every_turn [OF kc_inv_New run]) simp
  with run show ?thesis by blast
qed

end
