(* ===== verification/KeyCacheConc.thy ===== *)
theory KeyCacheConc
  imports KeyCache
begin

text \<open>
  The interleavings of \<^verbatim>\<open>KeyCache.Touch\<close> calls with each other and with the background loop
  \<^verbatim>\<open>KeyCache.clear\<close>. The caches live in an explicit store, because \<^verbatim>\<open>Touch\<close> and \<^verbatim>\<open>clear\<close> hold pointers to
  a \<^verbatim>\<open>*Cache\<close> outside the lock of the map: a cache can be deleted from the map while a \<^verbatim>\<open>Touch\<close> still
  marks a key in it. Every rule of \<open>conc_step\<close> is one region under one lock: the two lookups of \<^verbatim>\<open>Touch\<close>,
  the marking in a shard, the snapshot of the map, the reset of a shard, the length of one shard and
  the deletion. \<open>marked\<close> is a history variable: the keys whose marking step has run.
\<close>

section \<open>States\<close>

datatype touch_pc =
  TIdle | TLookup MKey | TInsert MKey | TMark MKey nat | TDone MKey bool

datatype clear_pc =
  CWait
  | CReset "(uint32 \<times> nat) list"
  | CLen uint32 nat "(uint32 \<times> nat) list" nat nat
  | CDelete uint32 "(uint32 \<times> nat) list"

record conc =
  caches_of :: "uint32 \<rightharpoonup> nat"
  store :: "nat \<Rightarrow> Cache"
  owner :: "nat \<Rightarrow> uint32"
  next_ptr :: nat
  clear_idx :: nat
  tpc :: "nat \<Rightarrow> touch_pc"
  cpc :: clear_pc
  marked :: "MKey set"

definition init_conc :: conc where
  "init_conc =
     \<lparr>caches_of = Map.empty, store = (\<lambda>_. NewCache), owner = (\<lambda>_. 0), next_ptr = 0, clear_idx = 0,
      tpc = (\<lambda>_. TIdle), cpc = CWait, marked = {}\<rparr>"

definition snapshot :: "(uint32 \<rightharpoonup> nat) \<Rightarrow> (uint32 \<times> nat) list \<Rightarrow> bool" where
  "snapshot m ts \<longleftrightarrow> distinct (map fst ts) \<and> set ts = {(org, p). m org = Some p}"

section \<open>Steps\<close>

inductive conc_step :: "conc \<Rightarrow> conc \<Rightarrow> bool" where
  call: "tpc s t = TIdle \<Longrightarrow> key_ok mk \<Longrightarrow> conc_step s (s\<lparr>tpc := (tpc s)(t := TLookup mk)\<rparr>)"
| lookup_hit: "tpc s t = TLookup mk \<Longrightarrow> caches_of s (mk_Org mk) = Some p \<Longrightarrow>
    conc_step s (s\<lparr>tpc := (tpc s)(t := TMark mk p)\<rparr>)"
| lookup_miss: "tpc s t = TLookup mk \<Longrightarrow> caches_of s (mk_Org mk) = None \<Longrightarrow>
    conc_step s (s\<lparr>tpc := (tpc s)(t := TInsert mk)\<rparr>)"
| insert_hit: "tpc s t = TInsert mk \<Longrightarrow> caches_of s (mk_Org mk) = Some p \<Longrightarrow>
    conc_step s (s\<lparr>tpc := (tpc s)(t := TMark mk p)\<rparr>)"
| insert_new: "tpc s t = TInsert mk \<Longrightarrow> caches_of s (mk_Org mk) = None \<Longrightarrow>
    conc_step s (s\<lparr>caches_of := (caches_of s)(mk_Org mk \<mapsto> next_ptr s),
                   store := (store s)(next_ptr s := NewCache),
                   owner := (owner s)(next_ptr s := mk_Org mk),
                   next_ptr := Suc (next_ptr s),
                   tpc := (tpc s)(t := TMark mk (next_ptr s))\<rparr>)"
| mark: "tpc s t = TMark mk p \<Longrightarrow> Cache_Touch (mk_Key mk) (store s p) = (ok, c) \<Longrightarrow>
    conc_step s (s\<lparr>store := (store s)(p := c), marked := insert mk (marked s),
                   tpc := (tpc s)(t := TDone mk ok)\<rparr>)"
| return: "tpc s t = TDone mk ok \<Longrightarrow> conc_step s (s\<lparr>tpc := (tpc s)(t := TIdle)\<rparr>)"
| tick: "cpc s = CWait \<Longrightarrow> snapshot (caches_of s) ts \<Longrightarrow> conc_step s (s\<lparr>cpc := CReset ts\<rparr>)"
| reset: "cpc s = CReset ((org, p) # ts) \<Longrightarrow>
    conc_step s
      (s\<lparr>store := (store s)(p := (store s p)\<lparr>ca_shards := (ca_shards (store s p))
           [clear_idx s := Shard_Reset (ca_shards (store s p) ! clear_idx s)]\<rparr>),
         cpc := CLen org p ts 0 0\<rparr>)"
| len: "cpc s = CLen org p ts i tot \<Longrightarrow> i < 256 \<Longrightarrow>
    conc_step s (s\<lparr>cpc := CLen org p ts (Suc i) (tot + Shard_Len (ca_shards (store s p) ! i))\<rparr>)"
| len_done: "cpc s = CLen org p ts 256 tot \<Longrightarrow>
    conc_step s (s\<lparr>cpc := (if tot = 0 then CDelete org ts else CReset ts)\<rparr>)"
| delete: "cpc s = CDelete org ts \<Longrightarrow>
    conc_step s (s\<lparr>caches_of := (caches_of s)(org := None), cpc := CReset ts\<rparr>)"
| tick_done: "cpc s = CReset [] \<Longrightarrow>
    conc_step s (s\<lparr>clear_idx := (if clear_idx s + 1 = 256 then 0 else clear_idx s + 1), cpc := CWait\<rparr>)"

inductive conc_reach :: "conc \<Rightarrow> bool" where
  init: "conc_reach init_conc"
| step: "conc_reach s \<Longrightarrow> conc_step s s' \<Longrightarrow> conc_reach s'"

section \<open>Invariant\<close>

text \<open>
  Every cache ever allocated is well formed and belongs to the organisation it was allocated for;
  every pointer in the map or in a thread is to a cache of the right organisation; every key of a
  cache was marked.
\<close>

definition pc_ok :: "conc \<Rightarrow> touch_pc \<Rightarrow> bool" where
  "pc_ok s pc =
     (case pc of
        TIdle \<Rightarrow> True
      | TLookup mk \<Rightarrow> key_ok mk
      | TInsert mk \<Rightarrow> key_ok mk
      | TMark mk p \<Rightarrow> key_ok mk \<and> p < next_ptr s \<and> owner s p = mk_Org mk
      | TDone mk ok \<Rightarrow> mk \<in> marked s)"

definition conc_inv :: "conc \<Rightarrow> bool" where
  "conc_inv s \<longleftrightarrow>
     clear_idx s < 256 \<and>
     (\<forall>p. cache_ok (store s p)) \<and>
     (\<forall>org p. caches_of s org = Some p \<longrightarrow> p < next_ptr s \<and> owner s p = org) \<and>
     (\<forall>p key. key \<in> cache_keys (store s p) \<longrightarrow> \<lparr>mk_Key = key, mk_Org = owner s p\<rparr> \<in> marked s) \<and>
     (\<forall>p \<ge> next_ptr s. cache_keys (store s p) = {}) \<and>
     (\<forall>t. pc_ok s (tpc s t))"

lemma conc_invD:
  assumes "conc_inv s"
  shows "clear_idx s < 256" and "cache_ok (store s p)"
    and "caches_of s org = Some p \<Longrightarrow> p < next_ptr s \<and> owner s p = org"
    and "key \<in> cache_keys (store s p) \<Longrightarrow> \<lparr>mk_Key = key, mk_Org = owner s p\<rparr> \<in> marked s"
    and "next_ptr s \<le> p \<Longrightarrow> cache_keys (store s p) = {}"
    and "pc_ok s (tpc s t)"
  using assms by (auto simp: conc_inv_def)

lemma conc_inv_init [simp]: "conc_inv init_conc"
  by (simp add: conc_inv_def init_conc_def pc_ok_def)

text \<open>A step that changes one thread's program counter only.\<close>

lemma conc_inv_tpc:
  assumes "conc_inv s" and "pc_ok s pc"
  shows "conc_inv (s\<lparr>tpc := (tpc s)(t := pc)\<rparr>)"
proof -
  have "pc_ok (s\<lparr>tpc := (tpc s)(t := pc)\<rparr>) = pc_ok s"
    by (rule ext) (simp add: pc_ok_def split: touch_pc.splits)
  with assms show ?thesis by (simp add: conc_inv_def)
qed

lemma conc_inv_mark:
  assumes inv: "conc_inv s" and pc: "tpc s t = TMark mk p"
    and touch: "Cache_Touch (mk_Key mk) (store s p) = (ok, c)"
  shows "conc_inv (s\<lparr>store := (store s)(p := c), marked := insert mk (marked s),
                     tpc := (tpc s)(t := TDone mk ok)\<rparr>)" (is "conc_inv ?s'")
proof -
  have "pc_ok s (TMark mk p)" using conc_invD(6) [OF inv, of t] pc by simp
  then have mk: "length (mk_Key mk) = 16" "p < next_ptr s" "owner s p = mk_Org mk"
    by (simp_all add: pc_ok_def key_ok_def)
  have c: "c = snd (Cache_Touch (mk_Key mk) (store s p))" using touch by simp
  note spec = Cache_Touch_spec [OF conc_invD(2) [OF inv, of p] mk(1)]
  have self: "\<lparr>mk_Key = mk_Key mk, mk_Org = mk_Org mk\<rparr> = mk" by (cases mk) simp
  have keep: "pc_ok s q \<Longrightarrow> pc_ok ?s' q" for q
    by (auto simp: pc_ok_def split: touch_pc.splits)
  have keys: "cache_keys (store ?s' q) = (if q = p then insert (mk_Key mk) (cache_keys (store s p))
      else cache_keys (store s q))" for q
    using spec(2) by (simp add: c)
  have "cache_ok (store ?s' q)" for q
    using spec(3) conc_invD(2) [OF inv] by (simp add: c)
  moreover have "\<lparr>mk_Key = key, mk_Org = owner ?s' q\<rparr> \<in> marked ?s'"
    if "key \<in> cache_keys (store ?s' q)" for q key
  proof (cases "key \<in> cache_keys (store s q)")
    case True
    then show ?thesis using conc_invD(4) [OF inv] by simp
  next
    case False
    then have "q = p \<and> key = mk_Key mk" using that unfolding keys by (simp split: if_splits)
    then have "\<lparr>mk_Key = key, mk_Org = owner ?s' q\<rparr> = mk" using mk(3) self by simp
    then show ?thesis by simp
  qed
  moreover have "cache_keys (store ?s' q) = {}" if "next_ptr ?s' \<le> q" for q
    using that mk(2) conc_invD(5) [OF inv] by (simp add: keys)
  moreover have "pc_ok ?s' (tpc ?s' q)" for q
    using keep [OF conc_invD(6) [OF inv, of q]] by (simp add: pc_ok_def)
  ultimately show ?thesis
    using conc_invD(1,3) [OF inv] unfolding conc_inv_def by simp
qed

lemma conc_inv_new:
  assumes inv: "conc_inv s" and pc: "tpc s t = TInsert mk"
  shows "conc_inv (s\<lparr>caches_of := (caches_of s)(mk_Org mk \<mapsto> next_ptr s),
                   store := (store s)(next_ptr s := NewCache),
                   owner := (owner s)(next_ptr s := mk_Org mk),
                   next_ptr := Suc (next_ptr s),
                   tpc := (tpc s)(t := TMark mk (next_ptr s))\<rparr>)" (is "conc_inv ?s'")
proof -
  have mk: "key_ok mk" using conc_invD(6) [OF inv, of t] pc by (simp add: pc_ok_def)
  have keep: "pc_ok s q \<Longrightarrow> pc_ok ?s' q" for q
    by (auto simp: pc_ok_def split: touch_pc.splits)
  have "pc_ok ?s' (tpc ?s' q)" for q
    using keep [OF conc_invD(6) [OF inv, of q]] mk by (simp add: pc_ok_def)
  moreover have "p < next_ptr ?s' \<and> owner ?s' p = org" if "caches_of ?s' org = Some p" for org p
    using that conc_invD(3) [OF inv, of org p] by (auto split: if_splits)
  moreover have "\<lparr>mk_Key = key, mk_Org = owner ?s' q\<rparr> \<in> marked ?s'"
    if "key \<in> cache_keys (store ?s' q)" for q key
    using that conc_invD(4) [OF inv] by (auto split: if_splits)
  ultimately show ?thesis
    using conc_invD(1,2,5) [OF inv] unfolding conc_inv_def by simp
qed

lemma conc_inv_reset:
  assumes inv: "conc_inv s"
  shows "conc_inv (s\<lparr>store := (store s)(p := fst (Cache_Clear (clear_idx s) (store s p))), cpc := pc\<rparr>)"
    (is "conc_inv ?s'")
proof -
  note spec = Cache_Clear_spec [OF conc_invD(2) [OF inv, of p] conc_invD(1) [OF inv]]
  have keys: "cache_keys (store ?s' q) \<subseteq> cache_keys (store s q)" for q
    using spec(1) by auto
  have "pc_ok ?s' = pc_ok s"
    by (rule ext) (simp add: pc_ok_def split: touch_pc.splits)
  moreover have "cache_ok (store ?s' q)" for q
    using spec(2) conc_invD(2) [OF inv] by simp
  moreover have "\<lparr>mk_Key = key, mk_Org = owner ?s' q\<rparr> \<in> marked ?s'"
    if "key \<in> cache_keys (store ?s' q)" for q key
    using that conc_invD(4) [OF inv] keys [of q] by auto
  moreover have "cache_keys (store ?s' q) = {}" if "next_ptr ?s' \<le> q" for q
    using that conc_invD(5) [OF inv, of q] keys [of q] by auto
  ultimately show ?thesis
    using conc_invD(1,3,6) [OF inv] unfolding conc_inv_def by simp
qed

lemma conc_inv_clearer:
  assumes "conc_inv s" and "idx < 256" and "m \<subseteq>\<^sub>m caches_of s"
  shows "conc_inv (s\<lparr>caches_of := m, clear_idx := idx, cpc := pc\<rparr>)"
proof -
  have "pc_ok (s\<lparr>caches_of := m, clear_idx := idx, cpc := pc\<rparr>) = pc_ok s"
    by (rule ext) (simp add: pc_ok_def split: touch_pc.splits)
  moreover have "p < next_ptr s \<and> owner s p = org" if "m org = Some p" for org p
    using that assms(3) by (intro conc_invD(3) [OF assms(1)]) (metis domI map_le_def)
  ultimately show ?thesis
    using conc_invD(2,4-6) [OF assms(1)] assms(2) unfolding conc_inv_def by simp
qed

lemma conc_step_inv: "conc_step s s' \<Longrightarrow> conc_inv s \<Longrightarrow> conc_inv s'"
proof (induction rule: conc_step.induct)
  case (call s t mk)
  then show ?case by (intro conc_inv_tpc) (simp_all add: pc_ok_def)
next
  case (lookup_hit s t mk p)
  then show ?case
    using conc_invD(3) [of s "mk_Org mk" p] conc_invD(6) [of s t]
    by (intro conc_inv_tpc) (simp_all add: pc_ok_def)
next
  case (lookup_miss s t mk)
  then show ?case
    using conc_invD(6) [of s t] by (intro conc_inv_tpc) (simp_all add: pc_ok_def)
next
  case (insert_hit s t mk p)
  then show ?case
    using conc_invD(3) [of s "mk_Org mk" p] conc_invD(6) [of s t]
    by (intro conc_inv_tpc) (simp_all add: pc_ok_def)
next
  case (insert_new s t mk)
  then show ?case by (intro conc_inv_new)
next
  case (mark s t mk p ok c)
  then show ?case by (intro conc_inv_mark)
next
  case (return s t mk ok)
  then show ?case by (intro conc_inv_tpc) (simp_all add: pc_ok_def)
next
  case (tick s ts)
  then show ?case
    using conc_inv_clearer [of s "clear_idx s" "caches_of s" "CReset ts"] conc_invD(1) by simp
next
  case (reset s org p ts)
  then show ?case
    using conc_inv_reset [where s = s and p = p and pc = "CLen org p ts 0 0"] by (simp add: Cache_Clear_def Let_def)
next
  case (len s org p ts i tot)
  then show ?case
    using conc_inv_clearer [of s "clear_idx s" "caches_of s"] conc_invD(1) by simp
next
  case (len_done s org p ts tot)
  then show ?case
    using conc_inv_clearer [of s "clear_idx s" "caches_of s"] conc_invD(1) by simp
next
  case (delete s org ts)
  have "(caches_of s)(org := None) \<subseteq>\<^sub>m caches_of s" by (simp add: map_le_def)
  with delete show ?case
    using conc_inv_clearer [of s "clear_idx s" "(caches_of s)(org := None)"] conc_invD(1) by simp
next
  case (tick_done s)
  then have "(if clear_idx s + 1 = 256 then 0 else clear_idx s + 1) < 256"
    using conc_invD(1) [of s] by auto
  with tick_done show ?case
    using conc_inv_clearer [of s "if clear_idx s + 1 = 256 then 0 else clear_idx s + 1" "caches_of s" CWait]
    by simp
qed

interpretation conc_runs: invariant_system conc_step conc_reach init_conc conc_inv
proof
  show "conc_step\<^sup>*\<^sup>* init_conc s" if "conc_reach s" for s
    using that by induction (auto intro: rtranclp.rtrancl_into_rtrancl)
qed (auto intro: conc_reach.intros conc_step_inv)

lemmas conc_reach_inv = conc_runs.reached_inv

text \<open>Whatever the interleaving, a mark that finds its key there finds a key that was marked before.\<close>

lemma conc_mark_seen:
  assumes "conc_reach s" and "tpc s t = TMark mk p" and "fst (Cache_Touch (mk_Key mk) (store s p))"
  shows "mk \<in> marked s"
proof -
  note inv = conc_reach_inv [OF assms(1)]
  have "pc_ok s (TMark mk p)" using conc_invD(6) [OF inv, of t] assms(2) by simp
  then have mk: "length (mk_Key mk) = 16" "owner s p = mk_Org mk" by (simp_all add: pc_ok_def key_ok_def)
  have "mk_Key mk \<in> cache_keys (store s p)"
    using assms(3) Cache_Touch_spec(1) [OF conc_invD(2) [OF inv] mk(1)] by simp
  then have "\<lparr>mk_Key = mk_Key mk, mk_Org = owner s p\<rparr> \<in> marked s" by (rule conc_invD(4) [OF inv])
  moreover have "\<lparr>mk_Key = mk_Key mk, mk_Org = owner s p\<rparr> = mk" by (cases mk) (simp add: mk(2)) 
  ultimately show ?thesis by simp
qed

section \<open>Properties\<close>

text \<open>
  C16. Under every interleaving of \<^verbatim>\<open>Touch\<close> calls with each other and with the clearing loop, a \<^verbatim>\<open>Touch\<close>
  about to mark a key answers yes only when an earlier \<^verbatim>\<open>Touch\<close> already marked that key, so the first
  sight of a key is never missed; and no pointer held by a call is to the cache of another organisation.
\<close>

theorem touch_sound_under_interleaving:
  assumes "conc_reach s" and "tpc s t = TMark mk p"
  shows "(fst (Cache_Touch (mk_Key mk) (store s p)) \<longrightarrow> mk \<in> marked s) \<and> owner s p = mk_Org mk"
  using conc_mark_seen [OF assms] conc_invD(6) [OF conc_reach_inv [OF assms(1)], of t] assms(2)
  by (simp add: pc_ok_def)

lemma conc_reach_new_mark:
  assumes "key_ok mk"
  shows "\<exists>s. conc_reach s \<and> tpc s 0 = TMark mk 0 \<and> marked s = {}"
proof -
  let ?s1 = "init_conc\<lparr>tpc := (tpc init_conc)(0 := TLookup mk)\<rparr>"
  let ?s2 = "?s1\<lparr>tpc := (tpc ?s1)(0 := TInsert mk)\<rparr>"
  have "conc_reach ?s1"
    by (rule conc_reach.step [OF conc_reach.init conc_step.call]) (simp_all add: init_conc_def assms)
  then have "conc_reach ?s2"
    by (rule conc_reach.step [OF _ conc_step.lookup_miss]) (simp_all add: init_conc_def)
  then have "conc_reach (?s2\<lparr>caches_of := (caches_of ?s2)(mk_Org mk \<mapsto> next_ptr ?s2),
                   store := (store ?s2)(next_ptr ?s2 := NewCache),
                   owner := (owner ?s2)(next_ptr ?s2 := mk_Org mk),
                   next_ptr := Suc (next_ptr ?s2),
                   tpc := (tpc ?s2)(0 := TMark mk (next_ptr ?s2))\<rparr>)" (is "conc_reach ?s3")
    by (rule conc_reach.step [OF _ conc_step.insert_new]) (simp_all add: init_conc_def)
  moreover have "tpc ?s3 0 = TMark mk 0 \<and> marked ?s3 = {}" by (simp add: init_conc_def)
  ultimately show ?thesis by blast
qed

theorem touch_sound_under_interleaving_witness:
  "\<exists>s. conc_reach s \<and> tpc s 0 = TMark sample_key 0 \<and> owner s 0 = mk_Org sample_key \<and>
    \<not> fst (Cache_Touch (mk_Key sample_key) (store s 0))"
proof -
  obtain s where s: "conc_reach s" "tpc s 0 = TMark sample_key 0" "marked s = {}"
    using conc_reach_new_mark [OF key_ok_sample] by blast
  then show ?thesis using touch_sound_under_interleaving [OF s(1,2)] by auto
qed

end
