(* ===== verification/Gcom.thy ===== *)
theory Gcom
  imports GoNumeric Transitions
begin

text \<open>
  Authentication against grafana.com, \<^verbatim>\<open>auth/gcom\<close>: roles, validation of tokens and instances, and the two
  caches with their background validation.

  \<^item> The HTTP client is an argument: what it returns for a request, \<^term>\<open>None\<close> for a transport error. So are
    the JSON decoders.
  \<^item> Times are nanoseconds since the epoch; \<^verbatim>\<open>Unix()\<close> is \<open>unix\<close>.
  \<^item> \<^verbatim>\<open>singleflight\<close> shares the answer of concurrent identical calls; calls here are one after the other, and the theory
    \<open>GcomConc\<close> has them side by side.
  \<^item> \<open>gcom_step\<close> puts the operations together as a transition system whose history variable \<open>vouched\<close>
    records what grafana.com has answered.
\<close>

section \<open>Roles\<close>

type_synonym RoleType = string

definition ROLE_VIEWER :: RoleType where "ROLE_VIEWER = ''Viewer''"
definition ROLE_EDITOR :: RoleType where "ROLE_EDITOR = ''Editor''"
definition ROLE_METRICS_PUBLISHER :: RoleType where "ROLE_METRICS_PUBLISHER = ''MetricsPublisher''"
definition ROLE_ADMIN :: RoleType where "ROLE_ADMIN = ''Admin''"

lemmas role_defs = ROLE_VIEWER_def ROLE_EDITOR_def ROLE_METRICS_PUBLISHER_def ROLE_ADMIN_def

definition IsValid :: "RoleType \<Rightarrow> bool" where
  "IsValid r \<longleftrightarrow> r = ROLE_VIEWER \<or> r = ROLE_ADMIN \<or> r = ROLE_EDITOR \<or> r = ROLE_METRICS_PUBLISHER"

definition IsPublisher :: "RoleType \<Rightarrow> bool" where
  "IsPublisher r \<longleftrightarrow> r = ROLE_METRICS_PUBLISHER \<or> r = ROLE_ADMIN \<or> r = ROLE_EDITOR"

definition IsViewer :: "RoleType \<Rightarrow> bool" where
  "IsViewer r \<longleftrightarrow> r = ROLE_VIEWER \<or> r = ROLE_ADMIN \<or> r = ROLE_EDITOR"

record SignedInUser =
  si_Id :: int
  si_OrgName :: string
  si_OrgId :: int
  si_OrgSlug :: string
  si_Name :: string
  si_Role :: RoleType
  si_IsAdmin :: bool
  si_key :: string

record Instance =
  in_ID :: int
  in_OrgID :: int
  in_ClusterName :: string
  in_ClusterID :: int
  in_InstanceType :: string

datatype gcom_error =
  GInvalidApiKey | GInvalidOrgId | GInvalidInstanceID | GInvalidInstanceType | GInvalidCluster | GOther

section \<open>Asking grafana.com\<close>

record http_resp =
  hr_StatusCode :: int
  hr_Body :: string
  hr_readErr :: bool

record gcom_config =
  gc_validOrgIds :: "int list"
  gc_validInstanceType :: string
  gc_validClusterID :: int
  gc_validationDryRun :: bool

text \<open>
  The JSON decoder fills the exported fields; the fields \<^verbatim>\<open>IsAdmin\<close> (excluded by its tag) and \<^verbatim>\<open>key\<close>
  (unexported) keep what the code put there.
\<close>

definition validateToken ::
  "gcom_config \<Rightarrow> (string \<Rightarrow> http_resp option) \<Rightarrow> (string \<Rightarrow> SignedInUser option) \<Rightarrow> string
    \<Rightarrow> gcom_error + SignedInUser" where
  "validateToken cfg post unmarshal keyString =
     (case post keyString of
        None \<Rightarrow> Inl GOther
      | Some res \<Rightarrow>
          if hr_readErr res then Inl GOther
          else if hr_StatusCode res \<ge> 500 then Inl GOther
          else if hr_StatusCode res \<noteq> 200 then Inl GInvalidApiKey
          else
            (case unmarshal (hr_Body res) of
               None \<Rightarrow> Inl GOther
             | Some u \<Rightarrow>
                 let user = u\<lparr>si_key := keyString, si_IsAdmin := False\<rparr>;
                     valid = (if length (gc_validOrgIds cfg) = 0 then True
                              else list_ex (\<lambda>i. si_OrgId user = i) (gc_validOrgIds cfg))
                 in if \<not> valid then Inl GInvalidOrgId else Inr user))"

text \<open>
  The HTTP client refuses a request whose header has a control character other than the tab in a value
  (\<^verbatim>\<open>httpguts.ValidHeaderFieldValue\<close>).
\<close>

definition ValidHeaderFieldValue :: "string \<Rightarrow> bool" where
  "ValidHeaderFieldValue v \<longleftrightarrow>
     list_all (\<lambda>b. \<not> ((of_char b :: nat) < 32 \<or> (of_char b :: nat) = 127) \<or> b = CHR '' '' \<or> b = CHR 0x09) v"

text \<open>
  \<^verbatim>\<open>validateInstance\<close>; \<open>get\<close> answers for an instance and a token. The error of reading the body is only
  looked at when the status is 500 or more; with status 200 what was read is decoded. The second component
  lists the labels of \<^verbatim>\<open>validationFailed\<close> that are incremented.
\<close>

definition validateInstance ::
  "gcom_config \<Rightarrow> (string \<Rightarrow> string \<Rightarrow> http_resp option) \<Rightarrow> (string \<Rightarrow> Instance option) \<Rightarrow> string \<Rightarrow> string
    \<Rightarrow> gcom_error option \<times> string list" where
  "validateInstance cfg get unmarshal instanceID token =
     (case (if ValidHeaderFieldValue (''Bearer '' @ token) then get instanceID token else None) of
        None \<Rightarrow> (Some GOther, [])
      | Some res \<Rightarrow>
          if hr_StatusCode res \<ge> 500 then (if hr_readErr res then Some GOther else None, [])
          else if hr_StatusCode res \<noteq> 200 then (Some GInvalidInstanceID, [])
          else
            (case unmarshal (hr_Body res) of
               None \<Rightarrow> (Some GOther, [])
             | Some inst \<Rightarrow>
                 if itoa (in_ID inst) \<noteq> instanceID then (Some GInvalidInstanceID, [])
                 else
                   let wrongType = (gc_validInstanceType cfg \<noteq> [] \<and> gc_validInstanceType cfg \<noteq> in_InstanceType inst);
                       wrongCluster = (gc_validClusterID cfg \<noteq> 0 \<and> gc_validClusterID cfg \<noteq> in_ClusterID inst);
                       failed = (if wrongType then [''instance''] else [])
                   in if wrongType \<and> \<not> gc_validationDryRun cfg then (Some GInvalidInstanceType, failed)
                      else
                        let failed = failed @ (if wrongCluster then [''cluster''] else [])
                        in if wrongCluster \<and> \<not> gc_validationDryRun cfg then (Some GInvalidCluster, failed)
                           else (None, failed)))"

text \<open>\<^verbatim>\<open>ValidateInstance\<close> takes the cache key apart again. The caches look at the error only, its first component.\<close>

definition ValidateInstance ::
  "gcom_config \<Rightarrow> (string \<Rightarrow> string \<Rightarrow> http_resp option) \<Rightarrow> (string \<Rightarrow> Instance option) \<Rightarrow> string
    \<Rightarrow> gcom_error option \<times> string list" where
  "ValidateInstance cfg get unmarshal cacheKey =
     (let idKey = splitn2 CHR '':'' cacheKey
      in validateInstance cfg get unmarshal (idKey ! 0) (idKey ! 1))"

section \<open>The token cache\<close>

definition unix :: "int \<Rightarrow> int" where
  "unix t = t div 1000000000"

record TokenResp =
  tr_User :: "SignedInUser option"
  tr_retrieved :: int
  tr_lastRead :: int

record TokenCache =
  tc_items :: "string \<rightharpoonup> TokenResp"
  tc_cacheTTL :: int

definition TokenCache_Get :: "int \<Rightarrow> string \<Rightarrow> TokenCache \<Rightarrow> (SignedInUser option \<times> bool) \<times> TokenCache" where
  "TokenCache_Get now key c =
     (case tc_items c key of
        None \<Rightarrow> ((None, False), c)
      | Some i \<Rightarrow> ((tr_User i, True), c\<lparr>tc_items := (tc_items c)(key \<mapsto> i\<lparr>tr_lastRead := unix now\<rparr>)\<rparr>))"

definition TokenCache_Set :: "int \<Rightarrow> string \<Rightarrow> SignedInUser option \<Rightarrow> TokenCache \<Rightarrow> TokenCache" where
  "TokenCache_Set now key u c =
     c\<lparr>tc_items := (tc_items c)(key \<mapsto> \<lparr>tr_User = u, tr_retrieved = now, tr_lastRead = unix now\<rparr>)\<rparr>"

definition TokenCache_Clear :: "TokenCache \<Rightarrow> TokenCache" where
  "TokenCache_Clear c = c\<lparr>tc_items := Map.empty\<rparr>"

text \<open>The body of the second loop of \<^verbatim>\<open>TokenCache.validate\<close>, given the answer for the key.\<close>

definition TokenCache_revalidate ::
  "(string \<Rightarrow> gcom_error + SignedInUser) \<Rightarrow> int \<Rightarrow> string \<Rightarrow> TokenCache \<Rightarrow> TokenCache" where
  "TokenCache_revalidate ask now k c =
     (let r = ask k
      in if (case r of Inl e \<Rightarrow> e \<noteq> GInvalidApiKey | Inr u \<Rightarrow> False) then c
         else
           case tc_items c k of
             None \<Rightarrow> c
           | Some v \<Rightarrow>
               if tr_lastRead v < unix (tr_retrieved v) then c\<lparr>tc_items := (tc_items c)(k := None)\<rparr>
               else c\<lparr>tc_items := (tc_items c)(k \<mapsto> v\<lparr>tr_retrieved := now,
                        tr_User := (case r of Inl e \<Rightarrow> None | Inr u \<Rightarrow> Some u)\<rparr>)\<rparr>)"

text \<open>\<open>order\<close> is the order in which the first loop visits the items.\<close>

definition expired_keys :: "int \<Rightarrow> string list \<Rightarrow> TokenCache \<Rightarrow> string list" where
  "expired_keys now order c =
     filter (\<lambda>k. case tc_items c k of None \<Rightarrow> False | Some v \<Rightarrow> tr_retrieved v < now - tc_cacheTTL c) order"

definition TokenCache_validate ::
  "(string \<Rightarrow> gcom_error + SignedInUser) \<Rightarrow> int \<Rightarrow> string list \<Rightarrow> TokenCache \<Rightarrow> TokenCache" where
  "TokenCache_validate ask now order c = fold (TokenCache_revalidate ask now) (expired_keys now order c) c"

section \<open>Auth\<close>

definition admin_user :: "string \<Rightarrow> SignedInUser" where
  "admin_user keyString =
     \<lparr>si_Id = 0, si_OrgName = ''Admin'', si_OrgId = 1, si_OrgSlug = ''admin'', si_Name = [],
      si_Role = ROLE_ADMIN, si_IsAdmin = True, si_key = keyString\<rparr>"

definition gcom_Auth ::
  "(string \<Rightarrow> gcom_error + SignedInUser) \<Rightarrow> int \<Rightarrow> string \<Rightarrow> string \<Rightarrow> TokenCache
    \<Rightarrow> (gcom_error + SignedInUser) \<times> TokenCache" where
  "gcom_Auth ask now adminKey keyString c =
     (if keyString = adminKey then (Inr (admin_user keyString), c)
      else
        case TokenCache_Get now keyString c of
          ((Some user, True), c) \<Rightarrow> (Inr user, c)
        | ((None, True), c) \<Rightarrow> (Inl GInvalidApiKey, c)
        | ((_, False), c) \<Rightarrow>
            (case ask keyString of
               Inr user \<Rightarrow> (Inr user, TokenCache_Set now keyString (Some user) c)
             | Inl err \<Rightarrow>
                 if err \<noteq> GInvalidApiKey \<and> err \<noteq> GInvalidOrgId then (Inl err, c)
                 else (Inl err, TokenCache_Set now keyString None c)))"

section \<open>The instance cache\<close>

record InstanceResp =
  ir_valid :: bool
  ir_retrieved :: int
  ir_lastRead :: int

record InstanceCache =
  ic_items :: "string \<rightharpoonup> InstanceResp"
  ic_cacheTTL :: int

definition InstanceCache_Get :: "int \<Rightarrow> string \<Rightarrow> InstanceCache \<Rightarrow> (bool \<times> bool) \<times> InstanceCache" where
  "InstanceCache_Get now key c =
     (case ic_items c key of
        None \<Rightarrow> ((False, False), c)
      | Some i \<Rightarrow> ((ir_valid i, True), c\<lparr>ic_items := (ic_items c)(key \<mapsto> i\<lparr>ir_lastRead := unix now\<rparr>)\<rparr>))"

definition InstanceCache_Set :: "int \<Rightarrow> string \<Rightarrow> bool \<Rightarrow> InstanceCache \<Rightarrow> InstanceCache" where
  "InstanceCache_Set now key valid c =
     c\<lparr>ic_items := (ic_items c)(key \<mapsto> \<lparr>ir_valid = valid, ir_retrieved = now, ir_lastRead = unix now\<rparr>)\<rparr>"

definition InstanceCache_Clear :: "InstanceCache \<Rightarrow> InstanceCache" where
  "InstanceCache_Clear c = c\<lparr>ic_items := Map.empty\<rparr>"

definition InstanceCache_revalidate ::
  "(string \<Rightarrow> gcom_error option) \<Rightarrow> int \<Rightarrow> string \<Rightarrow> InstanceCache \<Rightarrow> InstanceCache" where
  "InstanceCache_revalidate ask now k c =
     (let err = ask k
      in if err \<noteq> None \<and> err \<noteq> Some GInvalidInstanceID then c
         else
           case ic_items c k of
             None \<Rightarrow> c
           | Some v \<Rightarrow>
               if ir_lastRead v < unix (ir_retrieved v) then c\<lparr>ic_items := (ic_items c)(k := None)\<rparr>
               else c\<lparr>ic_items := (ic_items c)(k \<mapsto> v\<lparr>ir_retrieved := now, ir_valid := (err = None)\<rparr>)\<rparr>)"

definition InstanceCache_validate ::
  "(string \<Rightarrow> gcom_error option) \<Rightarrow> int \<Rightarrow> string list \<Rightarrow> InstanceCache \<Rightarrow> InstanceCache" where
  "InstanceCache_validate ask now order c =
     fold (InstanceCache_revalidate ask now)
       (filter (\<lambda>k. case ic_items c k of None \<Rightarrow> False | Some v \<Rightarrow> ir_retrieved v < now - ic_cacheTTL c) order) c"

definition instance_key :: "string \<Rightarrow> SignedInUser \<Rightarrow> string" where
  "instance_key instanceID u = instanceID @ CHR '':'' # si_key u"

definition CheckInstance ::
  "(string \<Rightarrow> gcom_error option) \<Rightarrow> int \<Rightarrow> SignedInUser \<Rightarrow> string \<Rightarrow> InstanceCache
    \<Rightarrow> gcom_error option \<times> InstanceCache" where
  "CheckInstance ask now u instanceID c =
     (let cachekey = instance_key instanceID u
      in case InstanceCache_Get now cachekey c of
           ((True, True), c) \<Rightarrow> (None, c)
         | ((False, True), c) \<Rightarrow> (Some GInvalidInstanceID, c)
         | ((_, False), c) \<Rightarrow>
             let err = ask cachekey
             in if err \<noteq> None \<and> err \<noteq> Some GInvalidInstanceID then (err, c)
                else (err, InstanceCache_Set now cachekey (err = None) c))"

section \<open>Runs of the token cache\<close>

text \<open>
  The operations in any order; \<open>vouched\<close> collects the pairs of key and user that a validation returned.
  Each step may see other answers: \<open>ask\<close> is any function that \<^verbatim>\<open>validateToken\<close> can be.
\<close>

record gcom_state =
  gs_cache :: TokenCache
  gs_vouched :: "(string \<times> SignedInUser) set"

definition asks :: "gcom_config \<Rightarrow> (string \<Rightarrow> gcom_error + SignedInUser) \<Rightarrow> bool" where
  "asks cfg ask \<longleftrightarrow> (\<exists>post unmarshal. ask = validateToken cfg post unmarshal)"

definition answers :: "(string \<Rightarrow> gcom_error + SignedInUser) \<Rightarrow> string set \<Rightarrow> (string \<times> SignedInUser) set" where
  "answers ask ks = {(k, u). k \<in> ks \<and> ask k = Inr u}"

datatype gcom_event = EvAuth string "gcom_error + SignedInUser" | EvValidate | EvClear

inductive gcom_step :: "gcom_config \<Rightarrow> string \<Rightarrow> gcom_state \<Rightarrow> gcom_event \<Rightarrow> gcom_state \<Rightarrow> bool" for cfg adminKey where
  auth: "asks cfg ask \<Longrightarrow> gcom_Auth ask now adminKey key (gs_cache s) = (r, c) \<Longrightarrow>
    gcom_step cfg adminKey s (EvAuth key r)
      \<lparr>gs_cache = c, gs_vouched = gs_vouched s \<union> answers ask {key}\<rparr>"
| validate: "asks cfg ask \<Longrightarrow> map_order order (tc_items (gs_cache s)) \<Longrightarrow>
    gcom_step cfg adminKey s EvValidate
      \<lparr>gs_cache = TokenCache_validate ask now order (gs_cache s), gs_vouched = gs_vouched s \<union> answers ask (set order)\<rparr>"
| clear: "gcom_step cfg adminKey s EvClear (s\<lparr>gs_cache := TokenCache_Clear (gs_cache s)\<rparr>)"

inductive gcom_trace :: "gcom_config \<Rightarrow> string \<Rightarrow> gcom_state \<Rightarrow> gcom_event list \<Rightarrow> gcom_state \<Rightarrow> bool" for cfg adminKey where
  nil: "gcom_trace cfg adminKey s [] s"
| snoc: "gcom_trace cfg adminKey s es s' \<Longrightarrow> gcom_step cfg adminKey s' e s'' \<Longrightarrow>
    gcom_trace cfg adminKey s (es @ [e]) s''"

definition init_gcom :: "int \<Rightarrow> gcom_state" where
  "init_gcom ttl = \<lparr>gs_cache = \<lparr>tc_items = Map.empty, tc_cacheTTL = ttl\<rparr>, gs_vouched = {}\<rparr>"

section \<open>Invariant: cached users were vouched for\<close>

definition user_allowed :: "gcom_config \<Rightarrow> string \<Rightarrow> SignedInUser \<Rightarrow> bool" where
  "user_allowed cfg key u \<longleftrightarrow>
     si_key u = key \<and> \<not> si_IsAdmin u \<and> (gc_validOrgIds cfg = [] \<or> si_OrgId u \<in> set (gc_validOrgIds cfg))"

lemma validateToken_allowed:
  "validateToken cfg post unmarshal key = Inr u \<Longrightarrow> user_allowed cfg key u"
  by (auto simp: validateToken_def user_allowed_def Let_def list_ex_iff split: option.splits if_splits)

lemma asks_allowed: "asks cfg ask \<Longrightarrow> ask key = Inr u \<Longrightarrow> user_allowed cfg key u"
  by (auto simp: asks_def validateToken_allowed)

definition cached_users :: "TokenCache \<Rightarrow> (string \<times> SignedInUser) set" where
  "cached_users c = {(k, u). \<exists>v. tc_items c k = Some v \<and> tr_User v = Some u}"

lemma cached_users_Set:
  "cached_users (TokenCache_Set now k u c) \<subseteq> cached_users c \<union> (case u of None \<Rightarrow> {} | Some u \<Rightarrow> {(k, u)})"
  by (auto simp: cached_users_def TokenCache_Set_def split: option.splits if_splits)

lemma cached_users_revalidate:
  "cached_users (TokenCache_revalidate ask now k c) \<subseteq> cached_users c \<union> answers ask {k}"
  by (auto simp: cached_users_def TokenCache_revalidate_def answers_def Let_def
      split: sum.splits option.splits if_splits)

lemma cached_users_validate:
  "cached_users (fold (TokenCache_revalidate ask now) ks c) \<subseteq> cached_users c \<union> answers ask (set ks)"
proof (induction ks arbitrary: c)
  case (Cons k ks)
  have "cached_users (fold (TokenCache_revalidate ask now) (k # ks) c) \<subseteq>
      (cached_users c \<union> answers ask {k}) \<union> answers ask (set ks)"
    using Cons.IH [of "TokenCache_revalidate ask now k c"] cached_users_revalidate [of ask now k c] by auto
  then show ?case by (auto simp: answers_def)
qed simp

lemma cached_users_Auth:
  "gcom_Auth ask now adminKey key c = (r, c') \<Longrightarrow> cached_users c' \<subseteq> cached_users c \<union> answers ask {key}"
  by (auto simp: gcom_Auth_def TokenCache_Get_def TokenCache_Set_def cached_users_def answers_def
      split: if_splits option.splits sum.splits)

lemma gcom_Auth_user:
  assumes "gcom_Auth ask now adminKey key c = (Inr u, c')" and "key \<noteq> adminKey"
  shows "(key, u) \<in> cached_users c \<union> answers ask {key}"
  using assms
  by (auto simp: gcom_Auth_def TokenCache_Get_def cached_users_def answers_def
      split: if_splits option.splits sum.splits)

definition gcom_inv :: "gcom_config \<Rightarrow> gcom_state \<Rightarrow> bool" where
  "gcom_inv cfg s \<longleftrightarrow>
     cached_users (gs_cache s) \<subseteq> gs_vouched s \<and> (\<forall>(k, u) \<in> gs_vouched s. user_allowed cfg k u)"

lemma answers_allowed: "asks cfg ask \<Longrightarrow> \<forall>(k, u) \<in> answers ask ks. user_allowed cfg k u"
  by (auto simp: answers_def asks_allowed)

lemma gcom_step_inv: "gcom_step cfg adminKey s e s' \<Longrightarrow> gcom_inv cfg s \<Longrightarrow> gcom_inv cfg s'"
proof (induction rule: gcom_step.induct)
  case (auth ask now key s r c)
  then show ?case
    using cached_users_Auth [OF auth.hyps(2)] answers_allowed [OF auth.hyps(1), of "{key}"]
    unfolding gcom_inv_def by auto
next
  case (validate ask order s now)
  have "cached_users (TokenCache_validate ask now order (gs_cache s)) \<subseteq>
      cached_users (gs_cache s) \<union> answers ask (set order)"
    unfolding TokenCache_validate_def
    using cached_users_validate [of ask now "expired_keys now order (gs_cache s)" "gs_cache s"]
    by (auto simp: answers_def expired_keys_def)
  then show ?case
    using validate.prems answers_allowed [OF validate.hyps(1), of "set order"] unfolding gcom_inv_def by auto
next
  case (clear s)
  then show ?case by (auto simp: gcom_inv_def TokenCache_Clear_def cached_users_def)
qed

inductive_simps gcom_trace_Nil: "gcom_trace cfg adminKey s [] s'"
inductive_simps gcom_trace_snoc: "gcom_trace cfg adminKey s (es @ [e]) s'"

interpretation gcom_runs: event_system "gcom_step cfg adminKey" "gcom_trace cfg adminKey"
  for cfg adminKey
  by unfold_locales (auto simp: gcom_trace_Nil gcom_trace_snoc)

lemma gcom_trace_inv: "gcom_trace cfg adminKey s es s' \<Longrightarrow> gcom_inv cfg s \<Longrightarrow> gcom_inv cfg s'"
  by (erule gcom_runs.trace_inv) (auto intro: gcom_step_inv)

lemma gcom_inv_init [simp]: "gcom_inv cfg (init_gcom ttl)"
  by (simp add: gcom_inv_def init_gcom_def cached_users_def)

section \<open>Revalidation of one key\<close>

lemma revalidate_other: "j \<noteq> k \<Longrightarrow> tc_items (TokenCache_revalidate ask now k c) j = tc_items c j"
  by (auto simp: TokenCache_revalidate_def Let_def split: sum.splits option.splits)

lemma revalidate_others:
  "k \<notin> set ks \<Longrightarrow> tc_items (fold (TokenCache_revalidate ask now) ks c) k = tc_items c k"
  by (induction ks arbitrary: c) (simp_all add: revalidate_other)

lemma revalidate_cong:
  assumes "tc_items c k = tc_items c' k"
  shows "tc_items (TokenCache_revalidate ask now k c) k = tc_items (TokenCache_revalidate ask now k c') k"
  using assms by (auto simp: TokenCache_revalidate_def Let_def split: sum.splits option.splits)

lemma validate_key:
  assumes "distinct order" and "k \<in> set order" and "tc_items c k = Some v"
    and "tr_retrieved v < now - tc_cacheTTL c"
  shows "tc_items (TokenCache_validate ask now order c) k = tc_items (TokenCache_revalidate ask now k c) k"
proof -
  let ?ks = "expired_keys now order c"
  have "k \<in> set ?ks" "distinct ?ks" using assms by (simp_all add: expired_keys_def)
  then obtain xs ys where ks: "?ks = xs @ k # ys" and "k \<notin> set xs" "k \<notin> set ys"
    by (metis distinct.simps(2) distinct_append in_set_conv_decomp_first)
  then have "tc_items (fold (TokenCache_revalidate ask now) ?ks c) k =
      tc_items (TokenCache_revalidate ask now k (fold (TokenCache_revalidate ask now) xs c)) k"
    by (simp add: revalidate_others)
  also have "\<dots> = tc_items (TokenCache_revalidate ask now k c) k"
    by (rule revalidate_cong [OF revalidate_others]) fact
  finally show ?thesis by (simp add: TokenCache_validate_def)
qed

lemma ValidateInstance_key:
  "CHR '':'' \<notin> set instanceID \<Longrightarrow>
   ValidateInstance cfg get um (instance_key instanceID u) = validateInstance cfg get um instanceID (si_key u)"
  by (simp add: ValidateInstance_def instance_key_def)

section \<open>Properties\<close>

text \<open>
  Soundness of token authentication: in every run of authentications, background validations and
  clears, a key other than the admin key is accepted only as a user that grafana.com returned for that
  very key during the run; that user is not an admin and belongs to an organisation the configuration
  allows.
\<close>

theorem accepted_key_was_vouched_for:
  assumes "gcom_trace cfg adminKey (init_gcom ttl) (es @ [EvAuth key (Inr u)]) s" and "key \<noteq> adminKey"
  shows "(key, u) \<in> gs_vouched s \<and> user_allowed cfg key u"
proof -
  obtain s' where run: "gcom_trace cfg adminKey (init_gcom ttl) es s'"
    and last: "gcom_step cfg adminKey s' (EvAuth key (Inr u)) s"
    using assms(1) by (cases rule: gcom_trace.cases) auto
  have inv: "gcom_inv cfg s'" using gcom_trace_inv [OF run gcom_inv_init] .
  have inv': "gcom_inv cfg s" using gcom_step_inv [OF last inv] .
  from last show ?thesis
  proof (cases rule: gcom_step.cases)
    case (auth ask now c)
    then have "(key, u) \<in> gs_vouched s"
      using gcom_Auth_user [OF auth(3) assms(2)] inv by (auto simp: gcom_inv_def)
    then show ?thesis using inv' by (auto simp: gcom_inv_def)
  qed
qed

definition sample_config :: gcom_config where
  "sample_config = \<lparr>gc_validOrgIds = [5], gc_validInstanceType = [], gc_validClusterID = 0, gc_validationDryRun = True\<rparr>"

definition sample_user :: SignedInUser where
  "sample_user = \<lparr>si_Id = 1, si_OrgName = ''o'', si_OrgId = 5, si_OrgSlug = ''o'', si_Name = ''n'',
     si_Role = ROLE_EDITOR, si_IsAdmin = False, si_key = ''k''\<rparr>"

theorem accepted_key_was_vouched_for_witness:
  "\<exists>s. gcom_trace sample_config ''admin'' (init_gcom 3600) ([] @ [EvAuth ''k'' (Inr sample_user)]) s \<and>
    (''k'', sample_user) \<in> gs_vouched s"
proof -
  let ?ask = "validateToken sample_config (\<lambda>k. Some \<lparr>hr_StatusCode = 200, hr_Body = [], hr_readErr = False\<rparr>) (\<lambda>b. Some sample_user)"
  have answer: "?ask ''k'' = Inr sample_user"
    by (simp add: validateToken_def sample_config_def sample_user_def)
  then have "gcom_Auth ?ask 0 ''admin'' ''k'' (gs_cache (init_gcom 3600)) =
      (Inr sample_user, TokenCache_Set 0 ''k'' (Some sample_user) (gs_cache (init_gcom 3600)))"
    by (simp add: gcom_Auth_def TokenCache_Get_def init_gcom_def)
  then obtain s where step: "gcom_step sample_config ''admin'' (init_gcom 3600) (EvAuth ''k'' (Inr sample_user)) s"
    using gcom_step.auth [of sample_config ?ask 0 "''admin''" "''k''" "init_gcom 3600"] unfolding asks_def by blast
  have run: "gcom_trace sample_config ''admin'' (init_gcom 3600) ([] @ [EvAuth ''k'' (Inr sample_user)]) s"
    by (rule gcom_trace.snoc [OF gcom_trace.nil step])
  show ?thesis using accepted_key_was_vouched_for [OF run] run by auto
qed

text \<open>
  C22. Revocation reaches the cache: when the background validation finds a key past its lifetime and
  grafana.com answers that the key is invalid, no later authentication is served from the old entry;
  it is refused, or the key is asked for again.
\<close>

theorem revoked_key_leaves_cache:
  assumes "distinct order" and "k \<in> set order" and "tc_items c k = Some v"
    and "tr_retrieved v < now - tc_cacheTTL c" and "ask k = Inl GInvalidApiKey" and "k \<noteq> adminKey"
  shows "fst (gcom_Auth ask' now' adminKey k (TokenCache_validate ask now order c)) \<in> {Inl GInvalidApiKey, ask' k}"
proof -
  have "tc_items (TokenCache_validate ask now order c) k = tc_items (TokenCache_revalidate ask now k c) k"
    by (rule validate_key [OF assms(1-4)])
  also have "\<dots> = (if tr_lastRead v < unix (tr_retrieved v) then None
      else Some (v\<lparr>tr_retrieved := now, tr_User := None\<rparr>))"
    using assms(3,5) by (simp add: TokenCache_revalidate_def)
  finally show ?thesis
    using assms(6)
    by (auto simp: gcom_Auth_def TokenCache_Get_def split: if_splits sum.splits)
qed

theorem revoked_key_leaves_cache_witness:
  "fst (gcom_Auth (\<lambda>k. Inl GOther) 20 ''admin'' ''k''
      (TokenCache_validate (\<lambda>k. Inl GInvalidApiKey) 10 [''k'']
        \<lparr>tc_items = [''k'' \<mapsto> \<lparr>tr_User = Some sample_user, tr_retrieved = 0, tr_lastRead = 0\<rparr>], tc_cacheTTL = 5\<rparr>))
    \<in> {Inl GInvalidApiKey, Inl GOther}"
  by (rule revoked_key_leaves_cache [where ask' = "\<lambda>k. Inl GOther"
        and v = "\<lparr>tr_User = Some sample_user, tr_retrieved = 0, tr_lastRead = 0\<rparr>"]) simp_all

text \<open>
  A key whose organisation is no longer allowed is not revoked: when the background validation gets the
  answer that the organisation is invalid, it keeps the entry, and the key still authenticates as the
  cached user. A key that is first seen in that state is cached as an invalid key.
\<close>

theorem disallowed_org_keeps_stale_user:
  assumes "distinct order" and "k \<in> set order" and "tc_items c k = Some v" and "tr_User v = Some u"
    and "tr_retrieved v < now - tc_cacheTTL c" and "ask k = Inl GInvalidOrgId" and "k \<noteq> adminKey"
    and "tc_items c j = None" and "ask j = Inl GInvalidOrgId" and "j \<noteq> adminKey"
  shows "fst (gcom_Auth ask now adminKey k (TokenCache_validate ask now order c)) = Inr u \<and>
    fst (gcom_Auth ask now adminKey j c) = Inl GInvalidOrgId \<and>
    fst (gcom_Auth ask now adminKey j (snd (gcom_Auth ask now adminKey j c))) = Inl GInvalidApiKey"
proof -
  have "tc_items (TokenCache_validate ask now order c) k = Some v"
    using validate_key [OF assms(1-3,5)] assms(3,6) by (simp add: TokenCache_revalidate_def)
  then show ?thesis
    using assms(4,6-) by (simp add: gcom_Auth_def TokenCache_Get_def TokenCache_Set_def)
qed

theorem disallowed_org_keeps_stale_user_witness:
  "fst (gcom_Auth (\<lambda>k. Inl GInvalidOrgId) 10 ''admin'' ''k''
      (TokenCache_validate (\<lambda>k. Inl GInvalidOrgId) 10 [''k'']
        \<lparr>tc_items = [''k'' \<mapsto> \<lparr>tr_User = Some sample_user, tr_retrieved = 0, tr_lastRead = 0\<rparr>], tc_cacheTTL = 5\<rparr>)) =
    Inr sample_user"
  using disallowed_org_keeps_stale_user [of "[''k'']" "''k''"
      "\<lparr>tc_items = [''k'' \<mapsto> \<lparr>tr_User = Some sample_user, tr_retrieved = 0, tr_lastRead = 0\<rparr>], tc_cacheTTL = 5\<rparr>"
      "\<lparr>tr_User = Some sample_user, tr_retrieved = 0, tr_lastRead = 0\<rparr>" sample_user 10 "\<lambda>k. Inl GInvalidOrgId"
      "''admin''" "''j''"]
  by simp

text \<open>
  A failing grafana.com admits instances: for an instance that is not cached, an answer with a status of
  500 or more whose body can be read counts as valid, and the instance is cached as valid for the token.
\<close>

theorem server_error_admits_instance:
  assumes "CHR '':'' \<notin> set instanceID" and "ic_items c (instance_key instanceID u) = None"
    and "get instanceID (si_key u) = Some res" and "500 \<le> hr_StatusCode res" and "\<not> hr_readErr res"
    and "ValidHeaderFieldValue (''Bearer '' @ si_key u)"
  shows "\<exists>c'. CheckInstance (\<lambda>k. fst (ValidateInstance cfg get unmarshal k)) now u instanceID c = (None, c') \<and>
    fst (CheckInstance ask' now' u instanceID c') = None"
proof -
  have "fst (ValidateInstance cfg get unmarshal (instance_key instanceID u)) = None"
    using ValidateInstance_key [OF assms(1), of cfg get unmarshal u] assms(3-6)
    by (simp add: validateInstance_def)
  then show ?thesis
    using assms(2) by (simp add: CheckInstance_def InstanceCache_Get_def InstanceCache_Set_def Let_def)
qed

theorem server_error_admits_instance_witness:
  "\<exists>c'. CheckInstance (\<lambda>k. fst (ValidateInstance sample_config
        (\<lambda>i t. Some \<lparr>hr_StatusCode = 503, hr_Body = [], hr_readErr = False\<rparr>) (\<lambda>b. None) k))
      0 sample_user ''12'' \<lparr>ic_items = Map.empty, ic_cacheTTL = 5\<rparr> = (None, c') \<and>
    fst (CheckInstance (\<lambda>k. Some GInvalidInstanceID) 1 sample_user ''12'' c') = None"
  by (rule server_error_admits_instance [where res = "\<lparr>hr_StatusCode = 503, hr_Body = [], hr_readErr = False\<rparr>"])
    (simp_all add: sample_user_def ValidHeaderFieldValue_def)

end
