(* ===== verification/SingleFlight.thy ===== *)
theory SingleFlight
  imports GwPrelude
begin

text \<open>
  The vendored \<^verbatim>\<open>golang.org/x/sync/singleflight\<close>: a group of calls in which a caller that comes while a
  call for the same key is in flight waits for that call and receives its result.

  \<^item> A call lives in a store, because the goroutines that wait for it keep a pointer to it after it has been
    deleted from the map; its address is a natural number.
  \<^item> \<open>c_result\<close> is \<^term>\<open>None\<close> until the wait group of the call is done: the two fields \<^verbatim>\<open>val\<close> and \<^verbatim>\<open>err\<close> are read
    after that only.
  \<^item> Each operation is one region under the mutex of the group, or one access to the wait group. The
    interleaving is up to the client: a step relation calls the operations one at a time.
  \<^item> \<open>single_flight\<close> is the interface a client relies on. \<open>covered\<close> relates the map to the goroutines that lead
    a call, and is kept by every operation.
\<close>

section \<open>The group\<close>

record 'r sf_call =
  c_result :: "'r option"
  c_dups :: nat

record 'r sf_group =
  g_m :: "string \<rightharpoonup> nat"
  g_calls :: "nat \<Rightarrow> 'r sf_call"
  g_next :: nat

definition new_group :: "'r sf_group" where
  "new_group = \<lparr>g_m = Map.empty, g_calls = (\<lambda>_. \<lparr>c_result = None, c_dups = 0\<rparr>), g_next = 0\<rparr>"

datatype sf_entry = Join nat | Lead nat

text \<open>\<^verbatim>\<open>Do\<close> up to the unlock: join the call in flight for the key, or enter a new one.\<close>

definition Do_enter :: "string \<Rightarrow> 'r sf_group \<Rightarrow> sf_entry \<times> 'r sf_group" where
  "Do_enter key g =
     (case g_m g key of
        Some c \<Rightarrow> (Join c, g\<lparr>g_calls := (g_calls g)(c := (g_calls g c)\<lparr>c_dups := Suc (c_dups (g_calls g c))\<rparr>)\<rparr>)
      | None \<Rightarrow>
          let c = g_next g
          in (Lead c, g\<lparr>g_m := (g_m g)(key \<mapsto> c),
                        g_calls := (g_calls g)(c := \<lparr>c_result = None, c_dups = 0\<rparr>),
                        g_next := Suc c\<rparr>))"

text \<open>\<^verbatim>\<open>doCall\<close>: the function has returned \<open>r\<close>, and the waiting goroutines are released.\<close>

definition doCall_done :: "nat \<Rightarrow> 'r \<Rightarrow> 'r sf_group \<Rightarrow> 'r sf_group" where
  "doCall_done c r g = g\<lparr>g_calls := (g_calls g)(c := (g_calls g c)\<lparr>c_result := Some r\<rparr>)\<rparr>"

text \<open>The second region of \<^verbatim>\<open>doCall\<close>, which takes the key out of the map; \<^verbatim>\<open>Do\<close> has no channels to serve.\<close>

definition doCall_delete :: "string \<Rightarrow> 'r sf_group \<Rightarrow> 'r sf_group" where
  "doCall_delete key g = g\<lparr>g_m := (g_m g)(key := None)\<rparr>"

text \<open>\<^verbatim>\<open>wg.Wait\<close> and the return of a joined caller: \<^term>\<open>None\<close> while it blocks.\<close>

definition Do_wait :: "nat \<Rightarrow> 'r sf_group \<Rightarrow> ('r \<times> bool) option" where
  "Do_wait c g = map_option (\<lambda>r. (r, True)) (c_result (g_calls g c))"

text \<open>The return of the caller that led the call.\<close>

definition Do_return :: "nat \<Rightarrow> 'r sf_group \<Rightarrow> ('r \<times> bool) option" where
  "Do_return c g = map_option (\<lambda>r. (r, c_dups (g_calls g c) > 0)) (c_result (g_calls g c))"

definition call_result :: "'r sf_group \<Rightarrow> nat \<Rightarrow> 'r option" where
  "call_result g c = c_result (g_calls g c)"

definition known_call :: "'r sf_group \<Rightarrow> nat \<Rightarrow> bool" where
  "known_call g c \<longleftrightarrow> c < g_next g"

section \<open>The interface\<close>

locale single_flight =
  fixes flying :: "'g \<Rightarrow> string \<Rightarrow> nat option"
    and res :: "'g \<Rightarrow> nat \<Rightarrow> 'r option"
    and known :: "'g \<Rightarrow> nat \<Rightarrow> bool"
    and enter :: "string \<Rightarrow> 'g \<Rightarrow> sf_entry \<times> 'g"
    and finish :: "nat \<Rightarrow> 'r \<Rightarrow> 'g \<Rightarrow> 'g"
    and remove :: "string \<Rightarrow> 'g \<Rightarrow> 'g"
  assumes join: "enter k g = (Join c, g') \<Longrightarrow>
      flying g k = Some c \<and> flying g' = flying g \<and> res g' = res g \<and> known g' = known g"
    and lead: "enter k g = (Lead c, g') \<Longrightarrow>
      flying g k = None \<and> \<not> known g c \<and> flying g' = (flying g)(k \<mapsto> c) \<and> res g' = (res g)(c := None) \<and>
      known g' = (known g)(c := True)"
    and finish: "flying (finish c r g) = flying g" "res (finish c r g) = (res g)(c \<mapsto> r)"
      "known (finish c r g) = known g"
    and remove: "flying (remove k g) = (flying g)(k := None)" "res (remove k g) = res g"
      "known (remove k g) = known g"
begin

text \<open>\<open>l t\<close> is the key and the call that goroutine \<open>t\<close> leads: it has entered it and has not yet deleted the key.\<close>

definition covered :: "'g \<Rightarrow> (nat \<rightharpoonup> string \<times> nat) \<Rightarrow> bool" where
  "covered g l \<longleftrightarrow>
     (\<forall>k c. flying g k = Some c \<longleftrightarrow> (\<exists>t. l t = Some (k, c))) \<and>
     (\<forall>t t' k c c'. l t = Some (k, c) \<longrightarrow> l t' = Some (k, c') \<longrightarrow> t = t') \<and>
     (\<forall>k k' c. flying g k = Some c \<longrightarrow> flying g k' = Some c \<longrightarrow> k = k') \<and>
     (\<forall>k c. flying g k = Some c \<longrightarrow> known g c)"

lemma one_leader: "covered g l \<Longrightarrow> l t = Some (k, c) \<Longrightarrow> l t' = Some (k, c') \<Longrightarrow> t = t'"
  unfolding covered_def by blast

lemma flying_iff: "covered g l \<Longrightarrow> flying g k = Some c \<longleftrightarrow> (\<exists>t. l t = Some (k, c))"
  unfolding covered_def by blast

lemma leads_flying: "covered g l \<Longrightarrow> l t = Some (k, c) \<Longrightarrow> flying g k = Some c"
  unfolding covered_def by blast

lemma flying_led: "covered g l \<Longrightarrow> flying g k = Some c \<Longrightarrow> \<exists>t. l t = Some (k, c)"
  unfolding covered_def by blast

lemma flying_inj: "covered g l \<Longrightarrow> flying g k = Some c \<Longrightarrow> flying g k' = Some c \<Longrightarrow> k = k'"
  unfolding covered_def by blast

lemma flying_known: "covered g l \<Longrightarrow> flying g k = Some c \<Longrightarrow> known g c"
  unfolding covered_def by blast

lemma leads_known: "covered g l \<Longrightarrow> l t = Some (k, c) \<Longrightarrow> known g c"
  by (rule flying_known [OF _ leads_flying])

lemma one_call: "covered g l \<Longrightarrow> l t = Some (k, c) \<Longrightarrow> l t' = Some (k', c) \<Longrightarrow> t = t'"
  using flying_inj leads_flying one_leader by metis

lemma upd_led: "(\<exists>t'. (l(t := x)) t' = y) \<longleftrightarrow> x = y \<or> (\<exists>t'. t' \<noteq> t \<and> l t' = y)"
  by (metis fun_upd_apply)

lemma others_led:
  "covered g l \<Longrightarrow> l t \<noteq> Some (k, c) \<Longrightarrow> (\<exists>t'. t' \<noteq> t \<and> l t' = Some (k, c)) \<longleftrightarrow> flying g k = Some c"
  unfolding flying_iff by metis

lemma covered_join: "covered g l \<Longrightarrow> enter k g = (Join c, g') \<Longrightarrow> covered g' l"
  using join by (simp add: covered_def)

lemma covered_lead:
  assumes cov: "covered g l" and enter: "enter k g = (Lead c, g')" and idle: "l t = None"
  shows "covered g' (l(t \<mapsto> (k, c)))"
proof -
  note new = lead [OF enter]
  have free: "l t' \<noteq> Some (k, c')" for t' c' using leads_flying [OF cov] new by auto
  have "flying g' k' = Some c' \<longleftrightarrow> (\<exists>t'. (l(t \<mapsto> (k, c))) t' = Some (k', c'))" for k' c'
  proof (cases "k' = k")
    case True
    then show ?thesis unfolding upd_led using free new by auto
  next
    case False
    moreover have "(\<exists>t'. t' \<noteq> t \<and> l t' = Some (k', c')) \<longleftrightarrow> flying g k' = Some c'"
      using others_led [OF cov] idle by simp
    ultimately show ?thesis unfolding upd_led using new by simp
  qed
  moreover have "t1 = t2" if "(l(t \<mapsto> (k, c))) t1 = Some (k', c1)" "(l(t \<mapsto> (k, c))) t2 = Some (k', c2)" for t1 t2 k' c1 c2
    using that free one_leader [OF cov] by (auto split: if_splits)
  moreover have "k1 = k2" if "flying g' k1 = Some c'" "flying g' k2 = Some c'" for k1 k2 c'
    using that flying_inj [OF cov] flying_known [OF cov] new by (auto split: if_splits)
  moreover have "known g' c'" if "flying g' k' = Some c'" for k' c'
    using that flying_known [OF cov] new by (auto split: if_splits)
  ultimately show ?thesis unfolding covered_def by blast
qed

lemma covered_finish: "covered g l \<Longrightarrow> covered (finish c r g) l"
  by (simp add: covered_def finish)

lemma covered_remove:
  assumes cov: "covered g l" and mine: "l t = Some (k, c)"
  shows "covered (remove k g) (l(t := None))"
proof -
  have other: "l t' = Some (k, c') \<Longrightarrow> t' = t" for t' c' using one_leader [OF cov _ mine] by blast
  have "flying (remove k g) k' = Some c' \<longleftrightarrow> (\<exists>t'. (l(t := None)) t' = Some (k', c'))" for k' c'
  proof (cases "k' = k")
    case True
    then show ?thesis unfolding upd_led using other by (auto simp: remove)
  next
    case False
    moreover have "(\<exists>t'. t' \<noteq> t \<and> l t' = Some (k', c')) \<longleftrightarrow> flying g k' = Some c'"
      using others_led [OF cov] False mine by simp
    ultimately show ?thesis unfolding upd_led by (simp add: remove)
  qed
  moreover have "t1 = t2" if "(l(t := None)) t1 = Some (k', c1)" "(l(t := None)) t2 = Some (k', c2)" for t1 t2 k' c1 c2
    using that one_leader [OF cov] by (auto split: if_splits)
  moreover have "k1 = k2" if "flying (remove k g) k1 = Some c'" "flying (remove k g) k2 = Some c'" for k1 k2 c'
    using that flying_inj [OF cov] by (auto simp: remove split: if_splits)
  moreover have "known (remove k g) c'" if "flying (remove k g) k' = Some c'" for k' c'
    using that flying_known [OF cov] by (auto simp: remove split: if_splits)
  ultimately show ?thesis unfolding covered_def by blast
qed

end

section \<open>The vendored group provides it\<close>

interpretation sf: single_flight g_m call_result known_call Do_enter doCall_done doCall_delete
proof unfold_locales
  show "g_m g k = Some c \<and> g_m g' = g_m g \<and> call_result g' = call_result g \<and> known_call g' = known_call g"
    if "Do_enter k g = (Join c, g')" for k c and g g' :: "'a sf_group"
    using that by (auto simp: Do_enter_def call_result_def known_call_def fun_eq_iff Let_def split: option.splits)
  show "g_m g k = None \<and> \<not> known_call g c \<and> g_m g' = (g_m g)(k \<mapsto> c) \<and>
      call_result g' = (call_result g)(c := None) \<and> known_call g' = (known_call g)(c := True)"
    if "Do_enter k g = (Lead c, g')" for k c and g g' :: "'a sf_group"
    using that by (auto simp: Do_enter_def call_result_def known_call_def fun_eq_iff Let_def split: option.splits)
qed (auto simp: doCall_done_def doCall_delete_def call_result_def known_call_def)

lemma covered_new: "sf.covered new_group (\<lambda>_. None)"
  by (simp add: sf.covered_def new_group_def)

lemma Do_wait_result: "Do_wait c g = Some (r, sh) \<longleftrightarrow> call_result g c = Some r \<and> sh"
  by (auto simp: Do_wait_def call_result_def)

lemma Do_return_result: "Do_return c g = Some (r, sh) \<Longrightarrow> call_result g c = Some r"
  by (auto simp: Do_return_def call_result_def)

lemma Do_return_done: "call_result g c = Some r \<Longrightarrow> \<exists>sh. Do_return c g = Some (r, sh)"
  by (auto simp: Do_return_def call_result_def)

end
