(* ===== verification/GcomConc.thy ===== *)
theory GcomConc
  imports Gcom SingleFlight Transitions
begin

text \<open>
  Concurrent use of \<^verbatim>\<open>auth/gcom\<close>: the goroutines of the requests that authenticate a token (\<^verbatim>\<open>Auth\<close>) or an
  instance (\<^verbatim>\<open>CheckInstance\<close>), and the background goroutines that refresh the two caches, all of which ask
  grafana.com through the one group \<^verbatim>\<open>singlef\<close>.

  \<^item> Every rule of \<open>cc_internal\<close> is one region under one lock or one access to a wait group: the lookup in a
    cache, \<^verbatim>\<open>Do\<close> up to its unlock, the question to grafana.com with the release of the waiting goroutines,
    the deletion of the key, the wait, and the write to a cache.
  \<^item> \<open>cc_users\<close>, \<open>cc_valid\<close> and \<open>cc_down\<close> are history variables: the users grafana.com has returned for a key, the
    instances it has vouched for, and those it was asked about when it answered 500 or more, which
    \<^verbatim>\<open>validateInstance\<close> takes for a yes. What grafana.com answers may differ from one question to the next.
  \<^item> A goroutine serves one request: the plugin for instances asks about the instance after it has authenticated the
    token, in the same goroutine, and only for a name that is a number. A refresh of a cache is taken apart into one goroutine per key, which
    allows every interleaving of the loop in \<^verbatim>\<open>validate\<close> and more.
\<close>

section \<open>What the group carries\<close>

text \<open>
  A result of \<^verbatim>\<open>singlef.Do\<close>, a pair of \<^verbatim>\<open>interface{}\<close> and \<^verbatim>\<open>error\<close>: an error, whose value nobody looks at; a
  \<^verbatim>\<open>*SignedInUser\<close>, from the function of \<^verbatim>\<open>ValidateToken\<close>; or \<^verbatim>\<open>nil, nil\<close>, from the function of
  \<^verbatim>\<open>ValidateInstance\<close>.
\<close>

datatype sf_answer = AFail gcom_error | AUser SignedInUser | ANil

record gcom_world =
  w_post :: "string \<Rightarrow> http_resp option"
  w_user :: "string \<Rightarrow> SignedInUser option"
  w_get :: "string \<Rightarrow> string \<Rightarrow> http_resp option"
  w_instance :: "string \<Rightarrow> Instance option"

definition token_fn :: "gcom_config \<Rightarrow> gcom_world \<Rightarrow> string \<Rightarrow> sf_answer" where
  "token_fn cfg w keyString =
     (case validateToken cfg (w_post w) (w_user w) keyString of Inl e \<Rightarrow> AFail e | Inr u \<Rightarrow> AUser u)"

definition instance_fn :: "gcom_config \<Rightarrow> gcom_world \<Rightarrow> string \<Rightarrow> sf_answer" where
  "instance_fn cfg w cacheKey =
     (case fst (Gcom.ValidateInstance cfg (w_get w) (w_instance w) cacheKey) of Some e \<Rightarrow> AFail e | None \<Rightarrow> ANil)"

text \<open>
  What an answer of grafana.com about an instance means: it vouches for the instance, or it is a failure of the
  service that \<^verbatim>\<open>validateInstance\<close> returns the nil error of reading the body for.
\<close>

definition instance_vouched :: "gcom_config \<Rightarrow> gcom_world \<Rightarrow> string \<Rightarrow> bool" where
  "instance_vouched cfg w cacheKey \<longleftrightarrow>
     (let idKey = splitn2 CHR '':'' cacheKey
      in ValidHeaderFieldValue (''Bearer '' @ idKey ! 1) \<and>
         (case w_get w (idKey ! 0) (idKey ! 1) of
            None \<Rightarrow> False
          | Some res \<Rightarrow> hr_StatusCode res = 200 \<and>
             (case w_instance w (hr_Body res) of
                None \<Rightarrow> False
              | Some inst \<Rightarrow> itoa (in_ID inst) = idKey ! 0 \<and>
                  (gc_validationDryRun cfg \<or>
                   gc_validInstanceType cfg \<in> {[], in_InstanceType inst} \<and> gc_validClusterID cfg \<in> {0, in_ClusterID inst}))))"

definition instance_down :: "gcom_world \<Rightarrow> string \<Rightarrow> bool" where
  "instance_down w cacheKey \<longleftrightarrow>
     (let idKey = splitn2 CHR '':'' cacheKey
      in ValidHeaderFieldValue (''Bearer '' @ idKey ! 1) \<and>
         (case w_get w (idKey ! 0) (idKey ! 1) of None \<Rightarrow> False | Some res \<Rightarrow> hr_StatusCode res \<ge> 500 \<and> \<not> hr_readErr res))"

lemma instance_fn_ANil: "instance_fn cfg w k = ANil \<longleftrightarrow> instance_vouched cfg w k \<or> instance_down w k"
  by (auto simp: instance_fn_def instance_vouched_def instance_down_def Gcom.ValidateInstance_def validateInstance_def Let_def
      split: option.splits if_splits)

datatype 'a go_return = Returns 'a | Panics

text \<open>The end of \<^verbatim>\<open>ValidateToken\<close>: the type assertion \<^verbatim>\<open>user.(*SignedInUser)\<close> panics on \<^verbatim>\<open>nil\<close>.\<close>

definition ValidateToken_return :: "sf_answer \<Rightarrow> (gcom_error + SignedInUser) go_return" where
  "ValidateToken_return r = (case r of AFail e \<Rightarrow> Returns (Inl e) | AUser u \<Rightarrow> Returns (Inr u) | ANil \<Rightarrow> Panics)"

definition ValidateInstance_return :: "sf_answer \<Rightarrow> gcom_error option" where
  "ValidateInstance_return r = (case r of AFail e \<Rightarrow> Some e | _ \<Rightarrow> None)"

section \<open>Requests\<close>

datatype cc_req =
  RAuth string
  | RRefresh string int
  | RCheck string SignedInUser
  | RRefreshI string int

fun req_key :: "cc_req \<Rightarrow> string" where
  "req_key (RAuth k) = k"
| "req_key (RRefresh k now) = k"
| "req_key (RCheck instanceID u) = instance_key instanceID u"
| "req_key (RRefreshI k now) = k"

fun req_fn :: "gcom_config \<Rightarrow> gcom_world \<Rightarrow> cc_req \<Rightarrow> sf_answer" where
  "req_fn cfg w (RAuth k) = token_fn cfg w k"
| "req_fn cfg w (RRefresh k now) = token_fn cfg w k"
| "req_fn cfg w (RCheck instanceID u) = instance_fn cfg w (instance_key instanceID u)"
| "req_fn cfg w (RRefreshI k now) = instance_fn cfg w k"

datatype cc_out = OUser "gcom_error + SignedInUser" | OInst "gcom_error option" | ODone | OPanic

datatype cc_pc =
  PIdle
  | PGet cc_req
  | PDo cc_req
  | PExec cc_req nat
  | PDelete cc_req nat
  | PWait cc_req nat
  | PGot cc_req sf_answer
  | PRet cc_req cc_out

text \<open>Up to the call of \<^verbatim>\<open>ValidateToken\<close> or \<^verbatim>\<open>ValidateInstance\<close>: the caches are asked first.\<close>

fun cc_lookup ::
  "string \<Rightarrow> int \<Rightarrow> cc_req \<Rightarrow> TokenCache \<Rightarrow> InstanceCache \<Rightarrow> cc_pc \<times> TokenCache \<times> InstanceCache" where
  "cc_lookup adminKey now (RAuth k) tc ic =
     (if k = adminKey then (PRet (RAuth k) (OUser (Inr (admin_user k))), tc, ic)
      else
        case TokenCache_Get now k tc of
          ((Some user, True), tc) \<Rightarrow> (PRet (RAuth k) (OUser (Inr user)), tc, ic)
        | ((None, True), tc) \<Rightarrow> (PRet (RAuth k) (OUser (Inl GInvalidApiKey)), tc, ic)
        | ((_, False), tc) \<Rightarrow> (PDo (RAuth k), tc, ic))"
| "cc_lookup adminKey now (RCheck i u) tc ic =
     (case InstanceCache_Get now (instance_key i u) ic of
        ((True, True), ic) \<Rightarrow> (PRet (RCheck i u) (OInst None), tc, ic)
      | ((False, True), ic) \<Rightarrow> (PRet (RCheck i u) (OInst (Some GInvalidInstanceID)), tc, ic)
      | ((_, False), ic) \<Rightarrow> (PDo (RCheck i u), tc, ic))"
| "cc_lookup adminKey now (RRefresh k tick) tc ic = (PDo (RRefresh k tick), tc, ic)"
| "cc_lookup adminKey now (RRefreshI k tick) tc ic = (PDo (RRefreshI k tick), tc, ic)"

text \<open>From the return of \<^verbatim>\<open>singlef.Do\<close> to the end.\<close>

fun cc_conclude ::
  "int \<Rightarrow> cc_req \<Rightarrow> sf_answer \<Rightarrow> TokenCache \<Rightarrow> InstanceCache \<Rightarrow> cc_out \<times> TokenCache \<times> InstanceCache" where
  "cc_conclude now (RAuth k) r tc ic =
     (case ValidateToken_return r of
        Panics \<Rightarrow> (OPanic, tc, ic)
      | Returns (Inr user) \<Rightarrow> (OUser (Inr user), TokenCache_Set now k (Some user) tc, ic)
      | Returns (Inl err) \<Rightarrow>
          if err \<noteq> GInvalidApiKey \<and> err \<noteq> GInvalidOrgId then (OUser (Inl err), tc, ic)
          else (OUser (Inl err), TokenCache_Set now k None tc, ic))"
| "cc_conclude now (RCheck i u) r tc ic =
     (let err = ValidateInstance_return r
      in if err \<noteq> None \<and> err \<noteq> Some GInvalidInstanceID then (OInst err, tc, ic)
         else (OInst err, tc, InstanceCache_Set now (instance_key i u) (err = None) ic))"
| "cc_conclude now (RRefresh k tick) r tc ic =
     (case ValidateToken_return r of
        Panics \<Rightarrow> (OPanic, tc, ic)
      | Returns answer \<Rightarrow> (ODone, TokenCache_revalidate (\<lambda>_. answer) tick k tc, ic))"
| "cc_conclude now (RRefreshI k tick) r tc ic =
     (ODone, tc, InstanceCache_revalidate (\<lambda>_. ValidateInstance_return r) tick k ic)"

section \<open>Steps\<close>

record cc_state =
  cc_group :: "sf_answer sf_group"
  cc_tokens :: TokenCache
  cc_insts :: InstanceCache
  cc_pc :: "nat \<Rightarrow> cc_pc"
  cc_users :: "(string \<times> SignedInUser) set"
  cc_valid :: "string set"
  cc_down :: "string set"

definition init_cc :: "int \<Rightarrow> cc_state" where
  "init_cc ttl =
     \<lparr>cc_group = new_group, cc_tokens = \<lparr>tc_items = Map.empty, tc_cacheTTL = ttl\<rparr>,
      cc_insts = \<lparr>ic_items = Map.empty, ic_cacheTTL = ttl\<rparr>, cc_pc = (\<lambda>_. PIdle), cc_users = {}, cc_valid = {}, cc_down = {}\<rparr>"

text \<open>A refresh is started for an entry that is past its lifetime at the tick.\<close>

fun may_call :: "cc_req \<Rightarrow> cc_state \<Rightarrow> bool" where
  "may_call (RRefresh k tick) s =
     (case tc_items (cc_tokens s) k of None \<Rightarrow> False | Some v \<Rightarrow> tr_retrieved v < tick - tc_cacheTTL (cc_tokens s))"
| "may_call (RRefreshI k tick) s =
     (case ic_items (cc_insts s) k of None \<Rightarrow> False | Some v \<Rightarrow> ir_retrieved v < tick - ic_cacheTTL (cc_insts s))"
| "may_call (RCheck i u) s = False"
| "may_call (RAuth k) s = True"

text \<open>\<^verbatim>\<open>GrafanaComInstanceAuth.Auth\<close> asks about an instance only when the name is a number.\<close>

definition instance_id :: "string \<Rightarrow> bool" where
  "instance_id i \<longleftrightarrow> (case parse_int 64 i of Inl e \<Rightarrow> False | Inr n \<Rightarrow> True)"

abbreviation at :: "cc_state \<Rightarrow> nat \<Rightarrow> cc_pc \<Rightarrow> cc_state" where
  "at s t p \<equiv> s\<lparr>cc_pc := (cc_pc s)(t := p)\<rparr>"

inductive cc_internal :: "gcom_config \<Rightarrow> string \<Rightarrow> cc_state \<Rightarrow> cc_state \<Rightarrow> bool" for cfg adminKey where
  look: "cc_pc s t = PGet req \<Longrightarrow> cc_lookup adminKey now req (cc_tokens s) (cc_insts s) = (p, tc, ic) \<Longrightarrow>
    cc_internal cfg adminKey s (at (s\<lparr>cc_tokens := tc, cc_insts := ic\<rparr>) t p)"
| join: "cc_pc s t = PDo req \<Longrightarrow> Do_enter (req_key req) (cc_group s) = (Join c, g) \<Longrightarrow>
    cc_internal cfg adminKey s (at (s\<lparr>cc_group := g\<rparr>) t (PWait req c))"
| lead: "cc_pc s t = PDo req \<Longrightarrow> Do_enter (req_key req) (cc_group s) = (Lead c, g) \<Longrightarrow>
    cc_internal cfg adminKey s (at (s\<lparr>cc_group := g\<rparr>) t (PExec req c))"
| exec: "cc_pc s t = PExec req c \<Longrightarrow> req_fn cfg w req = r \<Longrightarrow>
    cc_internal cfg adminKey s
      (at (s\<lparr>cc_group := doCall_done c r (cc_group s),
             cc_users := cc_users s \<union> {(req_key req, u) | u. r = AUser u},
             cc_valid := cc_valid s \<union> {k. k = req_key req \<and> r = ANil \<and> instance_vouched cfg w k},
             cc_down := cc_down s \<union> {k. k = req_key req \<and> r = ANil \<and> instance_down w k}\<rparr>) t (PDelete req c))"
| del: "cc_pc s t = PDelete req c \<Longrightarrow> doCall_delete (req_key req) (cc_group s) = g \<Longrightarrow>
    Do_return c g = Some (r, shared) \<Longrightarrow> cc_internal cfg adminKey s (at (s\<lparr>cc_group := g\<rparr>) t (PGot req r))"
| wait: "cc_pc s t = PWait req c \<Longrightarrow> Do_wait c (cc_group s) = Some (r, shared) \<Longrightarrow>
    cc_internal cfg adminKey s (at s t (PGot req r))"
| conclude: "cc_pc s t = PGot req r \<Longrightarrow> cc_conclude now req r (cc_tokens s) (cc_insts s) = (out, tc, ic) \<Longrightarrow>
    cc_internal cfg adminKey s (at (s\<lparr>cc_tokens := tc, cc_insts := ic\<rparr>) t (PRet req out))"

inductive cc_step :: "gcom_config \<Rightarrow> string \<Rightarrow> cc_state \<Rightarrow> cc_state \<Rightarrow> bool" for cfg adminKey where
  call: "cc_pc s t = PIdle \<Longrightarrow> may_call req s \<Longrightarrow> cc_step cfg adminKey s (at s t (PGet req))"
| check: "cc_pc s t = PRet (RAuth k) (OUser (Inr u)) \<Longrightarrow> k \<noteq> adminKey \<Longrightarrow> instance_id i \<Longrightarrow>
    cc_step cfg adminKey s (at s t (PGet (RCheck i u)))"
| clear: "cc_step cfg adminKey s (s\<lparr>cc_tokens := TokenCache_Clear (cc_tokens s)\<rparr>)"
| clearI: "cc_step cfg adminKey s (s\<lparr>cc_insts := InstanceCache_Clear (cc_insts s)\<rparr>)"
| internal: "cc_internal cfg adminKey s s' \<Longrightarrow> cc_step cfg adminKey s s'"

inductive cc_reach :: "gcom_config \<Rightarrow> string \<Rightarrow> int \<Rightarrow> cc_state \<Rightarrow> bool" for cfg adminKey ttl where
  start: "cc_reach cfg adminKey ttl (init_cc ttl)"
| step: "cc_reach cfg adminKey ttl s \<Longrightarrow> cc_step cfg adminKey s s' \<Longrightarrow> cc_reach cfg adminKey ttl s'"

section \<open>Invariant\<close>

fun leads :: "cc_pc \<Rightarrow> (string \<times> nat) option" where
  "leads (PExec req c) = Some (req_key req, c)"
| "leads (PDelete req c) = Some (req_key req, c)"
| "leads _ = None"

text \<open>The keys that \<^verbatim>\<open>validateInstance\<close> has answered with nil.\<close>

abbreviation nil_keys :: "cc_state \<Rightarrow> string set" where
  "nil_keys s \<equiv> cc_valid s \<union> cc_down s"

text \<open>An answer for a key was given by grafana.com, to the one question or the other.\<close>

definition good :: "cc_state \<Rightarrow> string \<Rightarrow> sf_answer \<Rightarrow> bool" where
  "good s k r = (case r of AFail e \<Rightarrow> True | AUser u \<Rightarrow> (k, u) \<in> cc_users s | ANil \<Rightarrow> k \<in> nil_keys s)"

definition vouched_keys :: "cc_state \<Rightarrow> string set" where
  "vouched_keys s = nil_keys s \<union> fst ` cc_users s"

fun out_good :: "string \<Rightarrow> cc_state \<Rightarrow> cc_req \<Rightarrow> cc_out \<Rightarrow> bool" where
  "out_good adminKey s req OPanic = (req_key req \<in> nil_keys s)"
| "out_good adminKey s (RAuth k) (OUser (Inr u)) = (k = adminKey \<and> u = admin_user k \<or> (k, u) \<in> cc_users s)"
| "out_good adminKey s (RCheck i u) (OInst None) = (instance_key i u \<in> vouched_keys s)"
| "out_good adminKey s _ _ = True"

definition executing :: "cc_state \<Rightarrow> string \<Rightarrow> nat \<Rightarrow> bool" where
  "executing s k c \<longleftrightarrow> (\<exists>t req. cc_pc s t = PExec req c \<and> req_key req = k)"

fun pc_good :: "string \<Rightarrow> cc_state \<Rightarrow> cc_pc \<Rightarrow> bool" where
  "pc_good adminKey s (PExec req c) = (call_result (cc_group s) c = None)"
| "pc_good adminKey s (PDelete req c) = (\<exists>r. call_result (cc_group s) c = Some r \<and> good s (req_key req) r)"
| "pc_good adminKey s (PWait req c) =
     (known_call (cc_group s) c \<and>
      (case call_result (cc_group s) c of
         None \<Rightarrow> executing s (req_key req) c | Some r \<Rightarrow> good s (req_key req) r))"
| "pc_good adminKey s (PGot req r) = good s (req_key req) r"
| "pc_good adminKey s (PRet req out) = out_good adminKey s req out"
| "pc_good adminKey s _ = True"

fun call_of :: "cc_pc \<Rightarrow> nat option" where
  "call_of (PExec req c) = Some c"
| "call_of (PDelete req c) = Some c"
| "call_of (PWait req c) = Some c"
| "call_of _ = None"

definition cached_insts :: "InstanceCache \<Rightarrow> string set" where
  "cached_insts c = {k. \<exists>v. ic_items c k = Some v \<and> ir_valid v}"

definition cc_inv :: "gcom_config \<Rightarrow> string \<Rightarrow> cc_state \<Rightarrow> bool" where
  "cc_inv cfg adminKey s \<longleftrightarrow>
     sf.covered (cc_group s) (leads \<circ> cc_pc s) \<and>
     (\<forall>t. pc_good adminKey s (cc_pc s t)) \<and>
     cached_users (cc_tokens s) \<subseteq> cc_users s \<and>
     cached_insts (cc_insts s) \<subseteq> vouched_keys s \<and>
     (\<forall>(k, u) \<in> cc_users s. user_allowed cfg k u)"

lemma cc_invD:
  assumes "cc_inv cfg adminKey s"
  shows "sf.covered (cc_group s) (leads \<circ> cc_pc s)" and "pc_good adminKey s (cc_pc s t)"
    and "cached_users (cc_tokens s) \<subseteq> cc_users s" and "cached_insts (cc_insts s) \<subseteq> vouched_keys s"
    and "\<forall>(k, u) \<in> cc_users s. user_allowed cfg k u"
  using assms by (simp_all add: cc_inv_def)

subsection \<open>What a request may leave in the caches\<close>

fun is_instance_req :: "cc_req \<Rightarrow> bool" where
  "is_instance_req (RCheck i u) = True"
| "is_instance_req (RRefreshI k tick) = True"
| "is_instance_req _ = False"

lemma req_fn_ANil:
  "req_fn cfg w req = ANil \<Longrightarrow> is_instance_req req \<and> (instance_vouched cfg w (req_key req) \<or> instance_down w (req_key req))"
  by (cases req) (auto simp: token_fn_def instance_fn_ANil split: sum.splits)

lemma req_fn_user: "req_fn cfg w req = AUser u \<Longrightarrow> user_allowed cfg (req_key req) u"
  by (cases req)
    (auto simp: token_fn_def instance_fn_def split: sum.splits option.splits dest: validateToken_allowed)

lemma cached_users_Get: "TokenCache_Get now k c = (x, c') \<Longrightarrow> cached_users c' = cached_users c"
  by (auto simp: TokenCache_Get_def cached_users_def split: option.splits if_splits)

lemma cached_insts_Get: "InstanceCache_Get now k c = (x, c') \<Longrightarrow> cached_insts c' = cached_insts c"
  by (auto simp: InstanceCache_Get_def cached_insts_def split: option.splits if_splits)

lemma Get_cached_user: "TokenCache_Get now k c = ((Some u, b), c') \<Longrightarrow> (k, u) \<in> cached_users c"
  by (auto simp: TokenCache_Get_def cached_users_def split: option.splits)

lemma Get_cached_inst: "InstanceCache_Get now k c = ((True, b), c') \<Longrightarrow> k \<in> cached_insts c"
  by (auto simp: InstanceCache_Get_def cached_insts_def split: option.splits)

lemma cached_insts_Set: "cached_insts (InstanceCache_Set now k v c) \<subseteq> cached_insts c \<union> (if v then {k} else {})"
  by (auto simp: cached_insts_def InstanceCache_Set_def)

lemma cached_insts_revalidate:
  "cached_insts (InstanceCache_revalidate ask now k c) \<subseteq> cached_insts c \<union> (if ask k = None then {k} else {})"
  by (auto simp: cached_insts_def InstanceCache_revalidate_def Let_def split: option.splits if_splits)

lemma good_inst: "good s k r \<Longrightarrow> ValidateInstance_return r = None \<Longrightarrow> k \<in> vouched_keys s"
  by (force simp: good_def ValidateInstance_return_def vouched_keys_def split: sf_answer.splits)

lemma cc_lookup_spec:
  assumes "cc_lookup adminKey now req tc ic = (p, tc', ic')"
    and "cached_users tc \<subseteq> cc_users s" and "cached_insts ic \<subseteq> vouched_keys s"
  shows "cached_users tc' = cached_users tc" and "cached_insts ic' = cached_insts ic"
    and "leads p = None" and "pc_good adminKey s p"
proof -
  show "cached_users tc' = cached_users tc" "cached_insts ic' = cached_insts ic" "leads p = None"
    using assms(1)
    by (cases req; auto simp: cached_users_Get cached_insts_Get split: if_splits prod.splits option.splits bool.splits)+
  show "pc_good adminKey s p"
    using assms
    by (cases req; auto split: if_splits prod.splits option.splits bool.splits
        dest!: Get_cached_user Get_cached_inst)+
qed

lemma cc_conclude_spec:
  assumes "cc_conclude now req r tc ic = (out, tc', ic')" and "good s (req_key req) r"
    and "cached_users tc \<subseteq> cc_users s" and "cached_insts ic \<subseteq> vouched_keys s"
  shows "cached_users tc' \<subseteq> cc_users s" and "cached_insts ic' \<subseteq> vouched_keys s" and "out_good adminKey s req out"
proof -
  show "cached_users tc' \<subseteq> cc_users s"
  proof (cases req)
    case (RAuth k)
    then show ?thesis
      using assms cached_users_Set [of now k _ tc]
      by (fastforce simp: ValidateToken_return_def good_def split: sf_answer.splits if_splits)
  next
    case (RRefresh k tick)
    then show ?thesis
      using assms cached_users_revalidate [of _ tick k tc]
      by (fastforce simp: ValidateToken_return_def good_def answers_def split: sf_answer.splits)
  qed (use assms in \<open>auto simp: Let_def split: if_splits\<close>)
  show "cached_insts ic' \<subseteq> vouched_keys s"
  proof (cases req)
    case (RCheck i u)
    then show ?thesis
      using assms good_inst [OF assms(2)] cached_insts_Set [of now "instance_key i u" "ValidateInstance_return r = None" ic]
      by (auto simp: Let_def split: if_splits)
  next
    case (RRefreshI k tick)
    then show ?thesis
      using assms good_inst [OF assms(2)] cached_insts_revalidate [of "\<lambda>_. ValidateInstance_return r" tick k ic]
      by (auto split: if_splits)
  qed (use assms in \<open>auto split: go_return.splits sum.splits if_splits\<close>)
  show "out_good adminKey s req out"
    using assms good_inst [OF assms(2)]
    by (cases req) (auto simp: ValidateToken_return_def good_def Let_def split: sf_answer.splits if_splits)
qed

subsection \<open>Preservation\<close>

lemma good_mono:
  "cc_users s \<subseteq> cc_users s' \<Longrightarrow> nil_keys s \<subseteq> nil_keys s' \<Longrightarrow> good s k r \<Longrightarrow> good s' k r"
  by (auto simp: good_def split: sf_answer.splits)

lemma out_good_mono:
  assumes "cc_users s \<subseteq> cc_users s'" and "nil_keys s \<subseteq> nil_keys s'" and "out_good adminKey s req out"
  shows "out_good adminKey s' req out"
  using assms by (cases "(adminKey, s, req, out)" rule: out_good.cases) (auto simp: vouched_keys_def)

text \<open>Another goroutine's assertion survives a step that leaves the calls it points to alone.\<close>

lemma pc_good_frame:
  assumes "pc_good adminKey s p" and "cc_users s \<subseteq> cc_users s'" and "nil_keys s \<subseteq> nil_keys s'"
    and "\<And>c. known_call (cc_group s) c \<Longrightarrow> known_call (cc_group s') c"
    and "\<And>c. call_of p = Some c \<Longrightarrow> call_result (cc_group s') c = call_result (cc_group s) c"
    and "\<And>k c. call_of p = Some c \<Longrightarrow> executing s k c \<Longrightarrow> executing s' k c"
  shows "pc_good adminKey s' p"
proof (cases p)
  case (PWait req c)
  then show ?thesis
    using assms(1,4-6) good_mono [OF assms(2,3)] by (auto split: option.splits)
qed (use assms(1,5) good_mono [OF assms(2,3)] out_good_mono [OF assms(2,3)] in auto)

lemma leads_at: "leads \<circ> (pc(t := p)) = (leads \<circ> pc)(t := leads p)"
  by auto

lemma executing_at:
  assumes "executing s k c" and "cc_pc s' = (cc_pc s)(t := p)" and "\<And>req. cc_pc s t \<noteq> PExec req c"
  shows "executing s' k c"
proof -
  from assms(1) obtain t' req where "cc_pc s t' = PExec req c" "req_key req = k" by (auto simp: executing_def)
  moreover from this assms(3) have "t' \<noteq> t" by auto
  ultimately show ?thesis using assms(2) by (auto simp: executing_def)
qed

lemma cc_inv_caches:
  assumes inv: "cc_inv cfg adminKey s" and "cached_users tc \<subseteq> cc_users s" and "cached_insts ic \<subseteq> vouched_keys s"
  shows "cc_inv cfg adminKey (s\<lparr>cc_tokens := tc, cc_insts := ic\<rparr>)" (is "cc_inv _ _ ?s'")
proof -
  have "pc_good adminKey ?s' (cc_pc ?s' t)" for t
    by (rule pc_good_frame [where s = s]) (use cc_invD(2) [OF inv] in \<open>auto simp: executing_def\<close>)
  then show ?thesis
    using cc_invD(1,5) [OF inv] assms(2,3) by (simp add: cc_inv_def vouched_keys_def)
qed

lemma cc_inv_pc:
  assumes inv: "cc_inv cfg adminKey s" and old: "leads (cc_pc s t) = None" and new: "leads p = None"
    and p: "pc_good adminKey s p"
  shows "cc_inv cfg adminKey (at s t p)" (is "cc_inv _ _ ?s'")
proof -
  have "leads \<circ> cc_pc ?s' = leads \<circ> cc_pc s" using old new by (auto simp: fun_eq_iff)
  moreover have frame: "pc_good adminKey ?s' q" if "pc_good adminKey s q" for q
    by (rule pc_good_frame [OF that]) (use old in \<open>auto intro: executing_at [where t = t and p = p]\<close>)
  moreover have "pc_good adminKey ?s' (cc_pc ?s' t')" for t'
    using frame [OF p] frame [OF cc_invD(2) [OF inv, of t']] by simp
  ultimately show ?thesis
    using cc_invD(1,3-5) [OF inv] by (simp add: cc_inv_def vouched_keys_def)
qed

lemma cc_inv_quiet:
  assumes inv: "cc_inv cfg adminKey s" and old: "leads (cc_pc s t) = None" and new: "leads p = None"
    and p: "pc_good adminKey s p" and "cached_users tc \<subseteq> cc_users s" and "cached_insts ic \<subseteq> vouched_keys s"
  shows "cc_inv cfg adminKey (at (s\<lparr>cc_tokens := tc, cc_insts := ic\<rparr>) t p)"
proof -
  have "at (s\<lparr>cc_tokens := tc, cc_insts := ic\<rparr>) t p = (at s t p)\<lparr>cc_tokens := tc, cc_insts := ic\<rparr>" by simp
  moreover have "cc_inv cfg adminKey ((at s t p)\<lparr>cc_tokens := tc, cc_insts := ic\<rparr>)"
    by (rule cc_inv_caches [OF cc_inv_pc [OF inv old new p]]) (use assms(5,6) in \<open>simp_all add: vouched_keys_def\<close>)
  ultimately show ?thesis by (simp only:)
qed

lemma cc_inv_join:
  assumes inv: "cc_inv cfg adminKey s" and pc: "cc_pc s t = PDo req"
    and enter: "Do_enter (req_key req) (cc_group s) = (Join c, g)"
  shows "cc_inv cfg adminKey (at (s\<lparr>cc_group := g\<rparr>) t (PWait req c))" (is "cc_inv _ _ ?s'")
proof -
  note g = sf.join [OF enter]
  have cov: "sf.covered (cc_group s) (leads \<circ> cc_pc s)" by (rule cc_invD(1) [OF inv])
  obtain t' where t': "leads (cc_pc s t') = Some (req_key req, c)"
    using sf.flying_led [OF cov, of "req_key req" c] g by auto
  have "pc_good adminKey s (PWait req c)"
    using t' cc_invD(2) [OF inv, of t'] sf.flying_known [OF cov] g
    by (cases "cc_pc s t'") (auto simp: executing_def)
  moreover have frame: "pc_good adminKey ?s' q" if "pc_good adminKey s q" for q
    by (rule pc_good_frame [OF that]) (use pc g in \<open>auto intro: executing_at [where t = t and p = "PWait req c"]\<close>)
  ultimately have "pc_good adminKey ?s' (cc_pc ?s' q)" for q
    using cc_invD(2) [OF inv, of q] by (simp del: pc_good.simps)
  moreover have "leads \<circ> cc_pc ?s' = leads \<circ> cc_pc s" using pc by (auto simp: fun_eq_iff)
  ultimately show ?thesis
    using cc_invD(3-5) [OF inv] sf.covered_join [OF cov enter] by (simp add: cc_inv_def vouched_keys_def)
qed

lemma cc_inv_lead:
  assumes inv: "cc_inv cfg adminKey s" and pc: "cc_pc s t = PDo req"
    and enter: "Do_enter (req_key req) (cc_group s) = (Lead c, g)"
  shows "cc_inv cfg adminKey (at (s\<lparr>cc_group := g\<rparr>) t (PExec req c))" (is "cc_inv _ _ ?s'")
proof -
  note g = sf.lead [OF enter]
  have cov: "sf.covered (cc_group s) (leads \<circ> cc_pc s)" by (rule cc_invD(1) [OF inv])
  have old: "c' \<noteq> c" if "call_of (cc_pc s t') = Some c'" for t' c'
    using that cc_invD(2) [OF inv, of t'] sf.leads_known [OF cov, of t'] g by (cases "cc_pc s t'") auto
  have "pc_good adminKey ?s' (cc_pc s t')" for t'
    by (rule pc_good_frame [OF cc_invD(2) [OF inv]])
      (use pc g old in \<open>auto intro: executing_at [where t = t and p = "PExec req c"]\<close>)
  then have "pc_good adminKey ?s' (cc_pc ?s' t')" for t'
    using g by simp
  then show ?thesis
    using cc_invD(3-5) [OF inv] sf.covered_lead [OF cov enter, of t] pc
    by (simp add: cc_inv_def vouched_keys_def leads_at)
qed

lemma cc_inv_exec:
  assumes inv: "cc_inv cfg adminKey s" and pc: "cc_pc s t = PExec req c" and r: "req_fn cfg w req = r"
  shows "cc_inv cfg adminKey
    (at (s\<lparr>cc_group := doCall_done c r (cc_group s),
           cc_users := cc_users s \<union> {(req_key req, u) | u. r = AUser u},
           cc_valid := cc_valid s \<union> {k. k = req_key req \<and> r = ANil \<and> instance_vouched cfg w k},
             cc_down := cc_down s \<union> {k. k = req_key req \<and> r = ANil \<and> instance_down w k}\<rparr>) t (PDelete req c))" (is "cc_inv _ _ ?s'")
proof -
  have cov: "sf.covered (cc_group s) (leads \<circ> cc_pc s)" by (rule cc_invD(1) [OF inv])
  have new: "good ?s' (req_key req) r"
    using req_fn_ANil [of cfg w req] r by (auto simp: good_def split: sf_answer.splits)
  have none: "call_result (cc_group s) c = None" using cc_invD(2) [OF inv, of t] pc by simp
  have mine: "t' = t" if "leads (cc_pc s t') = Some (k, c)" for t' k
    using sf.one_call [OF cov, of t' k c t] that pc by simp
  have "pc_good adminKey ?s' (cc_pc s t')" if other: "t' \<noteq> t" for t'
  proof (cases "call_of (cc_pc s t') = Some c")
    case True
    then obtain req' where wait: "cc_pc s t' = PWait req' c"
      using mine [of t'] other by (cases "cc_pc s t'") auto
    then have "executing s (req_key req') c" using cc_invD(2) [OF inv, of t'] none by simp
    then obtain t2 req2 where "cc_pc s t2 = PExec req2 c" "req_key req2 = req_key req'" by (auto simp: executing_def)
    then have "req_key req' = req_key req" using mine [of t2] pc by simp
    then show ?thesis using wait new cc_invD(2) [OF inv, of t'] by (simp add: sf.finish)
  next
    case False
    show ?thesis
      by (rule pc_good_frame [OF cc_invD(2) [OF inv]])
        (use pc False in \<open>auto simp: sf.finish intro: executing_at [where t = t and p = "PDelete req c"]\<close>)
  qed
  then have "pc_good adminKey ?s' (cc_pc ?s' t')" for t' using new by (simp add: sf.finish)
  moreover have "leads \<circ> cc_pc ?s' = leads \<circ> cc_pc s" using pc by (auto simp: fun_eq_iff)
  moreover have "user_allowed cfg k u" if "(k, u) \<in> cc_users ?s'" for k u
    using that cc_invD(5) [OF inv] req_fn_user r by auto
  ultimately show ?thesis
    using cc_invD(3,4) [OF inv] sf.covered_finish [OF cov, of c r] by (auto simp: cc_inv_def vouched_keys_def)
qed

lemma cc_inv_del:
  assumes inv: "cc_inv cfg adminKey s" and pc: "cc_pc s t = PDelete req c"
    and g: "doCall_delete (req_key req) (cc_group s) = g" and ret: "Do_return c g = Some (r, shared)"
  shows "cc_inv cfg adminKey (at (s\<lparr>cc_group := g\<rparr>) t (PGot req r))" (is "cc_inv _ _ ?s'")
proof -
  have cov: "sf.covered (cc_group s) (leads \<circ> cc_pc s)" by (rule cc_invD(1) [OF inv])
  have "pc_good adminKey s (PGot req r)"
    using cc_invD(2) [OF inv, of t] pc Do_return_result [OF ret] by (simp add: g [symmetric] sf.remove)
  moreover have frame: "pc_good adminKey ?s' q" if "pc_good adminKey s q" for q
    by (rule pc_good_frame [OF that])
      (use pc g in \<open>auto simp: sf.remove intro: executing_at [where t = t and p = "PGot req r"]\<close>)
  ultimately have "pc_good adminKey ?s' (cc_pc ?s' q)" for q
    using cc_invD(2) [OF inv, of q] by (simp del: pc_good.simps)
  then show ?thesis
    using cc_invD(3-5) [OF inv] sf.covered_remove [OF cov, of t "req_key req" c] pc g
    by (simp add: cc_inv_def vouched_keys_def leads_at)
qed

lemma cc_internal_inv: "cc_internal cfg adminKey s s' \<Longrightarrow> cc_inv cfg adminKey s \<Longrightarrow> cc_inv cfg adminKey s'"
proof (induction rule: cc_internal.induct)
  case (look s t req now p tc ic)
  note spec = cc_lookup_spec [OF look.hyps(2) cc_invD(3,4) [OF look.prems]]
  show ?case
    by (rule cc_inv_quiet [OF look.prems]) (use look.hyps(1) spec cc_invD(3,4) [OF look.prems] in simp_all)
next
  case (wait s t req c r shared)
  have "good s (req_key req) r"
    using cc_invD(2) [OF wait.prems, of t] wait.hyps by (simp add: Do_wait_result)
  then show ?case
    using cc_inv_quiet [OF wait.prems, of t "PGot req r" "cc_tokens s" "cc_insts s"] wait.hyps(1) cc_invD(3,4) [OF wait.prems]
    by simp
next
  case (conclude s t req r now out tc ic)
  have "good s (req_key req) r" using cc_invD(2) [OF conclude.prems, of t] conclude.hyps(1) by simp
  note spec = cc_conclude_spec [OF conclude.hyps(2) this cc_invD(3,4) [OF conclude.prems]]
  show ?case by (rule cc_inv_quiet [OF conclude.prems]) (use conclude.hyps(1) spec in simp_all)
next
  case (join s t req c g)
  show ?case by (rule cc_inv_join [OF join.prems join.hyps])
next
  case (lead s t req c g)
  show ?case by (rule cc_inv_lead [OF lead.prems lead.hyps])
next
  case (exec s t req c w r)
  show ?case by (rule cc_inv_exec [OF exec.prems exec.hyps])
next
  case (del s t req c g r shared)
  show ?case by (rule cc_inv_del [OF del.prems del.hyps])
qed

lemma cc_step_inv: "cc_step cfg adminKey s s' \<Longrightarrow> cc_inv cfg adminKey s \<Longrightarrow> cc_inv cfg adminKey s'"
proof (induction rule: cc_step.induct)
  case (call s t req)
  then show ?case by (simp add: cc_inv_pc)
next
  case (check s t k u i)
  then show ?case by (simp add: cc_inv_pc)
next
  case (clear s)
  then show ?case
    using cc_inv_caches [OF clear, of "TokenCache_Clear (cc_tokens s)" "cc_insts s"] cc_invD(4) [OF clear]
    by (simp add: TokenCache_Clear_def cached_users_def)
next
  case (clearI s)
  then show ?case
    using cc_inv_caches [OF clearI, of "cc_tokens s" "InstanceCache_Clear (cc_insts s)"] cc_invD(3) [OF clearI]
    by (simp add: InstanceCache_Clear_def cached_insts_def)
next
  case (internal s s')
  then show ?case by (rule cc_internal_inv)
qed

lemma cc_inv_init: "cc_inv cfg adminKey (init_cc ttl)"
  by (simp add: cc_inv_def init_cc_def cached_users_def cached_insts_def comp_def covered_new)

section \<open>Progress\<close>

fun rank :: "cc_pc \<Rightarrow> nat" where
  "rank (PGet req) = 5"
| "rank (PDo req) = 4"
| "rank (PExec req c) = 3"
| "rank (PDelete req c) = 2"
| "rank (PWait req c) = 2"
| "rank (PGot req r) = 1"
| "rank _ = 0"

definition work :: "cc_state \<Rightarrow> nat" where
  "work s = (\<Sum>t | cc_pc s t \<noteq> PIdle. rank (cc_pc s t))"

lemma cc_internal_moves:
  "cc_internal cfg adminKey s s' \<Longrightarrow>
   \<exists>t p. cc_pc s' = (cc_pc s)(t := p) \<and> cc_pc s t \<noteq> PIdle \<and> p \<noteq> PIdle \<and> rank p < rank (cc_pc s t)"
proof (induction rule: cc_internal.induct)
  case (look s t req now p tc ic)
  then have "p \<noteq> PIdle \<and> rank p < 5"
    by (cases req) (auto split: if_splits prod.splits option.splits bool.splits)
  then show ?case using look.hyps(1) by (auto intro!: exI [of _ t])
qed force+

lemma cc_internal_work:
  assumes "cc_internal cfg adminKey s s'" and fin: "finite {t. cc_pc s t \<noteq> PIdle}"
  shows "work s' < work s" and "finite {t. cc_pc s' t \<noteq> PIdle}"
proof -
  obtain t p where pc: "cc_pc s' = (cc_pc s)(t := p)" and act: "cc_pc s t \<noteq> PIdle" "p \<noteq> PIdle"
    and less: "rank p < rank (cc_pc s t)"
    using cc_internal_moves [OF assms(1)] by blast
  have same: "{x. cc_pc s' x \<noteq> PIdle} = {x. cc_pc s x \<noteq> PIdle}" using pc act by auto
  show "finite {t. cc_pc s' t \<noteq> PIdle}" using same fin by simp
  have "(\<Sum>x | cc_pc s x \<noteq> PIdle. rank (cc_pc s' x)) < (\<Sum>x | cc_pc s x \<noteq> PIdle. rank (cc_pc s x))"
    by (rule sum_strict_mono_ex1 [OF fin]) (use pc act less in auto)
  then show "work s' < work s" by (simp add: work_def same)
qed

lemma cc_step_finite: "cc_step cfg adminKey s s' \<Longrightarrow> finite {t. cc_pc s t \<noteq> PIdle} \<Longrightarrow> finite {t. cc_pc s' t \<noteq> PIdle}"
proof (induction rule: cc_step.induct)
  case (call s t req)
  have "{x. cc_pc (at s t (PGet req)) x \<noteq> PIdle} \<subseteq> insert t {x. cc_pc s x \<noteq> PIdle}" by auto
  then show ?case by (rule finite_subset) (simp add: call.prems)
next
  case (check s t k u i)
  have "{x. cc_pc (at s t (PGet (RCheck i u))) x \<noteq> PIdle} \<subseteq> insert t {x. cc_pc s x \<noteq> PIdle}" by auto
  then show ?case by (rule finite_subset) (simp add: check.prems)
qed (auto dest: cc_internal_work(2))

text \<open>A goroutine that has not returned can move, or the goroutine it waits for can.\<close>

lemma cc_progress:
  assumes inv: "cc_inv cfg adminKey s" and active: "rank (cc_pc s t) > 0"
  shows "\<exists>s'. cc_internal cfg adminKey s s'"
proof (cases "cc_pc s t")
  case (PGet req)
  then show ?thesis
    by (metis cc_internal.look prod_cases3)
next
  case (PDo req)
  then show ?thesis
    by (metis cc_internal.join cc_internal.lead sf_entry.exhaust surj_pair)
next
  case (PExec req c)
  then show ?thesis by (blast intro: cc_internal.exec)
next
  case (PDelete req c)
  then obtain r where "call_result (doCall_delete (req_key req) (cc_group s)) c = Some r"
    using cc_invD(2) [OF inv, of t] by (auto simp: sf.remove)
  from Do_return_done [OF this] PDelete show ?thesis by (blast intro: cc_internal.del)
next
  case (PWait req c)
  show ?thesis
  proof (cases "call_result (cc_group s) c")
    case None
    then obtain t' req' where "cc_pc s t' = PExec req' c"
      using cc_invD(2) [OF inv, of t] PWait by (auto simp: executing_def)
    then show ?thesis by (blast intro: cc_internal.exec)
  next
    case (Some r)
    then have "Do_wait c (cc_group s) = Some (r, True)" by (simp add: Do_wait_result)
    then show ?thesis using PWait by (blast intro: cc_internal.wait)
  qed
next
  case (PGot req r)
  then show ?thesis
    by (metis cc_internal.conclude prod_cases3)
qed (use active in auto)

text \<open>
  The machine may be called for ever, but its own steps end. It is at its end when every request has been answered.
\<close>

interpretation cc: serving_system "cc_step cfg adminKey" "cc_reach cfg adminKey ttl" "init_cc ttl"
  "\<lambda>s. cc_inv cfg adminKey s \<and> finite {t. cc_pc s t \<noteq> PIdle}" "cc_internal cfg adminKey" work "\<lambda>s. \<forall>t. rank (cc_pc s t) = 0"
  for cfg adminKey ttl
proof
  show "(cc_step cfg adminKey)\<^sup>*\<^sup>* (init_cc ttl) s" if "cc_reach cfg adminKey ttl s" for s
    using that by induction (auto intro: rtranclp.rtrancl_into_rtrancl)
  show "cc_inv cfg adminKey (init_cc ttl) \<and> finite {t. cc_pc (init_cc ttl) t \<noteq> PIdle}"
    by (simp add: cc_inv_init) (simp add: init_cc_def)
qed (auto intro: cc_reach.intros cc_step_inv cc_step_finite cc_step.internal cc_internal_work(1) cc_progress)

lemma cc_reach_inv: "cc_reach cfg adminKey ttl s \<Longrightarrow> cc_inv cfg adminKey s"
  using cc.reached_inv by blast

section \<open>An uncontended call\<close>

text \<open>From \<^verbatim>\<open>singlef.Do\<close> on, with nobody else asking for the key: the goroutine asks itself.\<close>

lemma alone_Do:
  assumes pc: "cc_pc s t = PDo req" and free: "g_m (cc_group s) (req_key req) = None"
    and fn: "req_fn cfg w req = r" and out: "cc_conclude now req r (cc_tokens s) (cc_insts s) = (out, tc, ic)"
  shows "\<exists>s'. (cc_internal cfg adminKey)\<^sup>*\<^sup>* s s' \<and> cc_pc s' t = PRet req out \<and> cc_tokens s' = tc \<and> cc_insts s' = ic \<and>
    g_m (cc_group s') = g_m (cc_group s) \<and> (\<forall>t'. t' \<noteq> t \<longrightarrow> cc_pc s' t' = cc_pc s t')"
proof -
  let ?k = "req_key req"
  obtain c g where enter: "Do_enter ?k (cc_group s) = (Lead c, g)" using free by (simp add: Do_enter_def Let_def)
  let ?s1 = "at (s\<lparr>cc_group := g\<rparr>) t (PExec req c)"
  have 1: "cc_internal cfg adminKey s ?s1" by (rule cc_internal.lead [OF pc enter])
  define s2 where "s2 =
      at (?s1\<lparr>cc_group := doCall_done c r (cc_group ?s1),
             cc_users := cc_users ?s1 \<union> {(?k, u) | u. r = AUser u},
             cc_valid := cc_valid ?s1 \<union> {k. k = ?k \<and> r = ANil \<and> instance_vouched cfg w k},
             cc_down := cc_down ?s1 \<union> {k. k = ?k \<and> r = ANil \<and> instance_down w k}\<rparr>) t (PDelete req c)"
  have 2: "cc_internal cfg adminKey ?s1 s2"
    unfolding s2_def by (rule cc_internal.exec [OF _ fn]) simp
  obtain sh where ret: "Do_return c (doCall_delete ?k (cc_group s2)) = Some (r, sh)"
    using Do_return_done [of "doCall_delete ?k (cc_group s2)" c r] by (auto simp: s2_def sf.remove sf.finish)
  define s3 where "s3 = at (s2\<lparr>cc_group := doCall_delete ?k (cc_group s2)\<rparr>) t (PGot req r)"
  have 3: "cc_internal cfg adminKey s2 s3"
    unfolding s3_def by (rule cc_internal.del [OF _ HOL.refl ret]) (simp add: s2_def)
  have 4: "cc_internal cfg adminKey s3 (at (s3\<lparr>cc_tokens := tc, cc_insts := ic\<rparr>) t (PRet req out))"
    by (rule cc_internal.conclude [of _ _ _ r now]) (use out in \<open>simp_all add: s3_def s2_def\<close>)
  have "g_m (cc_group s3) = g_m (cc_group s)"
    using sf.lead [OF enter] free by (auto simp: s3_def s2_def sf.remove sf.finish)
  moreover have "(cc_internal cfg adminKey)\<^sup>*\<^sup>* s (at (s3\<lparr>cc_tokens := tc, cc_insts := ic\<rparr>) t (PRet req out))"
    using 1 2 3 4 by (meson rtranclp.rtrancl_into_rtrancl rtranclp.rtrancl_refl)
  ultimately show ?thesis
    by (intro exI [of _ "at (s3\<lparr>cc_tokens := tc, cc_insts := ic\<rparr>) t (PRet req out)"]) (simp add: s3_def s2_def)
qed

lemma alone_cached:
  assumes pc: "cc_pc s t = PGet req" and look: "cc_lookup adminKey now req (cc_tokens s) (cc_insts s) = (PRet req out, tc, ic)"
  shows "\<exists>s'. (cc_internal cfg adminKey)\<^sup>*\<^sup>* s s' \<and> cc_pc s' t = PRet req out \<and> cc_tokens s' = tc \<and> cc_insts s' = ic \<and>
    g_m (cc_group s') = g_m (cc_group s) \<and> (\<forall>t'. t' \<noteq> t \<longrightarrow> cc_pc s' t' = cc_pc s t')"
  by (intro exI [of _ "at (s\<lparr>cc_tokens := tc, cc_insts := ic\<rparr>) t (PRet req out)"])
    (use cc_internal.look [OF pc look, of cfg] in auto)

lemma alone_ask:
  assumes pc: "cc_pc s t = PGet req" and free: "g_m (cc_group s) (req_key req) = None"
    and look: "cc_lookup adminKey now req (cc_tokens s) (cc_insts s) = (PDo req, tc, ic)"
    and fn: "req_fn cfg w req = r" and out: "cc_conclude now req r tc ic = (out, tc', ic')"
  shows "\<exists>s'. (cc_internal cfg adminKey)\<^sup>*\<^sup>* s s' \<and> cc_pc s' t = PRet req out \<and> cc_tokens s' = tc' \<and> cc_insts s' = ic' \<and>
    g_m (cc_group s') = g_m (cc_group s) \<and> (\<forall>t'. t' \<noteq> t \<longrightarrow> cc_pc s' t' = cc_pc s t')"
proof -
  let ?s = "at (s\<lparr>cc_tokens := tc, cc_insts := ic\<rparr>) t (PDo req)"
  have "cc_internal cfg adminKey s ?s" by (rule cc_internal.look [OF pc look])
  moreover obtain s' where "(cc_internal cfg adminKey)\<^sup>*\<^sup>* ?s s'" "cc_pc s' t = PRet req out" "cc_tokens s' = tc'"
      "cc_insts s' = ic'" "g_m (cc_group s') = g_m (cc_group ?s)" "\<forall>t'. t' \<noteq> t \<longrightarrow> cc_pc s' t' = cc_pc ?s t'"
    using alone_Do [of ?s t req cfg w r now out tc' ic' adminKey] free fn out by auto
  ultimately show ?thesis by (auto intro: converse_rtranclp_into_rtranclp)
qed

text \<open>What the sequential operations of \<^verbatim>\<open>auth/gcom\<close> make of a request.\<close>

fun sequential ::
  "gcom_config \<Rightarrow> gcom_world \<Rightarrow> string \<Rightarrow> int \<Rightarrow> cc_req \<Rightarrow> TokenCache \<Rightarrow> InstanceCache \<Rightarrow> cc_out \<times> TokenCache \<times> InstanceCache" where
  "sequential cfg w adminKey now (RAuth k) tc ic =
     (let (r, tc) = gcom_Auth (validateToken cfg (w_post w) (w_user w)) now adminKey k tc in (OUser r, tc, ic))"
| "sequential cfg w adminKey now (RCheck i u) tc ic =
     (let (err, ic) = CheckInstance (\<lambda>k. fst (Gcom.ValidateInstance cfg (w_get w) (w_instance w) k)) now u i ic
      in (OInst err, tc, ic))"
| "sequential cfg w adminKey now (RRefresh k tick) tc ic =
     (ODone, TokenCache_revalidate (validateToken cfg (w_post w) (w_user w)) tick k tc, ic)"
| "sequential cfg w adminKey now (RRefreshI k tick) tc ic =
     (ODone, tc, InstanceCache_revalidate (\<lambda>k. fst (Gcom.ValidateInstance cfg (w_get w) (w_instance w) k)) tick k ic)"

lemma cc_lookup_cases:
  assumes "cc_lookup adminKey now req tc ic = (p, tc', ic')"
  obtains (cached) out where "p = PRet req out" | (ask) "p = PDo req"
  using assms by (cases req) (auto split: if_splits prod.splits option.splits bool.splits)

lemma ValidateToken_return_fn:
  "ValidateToken_return (token_fn cfg w k) = Returns (validateToken cfg (w_post w) (w_user w) k)"
  by (simp add: ValidateToken_return_def token_fn_def split: sum.splits)

lemma ValidateInstance_return_fn:
  "ValidateInstance_return (instance_fn cfg w k) = fst (Gcom.ValidateInstance cfg (w_get w) (w_instance w) k)"
  by (simp add: ValidateInstance_return_def instance_fn_def split: option.splits)

lemma sequential_cached:
  assumes "cc_lookup adminKey now req tc ic = (PRet req out, tc', ic')"
  shows "sequential cfg w adminKey now req tc ic = (out, tc', ic')"
  using assms
  by (cases req)
    (auto simp: gcom_Auth_def CheckInstance_def Let_def split: if_splits prod.splits option.splits bool.splits)

lemma sequential_asked:
  assumes "cc_lookup adminKey now req tc ic = (PDo req, tc', ic')"
  shows "sequential cfg w adminKey now req tc ic = cc_conclude now req (req_fn cfg w req) tc' ic'"
proof (cases req)
  case (RAuth k)
  then show ?thesis
    using assms
    by (auto simp: gcom_Auth_def ValidateToken_return_fn split: if_splits prod.splits option.splits bool.splits sum.splits)
next
  case (RCheck i u)
  then show ?thesis
    using assms
    by (auto simp: CheckInstance_def ValidateInstance_return_fn Let_def split: if_splits prod.splits option.splits bool.splits)
next
  case (RRefresh k tick)
  then show ?thesis
    using assms by (simp add: ValidateToken_return_fn TokenCache_revalidate_def)
next
  case (RRefreshI k tick)
  then show ?thesis
    using assms by (simp add: ValidateInstance_return_fn InstanceCache_revalidate_def)
qed

section \<open>Keys of instances\<close>

fun req_of :: "cc_pc \<Rightarrow> cc_req option" where
  "req_of PIdle = None"
| "req_of (PGet req) = Some req"
| "req_of (PDo req) = Some req"
| "req_of (PExec req c) = Some req"
| "req_of (PDelete req c) = Some req"
| "req_of (PWait req c) = Some req"
| "req_of (PGot req r) = Some req"
| "req_of (PRet req out) = Some req"

text \<open>The spelling of the keys of instances: a number, a colon, and a token that is not the admin key.\<close>

definition inst_key :: "string \<Rightarrow> string \<Rightarrow> bool" where
  "inst_key adminKey k \<longleftrightarrow> (\<exists>i j. k = i @ CHR '':'' # j \<and> instance_id i \<and> j \<noteq> adminKey)"

definition sendable :: "string \<Rightarrow> bool" where
  "sendable k \<longleftrightarrow> ValidHeaderFieldValue (''Bearer '' @ splitn2 CHR '':'' k ! 1)"

lemma instance_id_no_colon: "instance_id i \<Longrightarrow> CHR '':'' \<notin> set i"
proof -
  have digits: "parse_digits m n cs = Inr v \<Longrightarrow> CHR '':'' \<notin> set cs" for m n v cs
    by (induction m n cs rule: parse_digits.induct) (auto simp: digit_val_def Let_def split: option.splits if_splits)
  have uint: "parse_uint b cs = Inr v \<Longrightarrow> CHR '':'' \<notin> set cs" for b v cs
    by (cases "cs = []") (auto simp: parse_uint_def simp del: parse_digits.simps dest: digits)
  show "instance_id i \<Longrightarrow> CHR '':'' \<notin> set i"
    by (cases i) (auto simp: instance_id_def parse_int_def Let_def split: sum.splits if_splits dest: uint)
qed

lemma sendable_key: "instance_id i \<Longrightarrow> sendable (i @ CHR '':'' # j) \<longleftrightarrow> ValidHeaderFieldValue (''Bearer '' @ j)"
  by (simp add: sendable_def instance_id_no_colon)

text \<open>The admin key is answered before the group is reached.\<close>

fun admin_ok :: "string \<Rightarrow> cc_pc \<Rightarrow> bool" where
  "admin_ok adminKey (PGet req) = True"
| "admin_ok adminKey (PRet req out) = (out = OPanic \<longrightarrow> req \<noteq> RAuth adminKey)"
| "admin_ok adminKey pc = (req_of pc \<noteq> Some (RAuth adminKey))"

definition colon_inv :: "string \<Rightarrow> cc_state \<Rightarrow> bool" where
  "colon_inv adminKey s \<longleftrightarrow>
     (\<forall>k \<in> nil_keys s. inst_key adminKey k \<and> sendable k) \<and> (\<forall>k \<in> dom (ic_items (cc_insts s)). inst_key adminKey k) \<and>
     (\<forall>t req. req_of (cc_pc s t) = Some req \<longrightarrow> is_instance_req req \<longrightarrow> inst_key adminKey (req_key req)) \<and>
     (\<forall>t. admin_ok adminKey (cc_pc s t))"

lemma cc_lookup_keys:
  assumes "cc_lookup adminKey now req tc ic = (p, tc', ic')"
  shows "dom (ic_items ic') = dom (ic_items ic)" and "req_of p = Some req" and "admin_ok adminKey p"
  using assms
  by (cases req; auto simp: InstanceCache_Get_def split: if_splits prod.splits option.splits bool.splits)+

lemma cc_conclude_keys:
  assumes "cc_conclude now req r tc ic = (out, tc', ic')"
  shows "dom (ic_items ic') \<subseteq> dom (ic_items ic) \<union> (if is_instance_req req then {req_key req} else {})"
  using assms
  by (cases req)
    (auto simp: InstanceCache_Set_def InstanceCache_revalidate_def Let_def
      split: if_splits option.splits go_return.splits sum.splits)

lemma colon_step:
  assumes "colon_inv adminKey s" and "nil_keys s' \<subseteq> nil_keys s \<union> {k \<in> K. sendable k}" and "dom (ic_items (cc_insts s')) \<subseteq> dom (ic_items (cc_insts s)) \<union> K"
    and "\<forall>k \<in> K. inst_key adminKey k" and "cc_pc s' = (cc_pc s)(t := p)" and "admin_ok adminKey p"
    and "\<And>req. req_of p = Some req \<Longrightarrow> is_instance_req req \<Longrightarrow> inst_key adminKey (req_key req)"
  shows "colon_inv adminKey s'"
  unfolding colon_inv_def
proof (intro conjI)
  show "\<forall>k \<in> nil_keys s'. inst_key adminKey k \<and> sendable k" "\<forall>k \<in> dom (ic_items (cc_insts s')). inst_key adminKey k"
    using assms(1-4) unfolding colon_inv_def by blast+
qed (use assms(1,5-) in \<open>auto simp: colon_inv_def\<close>)

lemma colon_invD:
  assumes "colon_inv adminKey s"
  shows "k \<in> nil_keys s \<Longrightarrow> inst_key adminKey k \<and> sendable k" and "k \<in> dom (ic_items (cc_insts s)) \<Longrightarrow> inst_key adminKey k"
    and "req_of (cc_pc s t) = Some req \<Longrightarrow> is_instance_req req \<Longrightarrow> inst_key adminKey (req_key req)"
    and "admin_ok adminKey (cc_pc s t)"
  using assms unfolding colon_inv_def by blast+

lemma cc_internal_colon:
  "cc_internal cfg adminKey s s' \<Longrightarrow> colon_inv adminKey s \<Longrightarrow> colon_inv adminKey s'"
proof (induction rule: cc_internal.induct)
  case (look s t req now p tc ic)
  note keys = cc_lookup_keys [OF look.hyps(2)]
  show ?case
    by (rule colon_step [OF look.prems, of _ "{}" t p]) (use keys look colon_invD(3) [OF look.prems, of t] in simp_all)
next
  case (conclude s t req r now out tc ic)
  have "out = OPanic \<longrightarrow> req \<noteq> RAuth adminKey" using colon_invD(4) [OF conclude.prems, of t] conclude.hyps(1) by simp
  then show ?case
    by (intro colon_step [OF conclude.prems, of _ "if is_instance_req req then {req_key req} else {}" t "PRet req out"])
      (use conclude colon_invD(3) [OF conclude.prems, of t] cc_conclude_keys [OF conclude.hyps(2)] in \<open>simp_all split: if_splits\<close>)
next
  case (exec s t req c w r)
  show ?case
    by (rule colon_step [OF exec.prems, of _ "{k. k = req_key req \<and> r = ANil}" t "PDelete req c"])
      (use exec req_fn_ANil [of cfg w req] colon_invD(3,4) [OF exec.prems, of t] in
        \<open>auto simp: sendable_def instance_vouched_def instance_down_def Let_def\<close>)
next
  case (join s t req c g)
  show ?case
    by (rule colon_step [OF join.prems, of _ "{}" t "PWait req c"]) (use join.hyps(1) colon_invD(3,4) [OF join.prems, of t] in simp_all)
next
  case (lead s t req c g)
  show ?case
    by (rule colon_step [OF lead.prems, of _ "{}" t "PExec req c"]) (use lead.hyps(1) colon_invD(3,4) [OF lead.prems, of t] in simp_all)
next
  case (del s t req c g r shared)
  show ?case
    by (rule colon_step [OF del.prems, of _ "{}" t "PGot req r"]) (use del.hyps(1) colon_invD(3,4) [OF del.prems, of t] in simp_all)
next
  case (wait s t req c r shared)
  show ?case
    by (rule colon_step [OF wait.prems, of _ "{}" t "PGot req r"]) (use wait.hyps(1) colon_invD(3,4) [OF wait.prems, of t] in simp_all)
qed

text \<open>A user who was authenticated carries the key.\<close>

lemma authenticated_key:
  assumes "cc_reach cfg adminKey ttl s" and "cc_pc s t = PRet (RAuth k) (OUser (Inr u))" and "k \<noteq> adminKey"
  shows "(k, u) \<in> cc_users s" and "user_allowed cfg k u" and "si_key u = k"
proof -
  show user: "(k, u) \<in> cc_users s" using cc_invD(2) [OF cc_reach_inv [OF assms(1)], of t] assms(2,3) by simp
  then show "user_allowed cfg k u" using cc_invD(5) [OF cc_reach_inv [OF assms(1)]] by blast
  then show "si_key u = k" by (simp add: user_allowed_def)
qed

lemma cc_reach_colon: "cc_reach cfg adminKey ttl s \<Longrightarrow> colon_inv adminKey s"
proof (induction rule: cc_reach.induct)
  case start
  then show ?case by (simp add: colon_inv_def init_cc_def)
next
  case (step s s')
  from step.hyps(2) show ?case
  proof (cases rule: cc_step.cases)
    case (call t req)
    have "inst_key adminKey (req_key req)" if "is_instance_req req"
      using that call(3) colon_invD(2) [OF step.IH] by (cases req) (auto split: option.splits)
    then show ?thesis
      by (intro colon_step [OF step.IH, of _ "{}" t "PGet req"]) (use call in simp_all)
  next
    case (check t k u i)
    have "inst_key adminKey (instance_key i u)"
      using authenticated_key(3) [OF step.hyps(1) check(2,3)] check(3,4) by (auto simp: inst_key_def instance_key_def)
    then show ?thesis
      by (intro colon_step [OF step.IH, of _ "{}" t "PGet (RCheck i u)"]) (use check in auto)
  next
    case clear
    then show ?thesis using step.IH by (simp add: colon_inv_def)
  next
    case clearI
    then show ?thesis using step.IH by (simp add: colon_inv_def InstanceCache_Clear_def)
  next
    case internal
    then show ?thesis by (rule cc_internal_colon [OF _ step.IH])
  qed
qed

section \<open>A run in which a request panics\<close>

text \<open>
  A grafana.com that fails, which counts as valid for every instance, and one that accepts every token but fails
  when it is asked about instances.
\<close>

definition failing_world :: gcom_world where
  "failing_world =
     \<lparr>w_post = (\<lambda>_. None), w_user = (\<lambda>_. None),
      w_get = (\<lambda>_ _. Some \<lparr>hr_StatusCode = 503, hr_Body = [], hr_readErr = False\<rparr>), w_instance = (\<lambda>_. None)\<rparr>"

definition some_user :: "gcom_config \<Rightarrow> string \<Rightarrow> SignedInUser" where
  "some_user cfg j =
     \<lparr>si_Id = 1, si_OrgName = ''o'', si_OrgId = (case gc_validOrgIds cfg of [] \<Rightarrow> 1 | i # _ \<Rightarrow> i), si_OrgSlug = ''o'', si_Name = ''n'',
      si_Role = ROLE_EDITOR, si_IsAdmin = False, si_key = j\<rparr>"

definition token_world :: "gcom_config \<Rightarrow> gcom_world" where
  "token_world cfg =
     failing_world\<lparr>w_post := (\<lambda>_. Some \<lparr>hr_StatusCode = 200, hr_Body = [], hr_readErr = False\<rparr>), w_user := (\<lambda>_. Some (some_user cfg []))\<rparr>"

lemma token_world_user: "token_fn cfg (token_world cfg) j = AUser (some_user cfg j)"
  by (simp add: token_fn_def token_world_def validateToken_def some_user_def list_ex_iff split: list.splits)

lemma token_world_instance:
  "CHR '':'' \<notin> set i \<Longrightarrow> ValidHeaderFieldValue (''Bearer '' @ si_key u) \<Longrightarrow> instance_fn cfg (token_world cfg) (instance_key i u) = ANil"
  by (simp add: instance_fn_ANil instance_down_def token_world_def failing_world_def instance_key_def)

lemmas cc_reach_run = cc.reached_run

text \<open>The steps of a goroutine that misses the caches and enters the group.\<close>

lemma miss:
  assumes "cc_pc s t = PGet req" and "cc_lookup adminKey now req (cc_tokens s) (cc_insts s) = (PDo req, cc_tokens s, cc_insts s)"
  shows "cc_internal cfg adminKey s (at s t (PDo req))"
  using cc_internal.look [OF assms] by simp

lemma enter_lead:
  assumes "cc_pc s t = PDo req" and "g_m (cc_group s) (req_key req) = None"
  shows "\<exists>c g. cc_internal cfg adminKey s (at (s\<lparr>cc_group := g\<rparr>) t (PExec req c)) \<and> g_m g (req_key req) = Some c"
proof -
  obtain c g where enter: "Do_enter (req_key req) (cc_group s) = (Lead c, g)" using assms(2) by (simp add: Do_enter_def Let_def)
  have "g_m g (req_key req) = Some c" using sf.lead [OF enter] by simp
  then show ?thesis using cc_internal.lead [OF assms(1) enter] by blast
qed

lemma enter_join:
  assumes "cc_pc s t = PDo req" and "g_m (cc_group s) (req_key req) = Some c"
  shows "\<exists>g. cc_internal cfg adminKey s (at (s\<lparr>cc_group := g\<rparr>) t (PWait req c))"
proof -
  obtain g where enter: "Do_enter (req_key req) (cc_group s) = (Join c, g)" using assms(2) by (simp add: Do_enter_def)
  show ?thesis using cc_internal.join [OF assms(1) enter] by blast
qed

text \<open>Goroutine 0 has authenticated the token \<open>j\<close>.\<close>

lemma authenticated_run:
  assumes "j \<noteq> adminKey"
  shows "\<exists>s. cc_reach cfg adminKey ttl s \<and> cc_pc s 0 = PRet (RAuth j) (OUser (Inr (some_user cfg j))) \<and> cc_pc s 1 = PIdle \<and>
    g_m (cc_group s) = Map.empty \<and> ic_items (cc_insts s) = Map.empty \<and> dom (tc_items (cc_tokens s)) = {j}"
proof -
  let ?i = "at (init_cc ttl) 0 (PGet (RAuth j))" and ?u = "some_user cfg j"
  let ?tc = "TokenCache_Set 0 j (Some ?u) (cc_tokens ?i)"
  have "cc_reach cfg adminKey ttl ?i"
    by (rule cc_reach.step [OF cc_reach.start cc_step.call]) (simp_all add: init_cc_def)
  moreover obtain s where run: "(cc_internal cfg adminKey)\<^sup>*\<^sup>* ?i s" and s: "cc_pc s 0 = PRet (RAuth j) (OUser (Inr ?u))"
      "cc_tokens s = ?tc" "cc_insts s = cc_insts ?i" "g_m (cc_group s) = g_m (cc_group ?i)" "\<forall>t'. t' \<noteq> 0 \<longrightarrow> cc_pc s t' = cc_pc ?i t'"
    using alone_ask [of ?i 0 "RAuth j" adminKey 0 "cc_tokens ?i" "cc_insts ?i" cfg "token_world cfg" "AUser ?u" "OUser (Inr ?u)" ?tc "cc_insts ?i"] assms
    by (auto simp: init_cc_def new_group_def TokenCache_Get_def token_world_user ValidateToken_return_def)
  moreover have "cc_reach cfg adminKey ttl s"
    using cc_reach_run [OF mono_rtranclp [rule_format, OF cc_step.internal run]] calculation(1) by blast
  moreover have "cc_pc s 1 = PIdle" using s(5) [rule_format, of 1] by (simp add: init_cc_def)
  ultimately show ?thesis
    by (intro exI [of _ s]) (simp add: init_cc_def new_group_def TokenCache_Set_def)
qed

text \<open>Goroutine 0 is asking about an instance; goroutine 1 waits for it with a token of the same spelling.\<close>

lemma shared_run:
  assumes "instance_id i" and "j \<noteq> adminKey" and k: "k = i @ CHR '':'' # j" and "k \<noteq> adminKey"
  shows "\<exists>s c. cc_reach cfg adminKey ttl s \<and> cc_pc s 0 = PExec (RCheck i (some_user cfg j)) c \<and> cc_pc s 1 = PWait (RAuth k) c"
proof -
  let ?u = "some_user cfg j" and ?step = "cc_step cfg adminKey"
  let ?r0 = "RCheck i ?u" and ?r1 = "RAuth k"
  have key: "instance_key i ?u = k" by (simp add: instance_key_def some_user_def k)
  obtain s where reach: "cc_reach cfg adminKey ttl s" and s: "cc_pc s 0 = PRet (RAuth j) (OUser (Inr ?u))" "cc_pc s 1 = PIdle"
      "g_m (cc_group s) = Map.empty" "ic_items (cc_insts s) = Map.empty" "dom (tc_items (cc_tokens s)) = {j}"
    using authenticated_run [OF assms(2)] by blast
  have "j \<noteq> k" using k by (metis append_Cons append_assoc length_append less_add_same_cancel2 list.size(4) neq_iff trans_less_add2 zero_less_Suc)
  then have none: "tc_items (cc_tokens s) k = None" using s(5) by (metis domIff singletonD)
  let ?s1 = "at s 0 (PGet ?r0)" and ?s2 = "at s 0 (PDo ?r0)"
  have 1: "?step s ?s1" by (rule cc_step.check [OF s(1) assms(2,1)])
  have 2: "cc_internal cfg adminKey ?s1 ?s2"
    using miss [of ?s1 0 ?r0 adminKey 0 cfg] s(4) by (simp add: InstanceCache_Get_def)
  obtain c g where 3: "cc_internal cfg adminKey ?s2 (at (?s2\<lparr>cc_group := g\<rparr>) 0 (PExec ?r0 c))" and g: "g_m g k = Some c"
    using enter_lead [of ?s2 0 ?r0 cfg adminKey] s(3) key by auto
  let ?s3 = "at (?s2\<lparr>cc_group := g\<rparr>) 0 (PExec ?r0 c)"
  have 4: "?step ?s3 (at ?s3 1 (PGet ?r1))" by (rule cc_step.call) (use s(2) in simp_all)
  have 5: "cc_internal cfg adminKey (at ?s3 1 (PGet ?r1)) (at ?s3 1 (PDo ?r1))"
    using miss [of "at ?s3 1 (PGet ?r1)" 1 ?r1 adminKey 0 cfg] none assms(4) by (simp add: TokenCache_Get_def)
  obtain g' where 6: "cc_internal cfg adminKey (at ?s3 1 (PDo ?r1)) (at ((at ?s3 1 (PDo ?r1))\<lparr>cc_group := g'\<rparr>) 1 (PWait ?r1 c))"
    using enter_join [of "at ?s3 1 (PDo ?r1)" 1 ?r1 c cfg adminKey] g by auto
  have "cc_reach cfg adminKey ttl (at ((at ?s3 1 (PDo ?r1))\<lparr>cc_group := g'\<rparr>) 1 (PWait ?r1 c))"
    using reach 1 2 3 4 5 6 by (meson cc_reach.step cc_step.internal)
  then show ?thesis by (intro exI conjI) (assumption, simp_all)
qed

lemma panic_run:
  assumes "instance_id i" and "CHR '':'' \<notin> set i" and "j \<noteq> adminKey" and k: "k = i @ CHR '':'' # j" and "k \<noteq> adminKey"
    and "ValidHeaderFieldValue (''Bearer '' @ j)"
  shows "\<exists>s. cc_reach cfg adminKey ttl s \<and> cc_pc s 1 = PRet (RAuth k) OPanic"
proof -
  let ?u = "some_user cfg j" and ?w = "token_world cfg"
  let ?r0 = "RCheck i ?u" and ?r1 = "RAuth k"
  obtain s c where reach: "cc_reach cfg adminKey ttl s" and s: "cc_pc s 0 = PExec ?r0 c" "cc_pc s 1 = PWait ?r1 c"
    using shared_run [OF assms(1,3,4,5)] by blast
  have fn: "req_fn cfg ?w ?r0 = ANil" using token_world_instance [OF assms(2), of ?u] assms(6) by (simp add: some_user_def)
  obtain s1 where 1: "cc_internal cfg adminKey s s1" and s1: "cc_pc s1 1 = PWait ?r1 c" "cc_group s1 = doCall_done c ANil (cc_group s)"
    using cc_internal.exec [OF s(1) fn, of adminKey] s(2) by simp
  have 2: "cc_internal cfg adminKey s1 (at s1 1 (PGot ?r1 ANil))"
    by (rule cc_internal.wait [OF s1(1), of _ True]) (simp add: s1(2) Do_wait_def doCall_done_def)
  have 3: "cc_internal cfg adminKey (at s1 1 (PGot ?r1 ANil)) (at (at s1 1 (PGot ?r1 ANil)) 1 (PRet ?r1 OPanic))"
    using cc_internal.conclude [of "at s1 1 (PGot ?r1 ANil)" 1 ?r1 ANil 0 OPanic "cc_tokens s1" "cc_insts s1" cfg adminKey]
    by (simp add: ValidateToken_return_def)
  have "cc_reach cfg adminKey ttl (at (at s1 1 (PGot ?r1 ANil)) 1 (PRet ?r1 OPanic))"
    using reach 1 2 3 by (meson cc_reach.step cc_step.internal)
  then show ?thesis by (intro exI conjI) (assumption, simp)
qed

section \<open>Properties\<close>

text \<open>
  C11. Soundness under concurrency: whatever the interleaving of requests, refreshes and clears, a key other
  than the admin key is accepted as a user, or cached as one, only if grafana.com returned that user for that very key,
  and the user is of an allowed organisation and no admin. An instance is accepted for a token, or cached as valid, only
  if grafana.com vouched for the two, or accepted the string made of the two as a token, or was asked about the
  two and failed with a status of 500 or more, which the code takes for a yes.
\<close>

theorem concurrent_answers_vouched:
  assumes "cc_reach cfg adminKey ttl s"
  shows "(cc_pc s t = PRet (RAuth k) (OUser (Inr u)) \<longrightarrow> k \<noteq> adminKey \<longrightarrow> (k, u) \<in> cc_users s \<and> user_allowed cfg k u) \<and>
    (tc_items (cc_tokens s) k = Some v \<longrightarrow> tr_User v = Some u \<longrightarrow> (k, u) \<in> cc_users s \<and> user_allowed cfg k u) \<and>
    (cc_pc s t = PRet (RCheck i u) (OInst None) \<longrightarrow>
      instance_key i u \<in> cc_valid s \<or> instance_key i u \<in> cc_down s \<or> (\<exists>u'. (instance_key i u, u') \<in> cc_users s)) \<and>
    (ic_items (cc_insts s) k = Some v' \<longrightarrow> ir_valid v' \<longrightarrow>
      k \<in> cc_valid s \<or> k \<in> cc_down s \<or> (\<exists>u'. (k, u') \<in> cc_users s))"
proof -
  note inv = cc_reach_inv [OF assms]
  have "tc_items (cc_tokens s) k = Some v \<longrightarrow> tr_User v = Some u \<longrightarrow> (k, u) \<in> cc_users s"
    using cc_invD(3) [OF inv] by (auto simp: cached_users_def)
  moreover have "ic_items (cc_insts s) k = Some v' \<longrightarrow> ir_valid v' \<longrightarrow> k \<in> vouched_keys s"
    using cc_invD(4) [OF inv] by (auto simp: cached_insts_def)
  ultimately show ?thesis
    using cc_invD(2) [OF inv, of t] cc_invD(5) [OF inv] by (auto simp: vouched_keys_def)
qed

theorem concurrent_answers_vouched_witness:
  "\<exists>s. cc_reach sample_config ''admin'' 5 s \<and> cc_pc s 0 = PRet (RAuth ''k'') (OUser (Inr (some_user sample_config ''k''))) \<and>
    (''k'', some_user sample_config ''k'') \<in> cc_users s \<and> user_allowed sample_config ''k'' (some_user sample_config ''k'')"
proof -
  obtain s where "cc_reach sample_config ''admin'' 5 s" and "cc_pc s 0 = PRet (RAuth ''k'') (OUser (Inr (some_user sample_config ''k'')))"
    using authenticated_run [of "''k''" "''admin''" sample_config 5] by auto
  then show ?thesis using concurrent_answers_vouched [of sample_config "''admin''" 5 s 0 "''k''" "some_user sample_config ''k''"] by auto
qed

text \<open>
  C12. Duplicate suppression: while a goroutine is asking grafana.com about a key it is the only one that does, and
  everybody else who comes to the group with that key joins its call and waits: a step takes it nowhere but
  to the wait for that very call, which it does not leave while the question is under way.
\<close>

theorem one_question_per_key:
  assumes "cc_reach cfg adminKey ttl s" and "cc_pc s t = PExec req c" and "req_key req = req_key req'"
  shows "(cc_pc s t' = PExec req' c' \<longrightarrow> t' = t \<and> c' = c) \<and>
    (cc_pc s t' = PDo req' \<and> cc_internal cfg adminKey s s' \<longrightarrow> cc_pc s' t' \<in> {PDo req', PWait req' c}) \<and>
    (cc_pc s t' = PWait req' c' \<and> cc_pc s t = PExec req c' \<and> cc_internal cfg adminKey s s' \<longrightarrow> cc_pc s' t' = PWait req' c')"
proof -
  note inv = cc_reach_inv [OF assms(1)]
  have cov: "sf.covered (cc_group s) (leads \<circ> cc_pc s)" by (rule cc_invD(1) [OF inv])
  have flying: "g_m (cc_group s) (req_key req') = Some c"
    using sf.leads_flying [OF cov, of t "req_key req" c] assms(2,3) by simp
  have none: "call_result (cc_group s) c = None" using cc_invD(2) [OF inv, of t] assms(2) by simp
  have "t' = t \<and> c' = c" if "cc_pc s t' = PExec req' c'"
    using sf.one_leader [OF cov, of t "req_key req" c t' c'] that assms(2,3) by auto
  moreover have "cc_pc s' t' \<in> {PDo req', PWait req' c}" if "cc_pc s t' = PDo req'" "cc_internal cfg adminKey s s'"
    using that(2,1) flying by cases (auto simp: Do_enter_def)
  moreover have "cc_pc s' t' = PWait req' c" if "cc_pc s t' = PWait req' c" "cc_internal cfg adminKey s s'"
    using that(2,1) none by cases (auto simp: Do_wait_result)
  ultimately show ?thesis using assms(2) by auto
qed

theorem one_question_per_key_witness:
  "\<exists>s c. cc_reach sample_config ''admin'' 5 s \<and> cc_pc s 0 = PExec (RCheck ''5'' (some_user sample_config ''k'')) c \<and>
    cc_pc s 1 = PWait (RAuth ''5:k'') c \<and>
    (\<forall>s'. cc_internal sample_config ''admin'' s s' \<longrightarrow> cc_pc s' 1 = PWait (RAuth ''5:k'') c)"
proof -
  have "instance_id ''5''" by (simp add: instance_id_def parse_int_def parse_uint_def digit_val_def)
  from shared_run [OF this, of "''k''" "''admin''" "''5:k''" sample_config 5]
  obtain s c where s: "cc_reach sample_config ''admin'' 5 s" "cc_pc s 0 = PExec (RCheck ''5'' (some_user sample_config ''k'')) c"
      "cc_pc s 1 = PWait (RAuth ''5:k'') c" by auto
  then show ?thesis
    using one_question_per_key [OF s(1,2), of "RAuth ''5:k''" 1 c] by (auto simp: instance_key_def some_user_def)
qed

text \<open>
  C13. No request waits for ever: from every reachable state the goroutines make a bounded number of steps of
  their own, and when none can make another, every request has been answered. A question to grafana.com
  counts as one step, since the HTTP client gives up after two seconds.
\<close>

theorem every_request_is_answered:
  assumes "cc_reach cfg adminKey ttl s"
  shows "\<exists>N. \<forall>n s'. (cc_internal cfg adminKey ^^ n) s s' \<longrightarrow>
    n \<le> N \<and> ((\<forall>s''. \<not> cc_internal cfg adminKey s' s'') \<longrightarrow>
      (\<forall>t. cc_pc s' t = PIdle \<or> (\<exists>req out. cc_pc s' t = PRet req out)))"
proof (intro exI [of _ "work s"] allI impI conjI)
  fix n s' assume run: "(cc_internal cfg adminKey ^^ n) s s'"
  show "n \<le> work s" using cc.own.moves_bounded [OF run cc.reached_inv [OF assms]] by simp
  fix t assume "\<forall>s''. \<not> cc_internal cfg adminKey s' s''"
  then have "rank (cc_pc s' t) = 0" using cc.own.stuck_final [OF run cc.reached_inv [OF assms]] by blast
  then show "cc_pc s' t = PIdle \<or> (\<exists>req out. cc_pc s' t = PRet req out)" by (cases "cc_pc s' t") auto
qed

theorem every_request_is_answered_witness:
  "\<exists>N s. rank (cc_pc s 1) > 0 \<and> (\<forall>n s'. (cc_internal sample_config ''admin'' ^^ n) s s' \<longrightarrow>
    n \<le> N \<and> ((\<forall>s''. \<not> cc_internal sample_config ''admin'' s' s'') \<longrightarrow>
      (\<forall>t. cc_pc s' t = PIdle \<or> (\<exists>req out. cc_pc s' t = PRet req out))))"
proof -
  have "instance_id ''5''" by (simp add: instance_id_def parse_int_def parse_uint_def digit_val_def)
  from shared_run [OF this, of "''k''" "''admin''" "''5:k''" sample_config 5]
  obtain s c where "cc_reach sample_config ''admin'' 5 s" and wait: "cc_pc s 1 = PWait (RAuth ''5:k'') c" by auto
  moreover from wait have "rank (cc_pc s 1) > 0" by simp
  ultimately show ?thesis using every_request_is_answered [of sample_config "''admin''" 5 s] by blast
qed

text \<open>
  C14. Without contention the group is transparent: a goroutine that finds no call in flight for its key
  ends, running on its own, with the answer and the caches of the sequential operation.
\<close>

theorem uncontended_call_is_sequential:
  assumes "cc_pc s t = PGet req" and "g_m (cc_group s) (req_key req) = None"
  shows "\<exists>s' out. (cc_internal cfg adminKey)\<^sup>*\<^sup>* s s' \<and> cc_pc s' t = PRet req out \<and>
    sequential cfg w adminKey now req (cc_tokens s) (cc_insts s) = (out, cc_tokens s', cc_insts s') \<and>
    g_m (cc_group s') = g_m (cc_group s)"
proof -
  obtain p tc ic where look: "cc_lookup adminKey now req (cc_tokens s) (cc_insts s) = (p, tc, ic)" by (metis prod_cases3)
  then show ?thesis
  proof (cases rule: cc_lookup_cases)
    case (cached out)
    then show ?thesis
      using alone_cached [OF assms(1), of adminKey now out tc ic cfg] sequential_cached look by fastforce
  next
    case ask
    obtain out tc' ic' where out: "cc_conclude now req (req_fn cfg w req) tc ic = (out, tc', ic')" by (metis prod_cases3)
    from alone_ask [OF assms look [unfolded ask] HOL.refl out] sequential_asked [OF look [unfolded ask]] out
    show ?thesis by fastforce
  qed
qed

theorem uncontended_call_is_sequential_witness:
  "\<exists>s' out. (cc_internal sample_config ''admin'')\<^sup>*\<^sup>* (at (init_cc 5) 0 (PGet (RAuth ''k''))) s' \<and>
    cc_pc s' 0 = PRet (RAuth ''k'') out \<and>
    sequential sample_config failing_world ''admin'' 0 (RAuth ''k'') (cc_tokens (init_cc 5)) (cc_insts (init_cc 5)) =
      (out, cc_tokens s', cc_insts s') \<and> out = OUser (Inl GOther)"
  using uncontended_call_is_sequential [of "at (init_cc 5) 0 (PGet (RAuth ''k''))" 0 "RAuth ''k''" sample_config "''admin''" failing_world 0]
  by (auto simp: init_cc_def new_group_def gcom_Auth_def TokenCache_Get_def validateToken_def failing_world_def)

text \<open>
  C15. Tokens and instances share one group: the check of a token can panic, on the type assertion of
  \<^verbatim>\<open>ValidateToken\<close>, in some run exactly when the token is not the admin key and is spelled like the key of an
  instance: a number, a colon, and a token that is not the admin key and that can be sent in a header. For then a client
  who uses that last token may have asked about the instance, and the check joins the question.
\<close>

theorem token_check_can_panic_iff:
  "(\<exists>s t. cc_reach cfg adminKey ttl s \<and> cc_pc s t = PRet (RAuth k) OPanic) \<longleftrightarrow>
   k \<noteq> adminKey \<and> (\<exists>i j. k = i @ CHR '':'' # j \<and> instance_id i \<and> j \<noteq> adminKey \<and> ValidHeaderFieldValue (''Bearer '' @ j))"
proof
  assume "\<exists>s t. cc_reach cfg adminKey ttl s \<and> cc_pc s t = PRet (RAuth k) OPanic"
  then obtain s t where reach: "cc_reach cfg adminKey ttl s" and pc: "cc_pc s t = PRet (RAuth k) OPanic" by blast
  have "k \<in> nil_keys s" using cc_invD(2) [OF cc_reach_inv [OF reach], of t] pc by simp
  then have "inst_key adminKey k \<and> sendable k" by (rule colon_invD(1) [OF cc_reach_colon [OF reach]])
  moreover have "k \<noteq> adminKey" using colon_invD(4) [OF cc_reach_colon [OF reach], of t] pc by auto
  ultimately show "k \<noteq> adminKey \<and> (\<exists>i j. k = i @ CHR '':'' # j \<and> instance_id i \<and> j \<noteq> adminKey \<and> ValidHeaderFieldValue (''Bearer '' @ j))"
    unfolding inst_key_def using sendable_key by blast
next
  assume "k \<noteq> adminKey \<and> (\<exists>i j. k = i @ CHR '':'' # j \<and> instance_id i \<and> j \<noteq> adminKey \<and> ValidHeaderFieldValue (''Bearer '' @ j))"
  then show "\<exists>s t. cc_reach cfg adminKey ttl s \<and> cc_pc s t = PRet (RAuth k) OPanic"
    using panic_run [OF _ instance_id_no_colon, of _ _ adminKey k cfg ttl] by blast
qed

end
