(* ===== verification/StorageSchemas.thy ===== *)
theory StorageSchemas
  imports Schema
begin

text \<open>
  The storage schemas of the vendored package \<^verbatim>\<open>metrictank/conf\<close> (\<^verbatim>\<open>schemas.go\<close>, \<^verbatim>\<open>retention.go\<close>), from which
  the publisher deduces the interval of a metric that came without one. A compiled regular expression
  is the predicate it decides. \<open>Schemas_Match\<close> walks the flattened index in jumps; \<open>match_spec\<close> is the
  declarative reading of it, and the properties say that the two agree.
\<close>

section \<open>Retentions\<close>

record Retention =
  rt_SecondsPerPoint :: int
  rt_NumberOfPoints :: int
  rt_ChunkSpan :: uint32
  rt_NumChunks :: uint32
  rt_Ready :: uint32

definition MaxRetention :: "Retention \<Rightarrow> int" where
  "MaxRetention r = int64_of (rt_SecondsPerPoint r * rt_NumberOfPoints r)"

definition NewRetentionMT :: "int \<Rightarrow> uint32 \<Rightarrow> uint32 \<Rightarrow> uint32 \<Rightarrow> uint32 \<Rightarrow> Retention" where
  "NewRetentionMT secondsPerPoint ttl chunkSpan numChunks ready =
     \<lparr>rt_SecondsPerPoint = secondsPerPoint, rt_NumberOfPoints = uint ttl sdiv secondsPerPoint,
      rt_ChunkSpan = chunkSpan, rt_NumChunks = numChunks, rt_Ready = ready\<rparr>"

datatype retention_error =
  ErrNoRetentions | ErrResolution | ErrDivisible | ErrShorter | ErrTooFewPoints | RetPanicDivide

text \<open>The loop of \<^verbatim>\<open>Retentions.Validate\<close> over neighbours.\<close>

fun validate_pairs :: "Retention list \<Rightarrow> retention_error option" where
  "validate_pairs (prev # ret # rets) =
     (if rt_SecondsPerPoint prev \<ge> rt_SecondsPerPoint ret then Some ErrResolution
      else if rt_SecondsPerPoint prev = 0 then Some RetPanicDivide
      else if rt_SecondsPerPoint ret smod rt_SecondsPerPoint prev \<noteq> 0 then Some ErrDivisible
      else if MaxRetention prev \<ge> MaxRetention ret then Some ErrShorter
      else if rt_NumberOfPoints prev < rt_SecondsPerPoint ret sdiv rt_SecondsPerPoint prev
        then Some ErrTooFewPoints
      else validate_pairs (ret # rets))"
| "validate_pairs _ = None"

definition Retentions_Validate :: "Retention list \<Rightarrow> retention_error option" where
  "Retentions_Validate rets = (if rets = [] then Some ErrNoRetentions else validate_pairs rets)"

section \<open>Schemas and their index\<close>

record StorageSchema =
  sch_Name :: string
  sch_Pattern :: "string \<Rightarrow> bool"
  sch_Retentions :: "Retention list"
  sch_Priority :: int
  sch_ReorderWindow :: uint32

record Schemas =
  scs_raw :: "StorageSchema list"
  scs_index :: "StorageSchema list"
  scs_DefaultSchema :: StorageSchema

definition suffixes_of :: "StorageSchema \<Rightarrow> StorageSchema list" where
  "suffixes_of s =
     map (\<lambda>pos. s\<lparr>sch_Retentions := drop pos (sch_Retentions s)\<rparr>) [0..<length (sch_Retentions s)]"

definition BuildIndex :: "Schemas \<Rightarrow> Schemas" where
  "BuildIndex s =
     s\<lparr>scs_index := concat (map suffixes_of (scs_raw s)) @
         suffixes_of ((scs_DefaultSchema s)\<lparr>sch_ReorderWindow := 0\<rparr>)\<rparr>"

definition default_schema :: StorageSchema where
  "default_schema =
     \<lparr>sch_Name = ''default'', sch_Pattern = (\<lambda>_. True),
      sch_Retentions = [NewRetentionMT 1 86400 600 2 0], sch_Priority = 0, sch_ReorderWindow = 0\<rparr>"

definition NewSchemas :: "StorageSchema list \<Rightarrow> Schemas" where
  "NewSchemas schemas =
     BuildIndex \<lparr>scs_raw = schemas, scs_index = [], scs_DefaultSchema = default_schema\<rparr>"

section \<open>Match\<close>

text \<open>The loop over the retentions: the position it returns from, if it does.\<close>

fun fit_loop :: "int \<Rightarrow> nat \<Rightarrow> Retention list \<Rightarrow> nat option" where
  "fit_loop interval j [] = None"
| "fit_loop interval j (ret # rets) =
     (if interval < rt_SecondsPerPoint ret then Some (if j > 0 then j - 1 else j)
      else fit_loop interval (Suc j) rets)"

definition match_at :: "Schemas \<Rightarrow> int \<Rightarrow> nat \<Rightarrow> StorageSchema \<Rightarrow> schema_error + (nat \<times> StorageSchema)" where
  "match_at s interval i schema =
     (if interval = 0 then Inr (i, schema)
      else
        let pos = (case fit_loop interval 0 (sch_Retentions schema) of
                     Some j \<Rightarrow> int i + int j
                   | None \<Rightarrow> int i + int (length (sch_Retentions schema)) - 1)
        in if 0 \<le> pos \<and> nat pos < length (scs_index s) then Inr (nat pos, scs_index s ! nat pos)
           else Inl PanicIndex)"

text \<open>
  The loop over the index. It would not end on an index entry without retentions, hence the partial
  function; \<^term>\<open>None\<close> is a loop that does not return.
\<close>

partial_function (option) match_from ::
  "Schemas \<Rightarrow> string \<Rightarrow> int \<Rightarrow> nat \<Rightarrow> (schema_error + (nat \<times> StorageSchema)) option" where
  "match_from s metric interval i =
     (if i < length (scs_index s) then
        (if sch_Pattern (scs_index s ! i) metric then Some (match_at s interval i (scs_index s ! i))
         else match_from s metric interval (i + length (sch_Retentions (scs_index s ! i))))
      else Some (Inr (length (scs_index s), scs_DefaultSchema s)))"

definition Schemas_Match ::
  "Schemas \<Rightarrow> string \<Rightarrow> int \<Rightarrow> (schema_error + (nat \<times> StorageSchema)) option" where
  "Schemas_Match s metric interval =
     (case match_from s metric interval 0 of
        None \<Rightarrow> None
      | Some (Inl e) \<Rightarrow> Some (Inl e)
      | Some (Inr (i, sch)) \<Rightarrow> Some (Inr (i mod 2 ^ 16, sch)))"

section \<open>What Match decides\<close>

text \<open>Which retention fits an interval: the last one that is not coarser, or the first.\<close>

definition fit_pos :: "int \<Rightarrow> Retention list \<Rightarrow> nat" where
  "fit_pos interval rets =
     (if interval = 0 then 0
      else length (takeWhile (\<lambda>r. rt_SecondsPerPoint r \<le> interval) rets) - 1)"

fun match_spec :: "string \<Rightarrow> int \<Rightarrow> StorageSchema list \<Rightarrow> StorageSchema" where
  "match_spec metric interval [] =
     default_schema\<lparr>sch_Retentions :=
       drop (fit_pos interval (sch_Retentions default_schema)) (sch_Retentions default_schema)\<rparr>"
| "match_spec metric interval (s # ss) =
     (if sch_Pattern s metric
      then s\<lparr>sch_Retentions := drop (fit_pos interval (sch_Retentions s)) (sch_Retentions s)\<rparr>
      else match_spec metric interval ss)"

lemma fit_loop_takeWhile:
  "fit_loop interval j rets =
     (if \<forall>r \<in> set rets. rt_SecondsPerPoint r \<le> interval then None
      else Some (j + length (takeWhile (\<lambda>r. rt_SecondsPerPoint r \<le> interval) rets) - 1))"
  by (induction rets arbitrary: j) auto

lemma length_suffixes_of [simp]: "length (suffixes_of s) = length (sch_Retentions s)"
  by (simp add: suffixes_of_def)

lemma nth_suffixes_of [simp]:
  "pos < length (sch_Retentions s) \<Longrightarrow>
   suffixes_of s ! pos = s\<lparr>sch_Retentions := drop pos (sch_Retentions s)\<rparr>"
  by (simp add: suffixes_of_def)

lemma fit_pos_less: "rets \<noteq> [] \<Longrightarrow> fit_pos interval rets < length rets"
  using length_takeWhile_le [of "\<lambda>r. rt_SecondsPerPoint r \<le> interval" rets]
  by (cases "length (takeWhile (\<lambda>r. rt_SecondsPerPoint r \<le> interval) rets)") (auto simp: fit_pos_def)

lemma fit_loop_pos:
  assumes "rets \<noteq> []" and "interval \<noteq> 0"
  shows "(case fit_loop interval 0 rets of Some j \<Rightarrow> j | None \<Rightarrow> length rets - 1) = fit_pos interval rets"
proof (cases "\<forall>r \<in> set rets. rt_SecondsPerPoint r \<le> interval")
  case True
  then have all: "takeWhile (\<lambda>r. rt_SecondsPerPoint r \<le> interval) rets = rets"
    by (simp add: takeWhile_eq_all_conv)
  show ?thesis using True assms by (simp add: fit_loop_takeWhile fit_pos_def all)
next
  case False
  then show ?thesis using assms by (auto simp: fit_loop_takeWhile fit_pos_def)
qed

text \<open>At the first entry of a matching schema the search ends inside that schema's entries.\<close>

lemma match_at_block:
  assumes index: "scs_index sc = pre @ suffixes_of s @ post" and rets: "sch_Retentions s \<noteq> []"
  shows "match_at sc interval (length pre) (scs_index sc ! length pre) =
    Inr (length pre + fit_pos interval (sch_Retentions s),
         s\<lparr>sch_Retentions := drop (fit_pos interval (sch_Retentions s)) (sch_Retentions s)\<rparr>)"
proof -
  let ?rets = "sch_Retentions s" and ?p = "fit_pos interval (sch_Retentions s)"
  have entry: "scs_index sc ! (length pre + pos) = s\<lparr>sch_Retentions := drop pos ?rets\<rparr>"
    if "pos < length ?rets" for pos
    using that by (simp add: index nth_append)
  have head: "scs_index sc ! length pre = s" using entry [of 0] rets by simp
  have less: "?p < length ?rets" using fit_pos_less [OF rets] .
  obtain n where len: "length ?rets = Suc n" using rets by (cases ?rets) auto
  have bound: "length pre + ?p < length (scs_index sc)" using less by (simp add: index)
  show ?thesis
  proof (cases "interval = 0")
    case True
    then show ?thesis using head by (simp add: match_at_def fit_pos_def)
  next
    case False
    have pos: "(case fit_loop interval 0 ?rets of
          Some j \<Rightarrow> int (length pre) + int j
        | None \<Rightarrow> int (length pre) + int (length ?rets) - 1) = int (length pre + ?p)"
      using fit_loop_pos [OF rets False] len by (simp split: option.splits)
    show ?thesis
      unfolding match_at_def head Let_def pos using False bound entry [OF less]
      by (simp add: nat_int_add)
  qed
qed

lemma match_from_blocks:
  assumes index: "scs_index sc = pre @ concat (map suffixes_of ss) @ suffixes_of default_schema"
    and rets: "\<And>s. s \<in> set ss \<Longrightarrow> sch_Retentions s \<noteq> []"
  shows "\<exists>i. match_from sc metric interval (length pre) = Some (Inr (i, match_spec metric interval ss))"
  using assms
proof (induction ss arbitrary: pre)
  case Nil
  have "match_at sc interval (length pre) (scs_index sc ! length pre) =
      Inr (length pre + fit_pos interval (sch_Retentions default_schema), match_spec metric interval [])"
    using match_at_block [of sc pre default_schema "[]"] Nil.prems(1) by (simp add: default_schema_def)
  moreover have "sch_Pattern (scs_index sc ! length pre) metric" "length pre < length (scs_index sc)"
    using Nil.prems(1) by (simp_all add: nth_append default_schema_def)
  ultimately show ?case by (subst match_from.simps) simp
next
  case (Cons s ss)
  have rets: "sch_Retentions s \<noteq> []" using Cons.prems(2) by simp
  have index: "scs_index sc = pre @ suffixes_of s @ concat (map suffixes_of ss) @ suffixes_of default_schema"
    using Cons.prems(1) by simp
  have less: "length pre < length (scs_index sc)" using rets by (simp add: index)
  have head: "scs_index sc ! length pre = s" using rets by (simp add: index nth_append)
  show ?case
  proof (cases "sch_Pattern s metric")
    case True
    then show ?thesis
      using match_at_block [OF index rets, of interval] less head by (subst match_from.simps) simp
  next
    case False
    then have "match_from sc metric interval (length pre) =
        match_from sc metric interval (length (pre @ suffixes_of s))"
      using less head by (subst match_from.simps) simp
    then show ?thesis
      using Cons.IH [of "pre @ suffixes_of s"] Cons.prems False by simp
  qed
qed

lemma Schemas_Match_spec:
  assumes "\<And>s. s \<in> set raw \<Longrightarrow> sch_Retentions s \<noteq> []"
  shows "\<exists>i. Schemas_Match (NewSchemas raw) metric interval = Some (Inr (i, match_spec metric interval raw))"
proof -
  have "default_schema\<lparr>sch_ReorderWindow := 0\<rparr> = default_schema" by (simp add: default_schema_def)
  then have "scs_index (NewSchemas raw) = [] @ concat (map suffixes_of raw) @ suffixes_of default_schema"
    by (simp add: NewSchemas_def BuildIndex_def)
  from match_from_blocks [OF this, of metric interval] assms
  show ?thesis by (auto simp: Schemas_Match_def)
qed

text \<open>The retentions of the matched schema are never empty, so its first one can be read.\<close>

lemma match_spec_nonempty:
  assumes "\<And>s. s \<in> set raw \<Longrightarrow> sch_Retentions s \<noteq> []"
  shows "sch_Retentions (match_spec metric interval raw) \<noteq> []"
  using assms
proof (induction raw)
  case (Cons s ss)
  then show ?case using fit_pos_less [of "sch_Retentions s" interval] by auto
qed (use fit_pos_less [of "sch_Retentions default_schema" interval] in \<open>simp add: default_schema_def\<close>)

lemma validate_pairs_ascending:
  "validate_pairs rets = None \<Longrightarrow> sorted_wrt (<) (map rt_SecondsPerPoint rets)"
proof (induction rets rule: validate_pairs.induct)
  case (1 prev ret rets)
  then have "sorted_wrt (<) (map rt_SecondsPerPoint (ret # rets))"
    and "rt_SecondsPerPoint prev < rt_SecondsPerPoint ret"
    by (simp_all split: if_splits)
  then show ?case by auto
qed simp_all

text \<open>On ascending retentions the position is where the list passes the interval.\<close>

lemma fit_pos_ascending:
  assumes "sorted_wrt (<) (map rt_SecondsPerPoint rets)" and "rets \<noteq> []" and "interval \<noteq> 0"
    and "rt_SecondsPerPoint (hd rets) \<le> interval"
  shows "rt_SecondsPerPoint (rets ! fit_pos interval rets) \<le> interval \<and>
    (\<forall>j. fit_pos interval rets < j \<longrightarrow> j < length rets \<longrightarrow> interval < rt_SecondsPerPoint (rets ! j))"
proof -
  let ?P = "\<lambda>r. rt_SecondsPerPoint r \<le> interval"
  let ?n = "length (takeWhile ?P rets)"
  have n: "0 < ?n" using assms(2,4) by (cases rets) auto
  then have p: "fit_pos interval rets = ?n - 1" using assms(3) by (simp add: fit_pos_def)
  have "rets ! (?n - 1) = takeWhile ?P rets ! (?n - 1)" using n by (simp add: takeWhile_nth)
  moreover have "takeWhile ?P rets ! (?n - 1) \<in> set (takeWhile ?P rets)" using n by (intro nth_mem) simp
  ultimately have in_range: "?P (rets ! (?n - 1))" using set_takeWhileD by fastforce
  have "interval < rt_SecondsPerPoint (rets ! j)" if "?n - 1 < j" "j < length rets" for j
  proof -
    have "?n < length rets" using that n by simp
    then have out: "interval < rt_SecondsPerPoint (rets ! ?n)"
      using nth_length_takeWhile [of ?P rets] by simp
    show ?thesis
    proof (cases "j = ?n")
      case False
      then have "?n < j" using that n by simp
      then have "rt_SecondsPerPoint (rets ! ?n) < rt_SecondsPerPoint (rets ! j)"
        using assms(1) that(2) by (simp add: sorted_wrt_iff_nth_less)
      with out show ?thesis by simp
    qed (use out in simp)
  qed
  with in_range show ?thesis by (simp add: p)
qed

section \<open>Properties\<close>

text \<open>
  The jumping search of \<^verbatim>\<open>Schemas.Match\<close> over the flattened index always ends, never indexes out of
  range, and returns the first schema whose pattern matches (the default one when none does) with the
  retentions from the best fit on; there is at least one retention left to read.
\<close>

theorem match_finds_first_schema:
  assumes "\<forall>s \<in> set raw. Retentions_Validate (sch_Retentions s) = None"
  shows "\<exists>i. Schemas_Match (NewSchemas raw) metric interval = Some (Inr (i, match_spec metric interval raw)) \<and>
    sch_Retentions (match_spec metric interval raw) \<noteq> []"
proof -
  have "sch_Retentions s \<noteq> []" if "s \<in> set raw" for s
    using that assms by (auto simp: Retentions_Validate_def split: if_splits)
  then show ?thesis using Schemas_Match_spec [of raw metric interval] match_spec_nonempty [of raw] by blast
qed

definition sample_schema :: StorageSchema where
  "sample_schema =
     \<lparr>sch_Name = ''web'', sch_Pattern = (\<lambda>m. has_prefix ''web.'' m),
      sch_Retentions = [NewRetentionMT 10 86400 600 2 0, NewRetentionMT 60 864000 600 2 0],
      sch_Priority = 0, sch_ReorderWindow = 0\<rparr>"

theorem match_finds_first_schema_witness:
  "\<exists>i. Schemas_Match (NewSchemas [sample_schema]) ''web.a'' 0 = Some (Inr (i, match_spec ''web.a'' 0 [sample_schema])) \<and>
    sch_Retentions (match_spec ''web.a'' 0 [sample_schema]) \<noteq> []"
proof (rule match_finds_first_schema)
  have "validate_pairs (sch_Retentions sample_schema) = None"
    by (simp add: sample_schema_def NewRetentionMT_def MaxRetention_def signed_divide_int_def
        signed_modulo_int_def int64_of_id)
  then show "\<forall>s \<in> set [sample_schema]. Retentions_Validate (sch_Retentions s) = None"
    by (simp add: Retentions_Validate_def) (simp add: sample_schema_def)
qed

text \<open>
  The best fit on validated retentions: unless every retention is coarser than the interval, the
  retention chosen is not coarser than the interval, and every later one is.
\<close>

theorem match_picks_best_fit:
  assumes "Retentions_Validate rets = None" and "interval \<noteq> 0"
    and "rt_SecondsPerPoint (hd rets) \<le> interval"
  shows "let pos = (case fit_loop interval 0 rets of Some j \<Rightarrow> j | None \<Rightarrow> length rets - 1)
    in pos < length rets \<and> rt_SecondsPerPoint (rets ! pos) \<le> interval \<and>
      (\<forall>j. pos < j \<longrightarrow> j < length rets \<longrightarrow> interval < rt_SecondsPerPoint (rets ! j))"
proof -
  have ok: "rets \<noteq> []" "validate_pairs rets = None"
    using assms(1) by (auto simp: Retentions_Validate_def split: if_splits)
  show ?thesis
    unfolding fit_loop_pos [OF ok(1) assms(2)] Let_def
    using fit_pos_ascending [OF validate_pairs_ascending [OF ok(2)] ok(1) assms(2,3)] fit_pos_less [OF ok(1)]
    by blast
qed

theorem match_picks_best_fit_witness:
  "fit_loop 30 0 (sch_Retentions sample_schema) = Some 0 \<and>
    30 < rt_SecondsPerPoint (sch_Retentions sample_schema ! 1)"
proof -
  have "validate_pairs (sch_Retentions sample_schema) = None"
    by (simp add: sample_schema_def NewRetentionMT_def MaxRetention_def signed_divide_int_def
        signed_modulo_int_def int64_of_id)
  then have "Retentions_Validate (sch_Retentions sample_schema) = None"
    by (simp add: Retentions_Validate_def) (simp add: sample_schema_def)
  from match_picks_best_fit [OF this, of 30]
  show ?thesis by (simp add: sample_schema_def NewRetentionMT_def Let_def)
qed

end
