(* ===== verification/KafkaPublish.thy ===== *)
theory KafkaPublish
  imports KeyCache StorageSchemas
begin

text \<open>
  The Kafka publisher, \<^verbatim>\<open>publish/kafka/publish.go\<close>: parsing of the per-topic settings, start-up checks,
  the encoding of one metric and the \<^verbatim>\<open>Publish\<close> loop.

  \<^item> The package variables set by flags are the record \<open>flags\<close>; the package variable \<^verbatim>\<open>keyCache\<close> and the
    counters are the record \<open>kstate\<close>, which every call returns updated.
  \<^item> The metrics are pointers that the loop changes and restores: \<open>Publish\<close> returns the metrics as it
    leaves them. The metrics of one call are distinct objects.
  \<^item> The generated encoder \<^verbatim>\<open>MarshalMsg\<close>, the jump hash and the producer of the Kafka client are the
    arguments \<open>marshalMsg\<close>, \<open>jumpHash\<close> and \<open>send\<close>.
  \<^item> \<^verbatim>\<open>log.Fatal\<close> ends the process: a value of \<open>fatal\<close>.
\<close>

section \<open>Topic settings\<close>

record topicSettings =
  ts_name :: string
  ts_partitioner :: PartitionByMethod
  ts_numPartitions :: int
  ts_onlyOrgId :: int
  ts_discardPrefixes :: "string list"
  ts_rewrite_source :: int
  ts_rewrite_target :: int

datatype topics_error =
  ErrSchemeCount | ErrOrgIdCount | ErrDiscardCount | ErrRewriteCount | ErrRewriteParts
  | ErrPartitionBy | ErrRewriteNum num_error | PanicTopicIndex

text \<open>One iteration of the loop of \<^verbatim>\<open>parseTopicSettings\<close>, for the topic at position \<open>i\<close>.\<close>

definition topic_partitioner ::
  "string list \<Rightarrow> nat \<Rightarrow> topicSettings list \<Rightarrow> topics_error + PartitionByMethod" where
  "topic_partitioner partitionSchemes i topics =
     (if length partitionSchemes = 1 \<and> i > 0 then
        (case index_or PanicTopicIndex topics 0 of
           Inl e \<Rightarrow> Inl e
         | Inr t \<Rightarrow> Inr (ts_partitioner t))
      else
        case index_or PanicTopicIndex partitionSchemes i of
          Inl e \<Rightarrow> Inl e
        | Inr scheme \<Rightarrow>
            (case PartitonMethodFromString (trim_space scheme) of
               None \<Rightarrow> Inl ErrPartitionBy
             | Some p \<Rightarrow> Inr p))"

definition topic_onlyOrgId :: "int list \<Rightarrow> nat \<Rightarrow> topics_error + int" where
  "topic_onlyOrgId onlyOrgIds i =
     (if length onlyOrgIds = 0 then Inr 0
      else if length onlyOrgIds = 1 then index_or PanicTopicIndex onlyOrgIds 0
      else index_or PanicTopicIndex onlyOrgIds i)"

definition topic_discardPrefixes :: "string list \<Rightarrow> nat \<Rightarrow> topics_error + string list" where
  "topic_discardPrefixes discardPrefixesStrList i =
     (if length discardPrefixesStrList > 0 then
        (case index_or PanicTopicIndex discardPrefixesStrList i of
           Inl e \<Rightarrow> Inl e
         | Inr s \<Rightarrow> Inr (fields_func CHR ''|'' s))
      else Inr [])"

definition topic_rewrite :: "string list \<Rightarrow> nat \<Rightarrow> topics_error + int \<times> int" where
  "topic_rewrite rewriteOrgIdStrList i =
     (if length rewriteOrgIdStrList > 0 then
        (case index_or PanicTopicIndex rewriteOrgIdStrList i of
           Inl e \<Rightarrow> Inl e
         | Inr s \<Rightarrow>
             if s = [] then Inr (0, 0)
             else
               let parts = split_on CHR '':'' s
               in if length parts \<noteq> 2 then Inl ErrRewriteParts
                  else
                    (case parse_uint 64 (parts ! 0) of
                       Inl e \<Rightarrow> Inl (ErrRewriteNum e)
                     | Inr source \<Rightarrow>
                         (case parse_uint 64 (parts ! 1) of
                            Inl e \<Rightarrow> Inl (ErrRewriteNum e)
                          | Inr target \<Rightarrow> Inr (int64_of (int source), int64_of (int target)))))
      else Inr (0, 0))"

fun parse_topics ::
  "string list \<Rightarrow> int list \<Rightarrow> string list \<Rightarrow> string list \<Rightarrow> string list \<Rightarrow> topicSettings list
    \<Rightarrow> topics_error + topicSettings list" where
  "parse_topics schemes orgIds discards rws [] topics = Inr topics"
| "parse_topics schemes orgIds discards rws (topicName # rest) topics =
     (let i = length topics
      in case topic_partitioner schemes i topics of
           Inl e \<Rightarrow> Inl e
         | Inr partitioner \<Rightarrow>
             (case topic_onlyOrgId orgIds i of
                Inl e \<Rightarrow> Inl e
              | Inr onlyOrgId \<Rightarrow>
                  (case topic_discardPrefixes discards i of
                     Inl e \<Rightarrow> Inl e
                   | Inr discardPrefixes \<Rightarrow>
                       (case topic_rewrite rws i of
                          Inl e \<Rightarrow> Inl e
                        | Inr (source, target) \<Rightarrow>
                            parse_topics schemes orgIds discards rws rest
                              (topics @
                               [\<lparr>ts_name = trim_space topicName, ts_partitioner = partitioner,
                                 ts_numPartitions = 0, ts_onlyOrgId = onlyOrgId,
                                 ts_discardPrefixes = discardPrefixes,
                                 ts_rewrite_source = source, ts_rewrite_target = target\<rparr>])))))"

definition parseTopicSettings ::
  "string \<Rightarrow> string \<Rightarrow> int list \<Rightarrow> string \<Rightarrow> string \<Rightarrow> topics_error + topicSettings list" where
  "parseTopicSettings partitionSchemesStr topicsStr onlyOrgIds discardPrefixesStr rewriteOrgIdStr =
     (let partitionSchemes = split_on CHR '','' partitionSchemesStr;
          topicsStrList = split_on CHR '','' topicsStr;
          discards = (if discardPrefixesStr \<noteq> [] then split_on CHR '','' discardPrefixesStr else []);
          rws = (if rewriteOrgIdStr \<noteq> [] then split_on CHR '','' rewriteOrgIdStr else [])
      in if length partitionSchemes > 1 \<and> length partitionSchemes \<noteq> length topicsStrList
           then Inl ErrSchemeCount
         else if length onlyOrgIds > 1 \<and> length onlyOrgIds \<noteq> length topicsStrList
           then Inl ErrOrgIdCount
         else if length discards > 0 \<and> length discards \<noteq> length topicsStrList then Inl ErrDiscardCount
         else if length rws > 0 \<and> length rws \<noteq> length topicsStrList then Inl ErrRewriteCount
         else parse_topics partitionSchemes onlyOrgIds discards rws topicsStrList [])"

section \<open>Start-up\<close>

datatype CompressionCodec = CompressionNone | CompressionGZIP | CompressionSnappy

datatype fatal =
  FatalBroker | FatalVersion | FatalTopics topics_error | FatalSchemas | FatalCodec | FatalTLS
  | FatalConfig | FatalClient | FatalPartitions | FatalProducer

definition getCompression :: "string \<Rightarrow> fatal + CompressionCodec" where
  "getCompression codec =
     (if codec = ''none'' then Inr CompressionNone
      else if codec = ''gzip'' then Inr CompressionGZIP
      else if codec = ''snappy'' then Inr CompressionSnappy
      else Inl FatalCodec)"

definition broker_ok :: "string \<Rightarrow> bool" where
  "broker_ok b =
     (if b = [] then False
      else
        let cnt = count_list b CHR '':''
        in if cnt > 1 then False
           else if cnt = 1 then
             let parts = splitn2 CHR '':'' b
             in if parts ! 0 = [] \<or> parts ! 1 = [] then False
                else (case atoi (parts ! 1) of Inl e \<Rightarrow> False | Inr n \<Rightarrow> True)
           else True)"

record flags =
  fl_enabled :: bool
  fl_partitionSchemesStr :: string
  fl_topicsStr :: string
  fl_onlyOrgIds :: "int list"
  fl_discardPrefixesStr :: string
  fl_rewriteOrgIdStr :: string
  fl_codec :: string
  fl_tlsEnabled :: bool
  fl_v2 :: bool
  fl_v2Org :: bool
  fl_v2ClearInterval :: int

record mtPublisher =
  mt_schemas :: "Schemas option"
  mt_autoInterval :: bool
  mt_topics :: "topicSettings list"

text \<open>What the Kafka client and the files answer at start-up.\<close>

record startup =
  su_version_ok :: bool
  su_schemas :: "Schemas option"
  su_tls_ok :: bool
  su_config_ok :: bool
  su_client_ok :: bool
  su_partitions :: "string \<Rightarrow> nat option"
  su_producer_ok :: bool

fun set_partitions :: "startup \<Rightarrow> topicSettings list \<Rightarrow> fatal + topicSettings list" where
  "set_partitions su [] = Inr []"
| "set_partitions su (t # ts) =
     (case su_partitions su (ts_name t) of
        None \<Rightarrow> Inl FatalPartitions
      | Some n \<Rightarrow>
          if n < 1 then Inl FatalPartitions
          else
            (case set_partitions su ts of
               Inl e \<Rightarrow> Inl e
             | Inr ts' \<Rightarrow> Inr (t\<lparr>ts_numPartitions := int32_of (int n)\<rparr> # ts')))"

definition connect ::
  "flags \<Rightarrow> startup \<Rightarrow> bool \<Rightarrow> Schemas option \<Rightarrow> topicSettings list
    \<Rightarrow> fatal + (mtPublisher \<times> KeyCache option) option" where
  "connect fl su autoInterval schemas topics =
     (case getCompression (fl_codec fl) of
        Inl e \<Rightarrow> Inl e
      | Inr codec \<Rightarrow>
          if fl_tlsEnabled fl \<and> \<not> su_tls_ok su then Inl FatalTLS
          else if \<not> su_config_ok su then Inl FatalConfig
          else if \<not> su_client_ok su then Inl FatalClient
          else
            (case set_partitions su topics of
               Inl e \<Rightarrow> Inl e
             | Inr ts \<Rightarrow>
                 if \<not> su_producer_ok su then Inl FatalProducer
                 else Inr (Some (\<lparr>mt_schemas = schemas, mt_autoInterval = autoInterval, mt_topics = ts\<rparr>,
                   if fl_v2 fl then Some (NewKeyCache (fl_v2ClearInterval fl)) else None))))"

text \<open>\<^verbatim>\<open>New\<close>; the package variable \<^verbatim>\<open>keyCache\<close> it sets is the second component.\<close>

definition New ::
  "flags \<Rightarrow> startup \<Rightarrow> string list \<Rightarrow> bool \<Rightarrow> fatal + (mtPublisher \<times> KeyCache option) option" where
  "New fl su brokers autoInterval =
     (if \<not> fl_enabled fl then Inr None
      else if \<not> list_all broker_ok brokers then Inl FatalBroker
      else if \<not> su_version_ok su then Inl FatalVersion
      else
        case parseTopicSettings (fl_partitionSchemesStr fl) (fl_topicsStr fl) (fl_onlyOrgIds fl)
               (fl_discardPrefixesStr fl) (fl_rewriteOrgIdStr fl) of
          Inl e \<Rightarrow> Inl (FatalTopics e)
        | Inr topics \<Rightarrow>
            if autoInterval then
              (case su_schemas su of
                 None \<Rightarrow> Inl FatalSchemas
               | Some schemas \<Rightarrow> connect fl su autoInterval (Some schemas) topics)
            else connect fl su autoInterval None topics)"

section \<open>Encoding one metric\<close>

datatype MetricDataType = TypeMetricData | TypeMetricPoint | TypeMetricPointNoOrg

record MetricDataBuffer =
  db_Data :: "gobyte list"
  db_Type :: MetricDataType

datatype send_error = ProducerErrors nat | OtherError

datatype publish_error =
  ErrNoInterval | ErrKey key_error | ErrMarshal | ErrPartition schema_error | ErrSend send_error
  | PanicMarshal | PanicNoKeyCache | PanicNoSchemas | PanicRetention

text \<open>The errors that are panics of the code: a caller does not see them.\<close>

fun is_panic :: "publish_error \<Rightarrow> bool" where
  "is_panic PanicMarshal = True"
| "is_panic PanicNoKeyCache = True"
| "is_panic PanicNoSchemas = True"
| "is_panic PanicRetention = True"
| "is_panic _ = False"

text \<open>
  The pooled buffer of capacity 33 gets the format byte and is filled by the marshalling functions in
  place; \<^term>\<open>None\<close> for \<open>kc\<close> is the nil pointer.
\<close>

definition encode_point :: "bool \<Rightarrow> MetricPoint \<Rightarrow> publish_error + MetricDataBuffer" where
  "encode_point v2Org mp =
     (if v2Org then
        (case Marshal32 33 [2] mp of
           None \<Rightarrow> Inl PanicMarshal
         | Some d \<Rightarrow> Inr \<lparr>db_Data = d, db_Type = TypeMetricPoint\<rparr>)
      else
        (case MarshalWithoutOrg28 33 [3] mp of
           None \<Rightarrow> Inl PanicMarshal
         | Some d \<Rightarrow> Inr \<lparr>db_Data = d, db_Type = TypeMetricPointNoOrg\<rparr>))"

definition encode_full ::
  "(MetricData \<Rightarrow> gobyte list option) \<Rightarrow> MetricData \<Rightarrow> publish_error + MetricDataBuffer" where
  "encode_full marshalMsg metric =
     (case marshalMsg metric of
        None \<Rightarrow> Inl ErrMarshal
      | Some d \<Rightarrow> Inr \<lparr>db_Data = d, db_Type = TypeMetricData\<rparr>)"

definition dataFromMetricData ::
  "flags \<Rightarrow> (MetricData \<Rightarrow> gobyte list option) \<Rightarrow> KeyCache option \<Rightarrow> MetricData
    \<Rightarrow> (publish_error + MetricDataBuffer) \<times> KeyCache option" where
  "dataFromMetricData fl marshalMsg kc metric =
     (if fl_v2 fl then
        (case MKeyFromString (md_Id metric) of
           Inl e \<Rightarrow> (Inl (ErrKey e), kc)
         | Inr mkey \<Rightarrow>
             (case kc of
                None \<Rightarrow> (Inl PanicNoKeyCache, kc)
              | Some k \<Rightarrow>
                  let (ok, k') = KeyCache_Touch k mkey
                  in (if ok then
                        encode_point (fl_v2Org fl)
                          \<lparr>mp_MKey = mkey, mp_Value = md_Value metric, mp_Time = uint32_of (md_Time metric)\<rparr>
                      else encode_full marshalMsg metric,
                      Some k')))
      else (encode_full marshalMsg metric, kc))"

section \<open>Publish\<close>

record ProducerMessage =
  pm_Topic :: string
  pm_Partition :: int
  pm_Value :: "gobyte list"

record kstate =
  ks_keyCache :: "KeyCache option"
  ks_publishedMD :: uint32
  ks_publishedMP :: uint32
  ks_publishedMPNO :: uint32
  ks_sendErrProducer :: uint32
  ks_sendErrOther :: uint32

text \<open>The local variables of \<^verbatim>\<open>Publish\<close>.\<close>

record batch =
  ba_keyCache :: "KeyCache option"
  ba_payload :: "ProducerMessage list"
  ba_pubMD :: "string \<Rightarrow> nat"
  ba_pubMP :: "string \<Rightarrow> nat"
  ba_pubMPNO :: "string \<Rightarrow> nat"
  ba_toRelease :: "gobyte list list"

definition count_message :: "MetricDataType \<Rightarrow> string \<Rightarrow> batch \<Rightarrow> batch" where
  "count_message ty topic b =
     (case ty of
        TypeMetricPoint \<Rightarrow> b\<lparr>ba_pubMP := (ba_pubMP b)(topic := Suc (ba_pubMP b topic))\<rparr>
      | TypeMetricData \<Rightarrow> b\<lparr>ba_pubMD := (ba_pubMD b)(topic := Suc (ba_pubMD b topic))\<rparr>
      | TypeMetricPointNoOrg \<Rightarrow> b\<lparr>ba_pubMPNO := (ba_pubMPNO b)(topic := Suc (ba_pubMPNO b topic))\<rparr>)"

definition discarded :: "topicSettings \<Rightarrow> MetricData \<Rightarrow> bool" where
  "discarded topic metric \<longleftrightarrow> list_ex (\<lambda>prefix. has_prefix prefix (md_Name metric)) (ts_discardPrefixes topic)"

text \<open>
  The body of the loop over the topics: a result, the metric, the cached buffers and the batch
  afterwards.
\<close>

definition publish_topic ::
  "flags \<Rightarrow> (MetricData \<Rightarrow> gobyte list option) \<Rightarrow> (string \<Rightarrow> int \<Rightarrow> int) \<Rightarrow> topicSettings
    \<Rightarrow> MetricData \<Rightarrow> (int \<rightharpoonup> MetricDataBuffer) \<Rightarrow> batch
    \<Rightarrow> publish_error option \<times> MetricData \<times> (int \<rightharpoonup> MetricDataBuffer) \<times> batch" where
  "publish_topic fl marshalMsg jumpHash topic metric bufs b =
     (if discarded topic metric then (None, metric, bufs, b)
      else if ts_onlyOrgId topic \<noteq> 0 \<and> md_OrgId metric \<noteq> ts_onlyOrgId topic then (None, metric, bufs, b)
      else
        let originalOrgID = md_OrgId metric;
            metric = (if md_OrgId metric = ts_rewrite_source topic
                      then SetId (metric\<lparr>md_OrgId := ts_rewrite_target topic\<rparr>) else metric);
            (enc, bufs, b) =
              (case bufs (md_OrgId metric) of
                 Some mdBuffer \<Rightarrow> (Inr mdBuffer, bufs, b)
               | None \<Rightarrow>
                   (case dataFromMetricData fl marshalMsg (ba_keyCache b) metric of
                      (Inl e, kc) \<Rightarrow> (Inl e, bufs, b\<lparr>ba_keyCache := kc\<rparr>)
                    | (Inr mdBuffer, kc) \<Rightarrow>
                        (Inr mdBuffer, bufs(md_OrgId metric \<mapsto> mdBuffer),
                         b\<lparr>ba_keyCache := kc, ba_toRelease := ba_toRelease b @ [db_Data mdBuffer]\<rparr>)))
        in case enc of
             Inl e \<Rightarrow> (Some e, metric, bufs, b)
           | Inr mdBuffer \<Rightarrow>
               (case PartitionID jumpHash metric (ts_partitioner topic) (ts_numPartitions topic) of
                  (Inl e, metric) \<Rightarrow> (Some (ErrPartition e), metric, bufs, b)
                | (Inr part, metric) \<Rightarrow>
                    let metric = (if md_OrgId metric \<noteq> originalOrgID
                                  then SetId (metric\<lparr>md_OrgId := originalOrgID\<rparr>) else metric);
                        message = \<lparr>pm_Topic = ts_name topic, pm_Partition = part,
                                   pm_Value = db_Data mdBuffer\<rparr>
                    in (None, metric, bufs,
                        count_message (db_Type mdBuffer) (ts_name topic)
                          (b\<lparr>ba_payload := ba_payload b @ [message]\<rparr>))))"

fun publish_topics ::
  "flags \<Rightarrow> (MetricData \<Rightarrow> gobyte list option) \<Rightarrow> (string \<Rightarrow> int \<Rightarrow> int) \<Rightarrow> topicSettings list
    \<Rightarrow> MetricData \<Rightarrow> (int \<rightharpoonup> MetricDataBuffer) \<Rightarrow> batch \<Rightarrow> publish_error option \<times> MetricData \<times> batch" where
  "publish_topics fl marshalMsg jumpHash [] metric bufs b = (None, metric, b)"
| "publish_topics fl marshalMsg jumpHash (t # ts) metric bufs b =
     (case publish_topic fl marshalMsg jumpHash t metric bufs b of
        (Some e, metric, bufs, b) \<Rightarrow> (Some e, metric, b)
      | (None, metric, bufs, b) \<Rightarrow> publish_topics fl marshalMsg jumpHash ts metric bufs b)"

text \<open>The interval of a metric that has none, from the storage schemas.\<close>

definition deduce_interval :: "mtPublisher \<Rightarrow> MetricData \<Rightarrow> (publish_error + MetricData) option" where
  "deduce_interval m metric =
     (if md_Interval metric = 0 then
        (if mt_autoInterval m then
           (case mt_schemas m of
              None \<Rightarrow> Some (Inl PanicNoSchemas)
            | Some scs \<Rightarrow>
                (case Schemas_Match scs (md_Name metric) 0 of
                   None \<Rightarrow> None
                 | Some (Inl e) \<Rightarrow> Some (Inl PanicRetention)
                 | Some (Inr (i, s)) \<Rightarrow>
                     (case index_or PanicRetention (sch_Retentions s) 0 of
                        Inl e \<Rightarrow> Some (Inl e)
                      | Inr r \<Rightarrow> Some (Inr (SetId (metric\<lparr>md_Interval := rt_SecondsPerPoint r\<rparr>))))))
         else Some (Inl ErrNoInterval))
      else Some (Inr metric))"

fun publish_metrics ::
  "flags \<Rightarrow> (MetricData \<Rightarrow> gobyte list option) \<Rightarrow> (string \<Rightarrow> int \<Rightarrow> int) \<Rightarrow> mtPublisher
    \<Rightarrow> MetricData list \<Rightarrow> batch \<Rightarrow> (publish_error option \<times> MetricData list \<times> batch) option" where
  "publish_metrics fl marshalMsg jumpHash m [] b = Some (None, [], b)"
| "publish_metrics fl marshalMsg jumpHash m (metric # rest) b =
     (case deduce_interval m metric of
        None \<Rightarrow> None
      | Some (Inl e) \<Rightarrow> Some (Some e, metric # rest, b)
      | Some (Inr metric) \<Rightarrow>
          (case publish_topics fl marshalMsg jumpHash (mt_topics m) metric Map.empty b of
             (Some e, metric, b) \<Rightarrow> Some (Some e, metric # rest, b)
           | (None, metric, b) \<Rightarrow>
               (case publish_metrics fl marshalMsg jumpHash m rest b of
                  None \<Rightarrow> None
                | Some (e, rest, b) \<Rightarrow> Some (e, metric # rest, b))))"

definition empty_batch :: "KeyCache option \<Rightarrow> batch" where
  "empty_batch kc =
     \<lparr>ba_keyCache = kc, ba_payload = [], ba_pubMD = (\<lambda>_. 0), ba_pubMP = (\<lambda>_. 0), ba_pubMPNO = (\<lambda>_. 0),
      ba_toRelease = []\<rparr>"

definition count_send_error :: "send_error \<Rightarrow> kstate \<Rightarrow> kstate" where
  "count_send_error e ks =
     (case e of
        ProducerErrors n \<Rightarrow> ks\<lparr>ks_sendErrProducer := ks_sendErrProducer ks + of_nat n\<rparr>
      | OtherError \<Rightarrow> ks\<lparr>ks_sendErrOther := ks_sendErrOther ks + 1\<rparr>)"

definition count_published :: "batch \<Rightarrow> topicSettings list \<Rightarrow> kstate \<Rightarrow> kstate" where
  "count_published b topics ks =
     fold (\<lambda>t ks. ks\<lparr>ks_publishedMD := ks_publishedMD ks + of_nat (ba_pubMD b (ts_name t)),
                    ks_publishedMP := ks_publishedMP ks + of_nat (ba_pubMP b (ts_name t)),
                    ks_publishedMPNO := ks_publishedMPNO ks + of_nat (ba_pubMPNO b (ts_name t))\<rparr>)
       topics ks"

text \<open>
  \<open>send\<close> is the producer: \<^term>\<open>None\<close> when it acknowledged every message. \<open>producer\<close> is False for the nil
  producer.
\<close>

definition Publish ::
  "flags \<Rightarrow> (MetricData \<Rightarrow> gobyte list option) \<Rightarrow> (string \<Rightarrow> int \<Rightarrow> int)
    \<Rightarrow> (ProducerMessage list \<Rightarrow> send_error option) \<Rightarrow> bool \<Rightarrow> mtPublisher \<Rightarrow> MetricData list \<Rightarrow> kstate
    \<Rightarrow> (publish_error option \<times> MetricData list \<times> kstate) option" where
  "Publish fl marshalMsg jumpHash send producer m metrics ks =
     (if \<not> producer \<or> length metrics = 0 \<or> length (mt_topics m) = 0 then Some (None, metrics, ks)
      else
        case publish_metrics fl marshalMsg jumpHash m metrics (empty_batch (ks_keyCache ks)) of
          None \<Rightarrow> None
        | Some (Some e, metrics, b) \<Rightarrow> Some (Some e, metrics, ks\<lparr>ks_keyCache := ba_keyCache b\<rparr>)
        | Some (None, metrics, b) \<Rightarrow>
            let ks = ks\<lparr>ks_keyCache := ba_keyCache b\<rparr>
            in case send (ba_payload b) of
                 Some e \<Rightarrow> Some (Some (ErrSend e), metrics, count_send_error e ks)
               | None \<Rightarrow> Some (None, metrics, count_published b (mt_topics m) ks))"

section \<open>Topic settings: what parsing gives\<close>

lemma topic_partitioner_no_panic:
  assumes "length schemes = 1 \<or> i < length schemes" and "length topics = i"
  shows "topic_partitioner schemes i topics \<noteq> Inl PanicTopicIndex"
  using assms by (auto simp: topic_partitioner_def index_or_def split: option.splits)

lemma topic_no_panic:
  "length orgIds \<le> 1 \<or> i < length orgIds \<Longrightarrow> topic_onlyOrgId orgIds i \<noteq> Inl PanicTopicIndex"
  "discards = [] \<or> i < length discards \<Longrightarrow> topic_discardPrefixes discards i \<noteq> Inl PanicTopicIndex"
  "rws = [] \<or> i < length rws \<Longrightarrow> topic_rewrite rws i \<noteq> Inl PanicTopicIndex"
  by (auto simp: topic_onlyOrgId_def topic_discardPrefixes_def topic_rewrite_def index_or_def Let_def
      le_Suc_eq split: if_splits sum.splits)

text \<open>A list of settings of which each topic has its own entry, one entry for all, or none.\<close>

definition per_topic :: "nat \<Rightarrow> 'a list \<Rightarrow> bool" where
  "per_topic n xs \<longleftrightarrow> length xs \<le> 1 \<or> length xs = n"

lemma parse_topics_no_panic:
  assumes "schemes \<noteq> []" and "per_topic (length topics + length names) schemes"
    and "per_topic (length topics + length names) orgIds"
    and "discards = [] \<or> length discards = length topics + length names"
    and "rws = [] \<or> length rws = length topics + length names"
  shows "parse_topics schemes orgIds discards rws names topics \<noteq> Inl PanicTopicIndex"
  using assms
proof (induction schemes orgIds discards rws names topics rule: parse_topics.induct)
  case (2 schemes orgIds discards rws name rest topics)
  have "length schemes = 1 \<or> length topics < length schemes"
    using "2.prems"(1,2) by (cases schemes) (auto simp: per_topic_def)
  then have p: "topic_partitioner schemes (length topics) topics \<noteq> Inl PanicTopicIndex"
    by (rule topic_partitioner_no_panic) simp
  have o: "topic_onlyOrgId orgIds (length topics) \<noteq> Inl PanicTopicIndex"
    "topic_discardPrefixes discards (length topics) \<noteq> Inl PanicTopicIndex"
    "topic_rewrite rws (length topics) \<noteq> Inl PanicTopicIndex"
    using "2.prems"(3-5) by (auto intro!: topic_no_panic simp: per_topic_def)
  show ?case
    using p o "2.IH" "2.prems" by (auto simp: Let_def split: sum.splits)
qed simp

text \<open>What one topic of a successful parse looks like.\<close>

definition topic_parsed ::
  "string list \<Rightarrow> int list \<Rightarrow> string list \<Rightarrow> string list \<Rightarrow> string \<Rightarrow> nat \<Rightarrow> topicSettings \<Rightarrow> bool" where
  "topic_parsed schemes orgIds discards rws name i t \<longleftrightarrow>
     ts_name t = trim_space name \<and>
     PartitonMethodFromString (trim_space (schemes ! (if length schemes = 1 then 0 else i))) =
       Some (ts_partitioner t) \<and>
     ts_onlyOrgId t =
       (if orgIds = [] then 0 else orgIds ! (if length orgIds = 1 then 0 else i)) \<and>
     ts_discardPrefixes t = (if discards = [] then [] else fields_func CHR ''|'' (discards ! i)) \<and>
     topic_rewrite rws i = Inr (ts_rewrite_source t, ts_rewrite_target t)"

lemma topic_partitioner_first:
  assumes "topic_partitioner schemes i topics = Inr p" and "length topics = i" and "schemes \<noteq> []"
    and "\<And>j. j < i \<Longrightarrow> length schemes = 1 \<Longrightarrow>
      PartitonMethodFromString (trim_space (schemes ! 0)) = Some (ts_partitioner (topics ! j))"
  shows "PartitonMethodFromString (trim_space (schemes ! (if length schemes = 1 then 0 else i))) = Some p"
  using assms
  by (auto simp: topic_partitioner_def index_or_def split: if_splits option.splits)

lemma parse_topics_parsed:
  assumes "parse_topics schemes orgIds discards rws names topics = Inr ts" and "schemes \<noteq> []"
    and "list_all2 (\<lambda>(name, i) t. topic_parsed schemes orgIds discards rws name i t)
      (zip pre [0..<length pre]) topics"
  shows "list_all2 (\<lambda>(name, i) t. topic_parsed schemes orgIds discards rws name i t)
      (zip (pre @ names) [0..<length (pre @ names)]) ts"
  using assms
proof (induction schemes orgIds discards rws names topics arbitrary: pre rule: parse_topics.induct)
  case (2 schemes orgIds discards rws name rest topics)
  let ?i = "length topics"
  have len: "length pre = ?i" using list_all2_lengthD [OF "2.prems"(3)] by simp
  obtain p o' d src tgt where steps: "topic_partitioner schemes ?i topics = Inr p"
    "topic_onlyOrgId orgIds ?i = Inr o'" "topic_discardPrefixes discards ?i = Inr d"
    "topic_rewrite rws ?i = Inr (src, tgt)"
    using "2.prems"(1) by (auto simp: Let_def split: sum.splits)
  define t where "t = \<lparr>ts_name = trim_space name, ts_partitioner = p, ts_numPartitions = 0,
    ts_onlyOrgId = o', ts_discardPrefixes = d, ts_rewrite_source = src, ts_rewrite_target = tgt\<rparr>"
  have earlier: "PartitonMethodFromString (trim_space (schemes ! 0)) = Some (ts_partitioner (topics ! j))"
    if "j < ?i" "length schemes = 1" for j
    using list_all2_nthD2 [OF "2.prems"(3) that(1)] that len by (simp add: topic_parsed_def)
  have "topic_parsed schemes orgIds discards rws name ?i t"
    using topic_partitioner_first [OF steps(1) refl "2.prems"(2) earlier] steps(2-4)
    by (auto simp: topic_parsed_def t_def topic_onlyOrgId_def topic_discardPrefixes_def index_or_def
        split: if_splits)
  then have "list_all2 (\<lambda>(name, i) t. topic_parsed schemes orgIds discards rws name i t)
      (zip (pre @ [name]) [0..<length (pre @ [name])]) (topics @ [t])"
    using "2.prems"(3) len by (simp add: list_all2_appendI)
  moreover have "parse_topics schemes orgIds discards rws rest (topics @ [t]) = Inr ts"
    using "2.prems"(1) steps by (simp add: Let_def t_def)
  ultimately show ?case
    using "2.IH" [OF refl steps refl, where pre = "pre @ [name]"] "2.prems"(2) by (simp add: t_def)
qed simp

section \<open>Start-up establishes what Publish needs\<close>

lemma set_partitions_ok:
  assumes "set_partitions su ts = Inr ts'" and "\<And>name n. su_partitions su name = Some n \<Longrightarrow> n < 2 ^ 31"
  shows "\<forall>t \<in> set ts'. 1 \<le> ts_numPartitions t" and "map ts_name ts' = map ts_name ts"
  using assms
  by (induction ts arbitrary: ts')
    (auto simp: int32_of_id less_Suc_eq_0_disj Suc_le_eq split: option.splits if_splits sum.splits)

section \<open>Metrics under another organisation\<close>

text \<open>
  \<open>with_org m org\<close> is the metric as it is published for organisation \<open>org\<close>. A metric is normal when
  its identifier is up to date, as every ingest path leaves it.
\<close>

definition with_org :: "MetricData \<Rightarrow> int \<Rightarrow> MetricData" where
  "with_org m org = SetId (m\<lparr>md_OrgId := org\<rparr>)"

abbreviation normal :: "MetricData \<Rightarrow> bool" where
  "normal m \<equiv> SetId m = m"

definition accepts :: "MetricData \<Rightarrow> topicSettings \<Rightarrow> bool" where
  "accepts m t \<longleftrightarrow> \<not> discarded t m \<and> (ts_onlyOrgId t = 0 \<or> md_OrgId m = ts_onlyOrgId t)"

definition dest_org :: "MetricData \<Rightarrow> topicSettings \<Rightarrow> int" where
  "dest_org m t = (if md_OrgId m = ts_rewrite_source t then ts_rewrite_target t else md_OrgId m)"

definition key_of :: "MetricData \<Rightarrow> MKey" where
  "key_of m = \<lparr>mk_Key = id_hash m, mk_Org = uint32_of (md_OrgId m)\<rparr>"

definition point_of :: "MetricData \<Rightarrow> MetricPoint" where
  "point_of m = \<lparr>mp_MKey = key_of m, mp_Value = md_Value m, mp_Time = uint32_of (md_Time m)\<rparr>"

lemma md_OrgId_with_org [simp]: "md_OrgId (with_org m org) = org"
  by (simp add: with_org_def)

lemma with_org_same [simp]: "normal m \<Longrightarrow> with_org m (md_OrgId m) = m"
  by (simp add: with_org_def)

lemma normal_with_org [simp]: "normal (with_org m org)"
  by (simp add: with_org_def)

lemma with_org_back: "normal m \<Longrightarrow> SetId ((with_org m org)\<lparr>md_OrgId := md_OrgId m\<rparr>) = m"
proof -
  assume "normal m"
  moreover have "SetId ((with_org m org)\<lparr>md_OrgId := md_OrgId m\<rparr>) = SetId m"
    by (simp add: with_org_def SetId_def id_buffer_def)
  ultimately show ?thesis by simp
qed

lemma normal_sorted_tags: "normal m \<Longrightarrow> sort (md_Tags m) = md_Tags m"
  by (metis SetId_fields(8))

lemma PartitionID_normal: "normal m \<Longrightarrow> snd (PartitionID jh m meth n) = m"
proof -
  assume "normal m"
  then have "m\<lparr>md_Tags := sort (md_Tags m)\<rparr> = m" by (simp add: normal_sorted_tags)
  then show ?thesis using PartitionID_metric [of jh m meth n] by auto
qed

lemma key_ok_key_of [simp]: "key_ok (key_of m)"
  by (simp add: key_ok_def key_of_def)

lemma MKeyFromString_normal:
  "normal m \<Longrightarrow> 0 \<le> md_OrgId m \<Longrightarrow> md_OrgId m < 2 ^ 32 \<Longrightarrow> MKeyFromString (md_Id m) = Inr (key_of m)"
  using MKeyFromString_SetId [of m] by (simp add: key_of_def)

section \<open>One encoding\<close>

text \<open>What a consumer can read back from an encoded metric.\<close>

definition encodes ::
  "flags \<Rightarrow> (MetricData \<Rightarrow> gobyte list option) \<Rightarrow> MetricData \<Rightarrow> MetricDataType \<Rightarrow> gobyte list \<Rightarrow> bool" where
  "encodes fl marshalMsg m ty d =
     (case ty of
        TypeMetricData \<Rightarrow> marshalMsg m = Some d
      | TypeMetricPoint \<Rightarrow> fl_v2 fl \<and> (\<exists>e. d = 2 # e \<and> Unmarshal e = Some (point_of m, []))
      | TypeMetricPointNoOrg \<Rightarrow>
          fl_v2 fl \<and> (\<exists>e. d = 3 # e \<and>
            UnmarshalWithoutOrg (uint32_of (md_OrgId m)) e = Some (point_of m, [])))"

definition cache_ready :: "flags \<Rightarrow> KeyCache option \<Rightarrow> bool" where
  "cache_ready fl kc \<longleftrightarrow> (fl_v2 fl \<longrightarrow> (\<exists>k. kc = Some k \<and> kc_inv k))"

definition announced :: "KeyCache option \<Rightarrow> MKey set" where
  "announced kc = (case kc of None \<Rightarrow> {} | Some k \<Rightarrow> seen k)"

definition touched :: "flags \<Rightarrow> MKey set \<Rightarrow> MKey set" where
  "touched fl ks = (if fl_v2 fl then ks else {})"

lemma touched_simps [simp]:
  "touched fl {} = {}" "touched fl (A \<union> B) = touched fl A \<union> touched fl B"
  by (simp_all add: touched_def)

lemma encode_point_ok:
  assumes "length (mk_Key (mp_MKey mp)) = 16"
  shows "encode_point True mp = Inr \<lparr>db_Data = 2 # putWithoutOrg mp @ put_uint32 (mk_Org (mp_MKey mp)),
      db_Type = TypeMetricPoint\<rparr>"
    and "encode_point False mp = Inr \<lparr>db_Data = 3 # putWithoutOrg mp, db_Type = TypeMetricPointNoOrg\<rparr>"
  by (simp_all add: encode_point_def Marshal32_def MarshalWithoutOrg28_def)

lemma encode_point_encodes:
  assumes "fl_v2 fl"
  shows "\<exists>d. encode_point v2Org (point_of m) = Inr d \<and> encodes fl mm m (db_Type d) (db_Data d) \<and>
    db_Type d = (if v2Org then TypeMetricPoint else TypeMetricPointNoOrg)"
proof -
  have len: "length (mk_Key (mp_MKey (point_of m))) = 16"
    by (simp add: point_of_def key_of_def)
  have org: "mk_Org (mp_MKey (point_of m)) = uint32_of (md_OrgId m)"
    by (simp add: point_of_def key_of_def)
  have "(point_of m)\<lparr>mp_MKey := (mp_MKey (point_of m))\<lparr>mk_Org := uint32_of (md_OrgId m)\<rparr>\<rparr> = point_of m"
    by (simp add: point_of_def key_of_def)
  then show ?thesis
    using assms encode_point_ok [OF len] Unmarshal_put [OF len, of "[]"]
      UnmarshalWithoutOrg_put [OF len, of "uint32_of (md_OrgId m)" "[]"] org
    by (cases v2Org) (simp_all add: encodes_def)
qed

text \<open>
  The encoding of a normal metric: the short form exactly when the key was announced, and the key is
  announced afterwards.
\<close>

lemma dataFromMetricData_ok:
  assumes m: "normal m" "0 \<le> md_OrgId m" "md_OrgId m < 2 ^ 32" and mm: "mm m \<noteq> None"
    and kc: "cache_ready fl kc"
  shows "\<exists>d kc'. dataFromMetricData fl mm kc m = (Inr d, kc') \<and> encodes fl mm m (db_Type d) (db_Data d) \<and>
    cache_ready fl kc' \<and> announced kc' = announced kc \<union> touched fl {key_of m} \<and>
    (db_Type d = TypeMetricData \<longleftrightarrow> \<not> fl_v2 fl \<or> key_of m \<notin> announced kc)"
proof (cases "fl_v2 fl")
  case False
  obtain d where d: "mm m = Some d" using mm by blast
  then have "dataFromMetricData fl mm kc m = (Inr \<lparr>db_Data = d, db_Type = TypeMetricData\<rparr>, kc)"
    using False by (simp add: dataFromMetricData_def encode_full_def)
  then show ?thesis using False d by (simp add: encodes_def cache_ready_def touched_def)
next
  case True
  then obtain k where k: "kc = Some k" "kc_inv k" using kc by (auto simp: cache_ready_def)
  note spec = kc.touch_answer [OF k(2) key_ok_key_of] kc.touch_effect [OF k(2) key_ok_key_of]
    kc.touch_inv [OF k(2) key_ok_key_of]
  let ?k' = "Some (snd (KeyCache_Touch k (key_of m)))"
  have eq: "dataFromMetricData fl mm kc m =
      (if key_of m \<in> seen k then encode_point (fl_v2Org fl) (point_of m) else encode_full mm m, ?k')"
    using True k(1) MKeyFromString_normal [OF m] spec(1)
    by (simp add: dataFromMetricData_def point_of_def split_beta)
  have kc': "cache_ready fl ?k'" "announced ?k' = announced kc \<union> touched fl {key_of m}"
    using spec(2,3) True k(1) by (simp_all add: cache_ready_def announced_def touched_def)
  obtain e where e: "mm m = Some e" using mm by blast
  show ?thesis
  proof (cases "key_of m \<in> seen k")
    case True
    then show ?thesis
      using eq kc' encode_point_encodes [OF \<open>fl_v2 fl\<close>, of "fl_v2Org fl" m mm] k(1) \<open>fl_v2 fl\<close>
      by (auto simp: announced_def split: if_splits)
  next
    case False
    then show ?thesis
      using eq kc' k(1) e by (simp add: encode_full_def encodes_def announced_def)
  qed
qed

section \<open>The loops\<close>

definition topic_ready :: "(string \<Rightarrow> int \<Rightarrow> int) \<Rightarrow> topicSettings \<Rightarrow> bool" where
  "topic_ready jh t \<longleftrightarrow>
     1 \<le> ts_numPartitions t \<and> (\<forall>s. 0 \<le> jh s (ts_numPartitions t) \<and> jh s (ts_numPartitions t) < ts_numPartitions t)"

definition metric_ready :: "(MetricData \<Rightarrow> gobyte list option) \<Rightarrow> topicSettings list \<Rightarrow> MetricData \<Rightarrow> bool" where
  "metric_ready mm ts m \<longleftrightarrow>
     normal m \<and> (\<forall>t \<in> set ts. 0 \<le> dest_org m t \<and> dest_org m t < 2 ^ 32 \<and> mm (with_org m (dest_org m t)) \<noteq> None)"

definition message_for ::
  "flags \<Rightarrow> (MetricData \<Rightarrow> gobyte list option) \<Rightarrow> (string \<Rightarrow> int \<Rightarrow> int) \<Rightarrow> MetricData \<Rightarrow> topicSettings
    \<Rightarrow> ProducerMessage \<Rightarrow> bool" where
  "message_for fl mm jh m t msg \<longleftrightarrow>
     pm_Topic msg = ts_name t \<and>
     fst (PartitionID jh (with_org m (dest_org m t)) (ts_partitioner t) (ts_numPartitions t)) =
       Inr (pm_Partition msg) \<and>
     0 \<le> pm_Partition msg \<and> pm_Partition msg < ts_numPartitions t \<and>
     (\<exists>ty. encodes fl mm (with_org m (dest_org m t)) ty (pm_Value msg))"

text \<open>The buffers cached for one metric hold encodings of it, and its keys are announced.\<close>

definition bufs_ok ::
  "flags \<Rightarrow> (MetricData \<Rightarrow> gobyte list option) \<Rightarrow> MetricData \<Rightarrow> (int \<rightharpoonup> MetricDataBuffer) \<Rightarrow> batch \<Rightarrow> bool" where
  "bufs_ok fl mm m bufs b \<longleftrightarrow>
     (\<forall>org d. bufs org = Some d \<longrightarrow> encodes fl mm (with_org m org) (db_Type d) (db_Data d) \<and>
        touched fl {key_of (with_org m org)} \<subseteq> announced (ba_keyCache b))"

lemma count_message_fields [simp]:
  "ba_keyCache (count_message ty n b) = ba_keyCache b" "ba_payload (count_message ty n b) = ba_payload b"
  by (simp_all add: count_message_def split: MetricDataType.splits)

lemma publish_topic_skips:
  "\<not> accepts m t \<Longrightarrow> publish_topic fl mm jh t m bufs b = (None, m, bufs, b)"
  by (auto simp: publish_topic_def accepts_def)

text \<open>The buffer for a topic: the cached one, or a new one that is cached.\<close>

definition topic_buffer ::
  "flags \<Rightarrow> (MetricData \<Rightarrow> gobyte list option) \<Rightarrow> MetricData \<Rightarrow> (int \<rightharpoonup> MetricDataBuffer) \<Rightarrow> batch
    \<Rightarrow> (publish_error + MetricDataBuffer) \<times> (int \<rightharpoonup> MetricDataBuffer) \<times> batch" where
  "topic_buffer fl mm metric bufs b =
     (case bufs (md_OrgId metric) of
        Some mdBuffer \<Rightarrow> (Inr mdBuffer, bufs, b)
      | None \<Rightarrow>
          (case dataFromMetricData fl mm (ba_keyCache b) metric of
             (Inl e, kc) \<Rightarrow> (Inl e, bufs, b\<lparr>ba_keyCache := kc\<rparr>)
           | (Inr mdBuffer, kc) \<Rightarrow>
               (Inr mdBuffer, bufs(md_OrgId metric \<mapsto> mdBuffer),
                b\<lparr>ba_keyCache := kc, ba_toRelease := ba_toRelease b @ [db_Data mdBuffer]\<rparr>)))"

lemma topic_buffer_ok:
  assumes org: "0 \<le> org" "org < 2 ^ 32" and mm: "mm (with_org m org) \<noteq> None"
    and bufs: "bufs_ok fl mm m bufs b" and kc: "cache_ready fl (ba_keyCache b)"
  shows "\<exists>d bufs' b'. topic_buffer fl mm (with_org m org) bufs b = (Inr d, bufs', b') \<and>
    encodes fl mm (with_org m org) (db_Type d) (db_Data d) \<and> bufs_ok fl mm m bufs' b' \<and>
    cache_ready fl (ba_keyCache b') \<and> ba_payload b' = ba_payload b \<and>
    announced (ba_keyCache b') = announced (ba_keyCache b) \<union> touched fl {key_of (with_org m org)}"
proof (cases "bufs org")
  case (Some d)
  then have "topic_buffer fl mm (with_org m org) bufs b = (Inr d, bufs, b)"
    by (simp add: topic_buffer_def)
  then show ?thesis using Some bufs kc by (auto simp: bufs_ok_def)
next
  case None
  obtain d kc' where d: "dataFromMetricData fl mm (ba_keyCache b) (with_org m org) = (Inr d, kc')"
    "encodes fl mm (with_org m org) (db_Type d) (db_Data d)" "cache_ready fl kc'"
    "announced kc' = announced (ba_keyCache b) \<union> touched fl {key_of (with_org m org)}"
    using dataFromMetricData_ok [of "with_org m org" mm fl "ba_keyCache b"] org mm kc by auto
  let ?b' = "b\<lparr>ba_keyCache := kc', ba_toRelease := ba_toRelease b @ [db_Data d]\<rparr>"
  have "topic_buffer fl mm (with_org m org) bufs b = (Inr d, bufs(org \<mapsto> d), ?b')"
    using None d(1) by (simp add: topic_buffer_def)
  moreover have "bufs_ok fl mm m (bufs(org \<mapsto> d)) ?b'"
    using bufs d(2,4) by (auto simp: bufs_ok_def)
  ultimately show ?thesis using d by auto
qed

lemma publish_topic_buffer:
  assumes "normal m" and "accepts m t" and buf: "topic_buffer fl mm (with_org m (dest_org m t)) bufs b = (Inr d, bufs', b')"
    and part: "fst (PartitionID jh (with_org m (dest_org m t)) (ts_partitioner t) (ts_numPartitions t)) = Inr p"
  shows "publish_topic fl mm jh t m bufs b =
    (None, m, bufs', count_message (db_Type d) (ts_name t)
       (b'\<lparr>ba_payload := ba_payload b' @ [\<lparr>pm_Topic = ts_name t, pm_Partition = p, pm_Value = db_Data d\<rparr>]\<rparr>))"
proof -
  let ?m' = "with_org m (dest_org m t)"
  have conv: "(if md_OrgId m = ts_rewrite_source t then SetId (m\<lparr>md_OrgId := ts_rewrite_target t\<rparr>) else m) = ?m'"
    using assms(1) by (auto simp: dest_org_def) (simp_all add: with_org_def)
  have restore: "(if md_OrgId ?m' \<noteq> md_OrgId m then SetId (?m'\<lparr>md_OrgId := md_OrgId m\<rparr>) else ?m') = m"
    using assms(1) with_org_back by auto
  have pid: "PartitionID jh ?m' (ts_partitioner t) (ts_numPartitions t) = (Inr p, ?m')"
    using part PartitionID_normal [of ?m'] by (metis normal_with_org prod.collapse)
  show ?thesis
    unfolding publish_topic_def Let_def conv topic_buffer_def [symmetric] buf
    using assms(2) pid restore by (simp add: accepts_def) auto
qed

lemma publish_topic_ok:
  assumes m: "normal m" and acc: "accepts m t" and t: "topic_ready jh t"
    and org: "0 \<le> dest_org m t" "dest_org m t < 2 ^ 32" and mm: "mm (with_org m (dest_org m t)) \<noteq> None"
    and bufs: "bufs_ok fl mm m bufs b" and kc: "cache_ready fl (ba_keyCache b)"
  shows "\<exists>bufs' b' msg. publish_topic fl mm jh t m bufs b = (None, m, bufs', b') \<and>
    bufs_ok fl mm m bufs' b' \<and> cache_ready fl (ba_keyCache b') \<and>
    announced (ba_keyCache b') =
      announced (ba_keyCache b) \<union> touched fl {key_of (with_org m (dest_org m t))} \<and>
    ba_payload b' = ba_payload b @ [msg] \<and> message_for fl mm jh m t msg"
proof -
  obtain d bufs' b' where d: "topic_buffer fl mm (with_org m (dest_org m t)) bufs b = (Inr d, bufs', b')"
    "encodes fl mm (with_org m (dest_org m t)) (db_Type d) (db_Data d)" "bufs_ok fl mm m bufs' b'"
    "cache_ready fl (ba_keyCache b')" "ba_payload b' = ba_payload b"
    "announced (ba_keyCache b') =
      announced (ba_keyCache b) \<union> touched fl {key_of (with_org m (dest_org m t))}"
    using topic_buffer_ok [OF org mm bufs kc] by blast
  obtain p where p: "fst (PartitionID jh (with_org m (dest_org m t)) (ts_partitioner t) (ts_numPartitions t)) = Inr p"
    "0 \<le> p" "p < ts_numPartitions t"
    using PartitionID_range [of "ts_numPartitions t" jh "with_org m (dest_org m t)" "ts_partitioner t"] t
    by (auto simp: topic_ready_def)
  let ?msg = "\<lparr>pm_Topic = ts_name t, pm_Partition = p, pm_Value = db_Data d\<rparr>"
  let ?b'' = "count_message (db_Type d) (ts_name t) (b'\<lparr>ba_payload := ba_payload b' @ [?msg]\<rparr>)"
  have "publish_topic fl mm jh t m bufs b = (None, m, bufs', ?b'')"
    by (rule publish_topic_buffer [OF m acc d(1) p(1)])
  moreover have "bufs_ok fl mm m bufs' ?b''" using d(3) by (simp add: bufs_ok_def)
  moreover have "message_for fl mm jh m t ?msg" using p d(2) by (auto simp: message_for_def)
  ultimately show ?thesis using d(4-6) by auto
qed

lemma publish_topics_ok:
  assumes "normal m" and "\<forall>t \<in> set ts. topic_ready jh t" and "metric_ready mm ts m"
    and "bufs_ok fl mm m bufs b" and "cache_ready fl (ba_keyCache b)"
  shows "\<exists>b' msgs. publish_topics fl mm jh ts m bufs b = (None, m, b') \<and>
    cache_ready fl (ba_keyCache b') \<and>
    announced (ba_keyCache b') = announced (ba_keyCache b) \<union>
      touched fl ((\<lambda>t. key_of (with_org m (dest_org m t))) ` set (filter (accepts m) ts)) \<and>
    ba_payload b' = ba_payload b @ msgs \<and>
    list_all2 (message_for fl mm jh m) (filter (accepts m) ts) msgs"
  using assms
proof (induction ts arbitrary: bufs b)
  case Nil
  then show ?case by simp
next
  case (Cons t ts)
  have ready: "metric_ready mm ts m" using Cons.prems(3) by (simp add: metric_ready_def)
  show ?case
  proof (cases "accepts m t")
    case False
    then show ?thesis
      using Cons.IH [OF Cons.prems(1) _ ready Cons.prems(4,5)] Cons.prems(2)
      by (simp add: publish_topic_skips)
  next
    case True
    have t1: "topic_ready jh t" using Cons.prems(2) by simp
    have t2: "0 \<le> dest_org m t" and t3: "dest_org m t < 2 ^ 32" and t4: "mm (with_org m (dest_org m t)) \<noteq> None"
      using Cons.prems(3) by (simp_all add: metric_ready_def)
    obtain bufs' b' msg where one: "publish_topic fl mm jh t m bufs b = (None, m, bufs', b')"
      "bufs_ok fl mm m bufs' b'" "cache_ready fl (ba_keyCache b')"
      "announced (ba_keyCache b') =
        announced (ba_keyCache b) \<union> touched fl {key_of (with_org m (dest_org m t))}"
      "ba_payload b' = ba_payload b @ [msg]" "message_for fl mm jh m t msg"
      using publish_topic_ok [OF Cons.prems(1) True t1 t2 t3 t4 Cons.prems(4,5)] by blast
    obtain b'' msgs where rest: "publish_topics fl mm jh ts m bufs' b' = (None, m, b'')"
      "cache_ready fl (ba_keyCache b'')"
      "announced (ba_keyCache b'') = announced (ba_keyCache b') \<union>
        touched fl ((\<lambda>t. key_of (with_org m (dest_org m t))) ` set (filter (accepts m) ts))"
      "ba_payload b'' = ba_payload b' @ msgs" "list_all2 (message_for fl mm jh m) (filter (accepts m) ts) msgs"
      using Cons.IH [OF Cons.prems(1) _ ready one(2,3)] Cons.prems(2) by auto
    have "announced (ba_keyCache b'') = announced (ba_keyCache b) \<union>
        touched fl ((\<lambda>t. key_of (with_org m (dest_org m t))) ` set (filter (accepts m) (t # ts)))"
      using rest(3) one(4) True by (auto simp: touched_def split: if_splits)
    then show ?thesis using one rest True by (intro exI [of _ b''] exI [of _ "msg # msgs"]) simp
  qed
qed

text \<open>The deliveries a batch calls for, in the order of the loops.\<close>

definition deliveries :: "topicSettings list \<Rightarrow> MetricData list \<Rightarrow> (MetricData \<times> topicSettings) list" where
  "deliveries ts ms = concat (map (\<lambda>m. map (Pair m) (filter (accepts m) ts)) ms)"

definition delivery_keys :: "topicSettings list \<Rightarrow> MetricData list \<Rightarrow> MKey set" where
  "delivery_keys ts ms = (\<lambda>(m, t). key_of (with_org m (dest_org m t))) ` set (deliveries ts ms)"

lemma deliveries_Cons:
  "deliveries ts (m # ms) = map (Pair m) (filter (accepts m) ts) @ deliveries ts ms"
  by (simp add: deliveries_def)

lemma delivery_keys_Cons:
  "delivery_keys ts (m # ms) =
     (\<lambda>t. key_of (with_org m (dest_org m t))) ` set (filter (accepts m) ts) \<union> delivery_keys ts ms"
  by (force simp: delivery_keys_def deliveries_Cons)

lemma publish_metrics_ok:
  assumes "list_all2 (\<lambda>x y. deduce_interval mp x = Some (Inr y)) xs ms"
    and "\<forall>t \<in> set (mt_topics mp). topic_ready jh t" and "\<forall>m \<in> set ms. metric_ready mm (mt_topics mp) m"
    and "cache_ready fl (ba_keyCache b)"
  shows "\<exists>b' msgs. publish_metrics fl mm jh mp xs b = Some (None, ms, b') \<and>
    announced (ba_keyCache b') =
      announced (ba_keyCache b) \<union> touched fl (delivery_keys (mt_topics mp) ms) \<and>
    cache_ready fl (ba_keyCache b') \<and> ba_payload b' = ba_payload b @ msgs \<and>
    list_all2 (\<lambda>(m, t) msg. message_for fl mm jh m t msg) (deliveries (mt_topics mp) ms) msgs"
  using assms
proof (induction xs ms arbitrary: b rule: list_all2_induct)
  case Nil
  then show ?case by (simp add: deliveries_def delivery_keys_def)
next
  case (Cons x xs m ms)
  have m: "metric_ready mm (mt_topics mp) m" "normal m"
    using Cons.prems(2) by (simp_all add: metric_ready_def)
  have bufs: "bufs_ok fl mm m Map.empty b" by (simp add: bufs_ok_def)
  obtain b1 msgs1 where one: "publish_topics fl mm jh (mt_topics mp) m Map.empty b = (None, m, b1)"
    "cache_ready fl (ba_keyCache b1)"
    "announced (ba_keyCache b1) = announced (ba_keyCache b) \<union>
      touched fl ((\<lambda>t. key_of (with_org m (dest_org m t))) ` set (filter (accepts m) (mt_topics mp)))"
    "ba_payload b1 = ba_payload b @ msgs1"
    "list_all2 (message_for fl mm jh m) (filter (accepts m) (mt_topics mp)) msgs1"
    using publish_topics_ok [OF m(2) Cons.prems(1) m(1) bufs Cons.prems(3)] by blast
  obtain b2 msgs2 where rest: "publish_metrics fl mm jh mp xs b1 = Some (None, ms, b2)"
    "announced (ba_keyCache b2) =
      announced (ba_keyCache b1) \<union> touched fl (delivery_keys (mt_topics mp) ms)"
    "cache_ready fl (ba_keyCache b2)" "ba_payload b2 = ba_payload b1 @ msgs2"
    "list_all2 (\<lambda>(m, t) msg. message_for fl mm jh m t msg) (deliveries (mt_topics mp) ms) msgs2"
    using Cons.IH [OF Cons.prems(1) _ one(2)] Cons.prems(2) by auto
  have keys: "announced (ba_keyCache b2) =
      announced (ba_keyCache b) \<union> touched fl (delivery_keys (mt_topics mp) (m # ms))"
    unfolding rest(2) one(3) delivery_keys_Cons by (simp add: Un_assoc)
  have "list_all2 (\<lambda>(m, t) msg. message_for fl mm jh m t msg)
      (map (Pair m) (filter (accepts m) (mt_topics mp))) msgs1"
    using one(5) by (simp add: list_all2_map1)
  then have "list_all2 (\<lambda>(m, t) msg. message_for fl mm jh m t msg)
      (deliveries (mt_topics mp) (m # ms)) (msgs1 @ msgs2)"
    using rest(5) by (simp add: deliveries_Cons list_all2_appendI)
  then show ?case
    using Cons.hyps(1) one(1,4) rest(1,3,4) keys
    by (intro exI [of _ b2] exI [of _ "msgs1 @ msgs2"]) simp
qed

section \<open>Counting\<close>

definition count_topic :: "ProducerMessage list \<Rightarrow> string \<Rightarrow> nat" where
  "count_topic msgs n = length (filter (\<lambda>pm. pm_Topic pm = n) msgs)"

definition counts_ok :: "batch \<Rightarrow> bool" where
  "counts_ok b \<longleftrightarrow> (\<forall>n. ba_pubMD b n + ba_pubMP b n + ba_pubMPNO b n = count_topic (ba_payload b) n)"

lemma counts_ok_message:
  "counts_ok b \<Longrightarrow> pm_Topic msg = n \<Longrightarrow>
   counts_ok (count_message ty n (b\<lparr>ba_payload := ba_payload b @ [msg]\<rparr>))"
  "counts_ok b \<Longrightarrow> pm_Topic msg = n \<Longrightarrow>
   counts_ok (count_message ty n
     (b\<lparr>ba_keyCache := kc, ba_toRelease := r, ba_payload := ba_payload b @ [msg]\<rparr>))"
  by (cases ty; auto simp: counts_ok_def count_message_def count_topic_def)+

lemma counts_ok_cong:
  "counts_ok b \<Longrightarrow> counts_ok (b\<lparr>ba_keyCache := kc\<rparr>)"
  "counts_ok b \<Longrightarrow> counts_ok (b\<lparr>ba_keyCache := kc, ba_toRelease := r\<rparr>)"
  by (simp_all add: counts_ok_def)

lemma publish_topic_counts:
  assumes "counts_ok b" and "publish_topic fl mm jh t m bufs b = (e, m', bufs', b')"
  shows "counts_ok b'"
  using assms
  by (auto simp: publish_topic_def Let_def counts_ok_cong counts_ok_message
      split: if_splits option.splits prod.splits sum.splits)

lemma publish_topics_counts:
  "counts_ok b \<Longrightarrow> publish_topics fl mm jh ts m bufs b = (e, m', b') \<Longrightarrow> counts_ok b'"
proof (induction ts arbitrary: m bufs b)
  case (Cons t ts)
  then show ?case
    by (auto split: prod.splits option.splits dest: publish_topic_counts)
qed simp

lemma publish_metrics_counts:
  "counts_ok b \<Longrightarrow> publish_metrics fl mm jh mp xs b = Some (e, ms, b') \<Longrightarrow> counts_ok b'"
proof (induction xs arbitrary: b ms)
  case (Cons x xs)
  then show ?case
    by (auto split: prod.splits option.splits sum.splits dest: publish_topics_counts)
qed simp

lemma count_published_sums:
  "ks_publishedMD (count_published b ts ks) =
     ks_publishedMD ks + of_nat (sum_list (map (\<lambda>t. ba_pubMD b (ts_name t)) ts))"
  "ks_publishedMP (count_published b ts ks) =
     ks_publishedMP ks + of_nat (sum_list (map (\<lambda>t. ba_pubMP b (ts_name t)) ts))"
  "ks_publishedMPNO (count_published b ts ks) =
     ks_publishedMPNO ks + of_nat (sum_list (map (\<lambda>t. ba_pubMPNO b (ts_name t)) ts))"
  "ks_keyCache (count_published b ts ks) = ks_keyCache ks"
  by (induction ts arbitrary: ks) (simp_all add: count_published_def)

lemma sum_count_topic:
  "distinct ns \<Longrightarrow> (\<forall>pm \<in> set msgs. pm_Topic pm \<in> set ns) \<Longrightarrow>
   sum_list (map (count_topic msgs) ns) = length msgs"
proof (induction msgs)
  case (Cons pm msgs)
  have "sum_list (map (count_topic (pm # msgs)) ns) =
      sum_list (map (\<lambda>n. (if n = pm_Topic pm then 1 else 0) + count_topic msgs n) ns)"
    by (intro arg_cong [where f = sum_list] map_cong) (auto simp: count_topic_def)
  also have "\<dots> = sum_list (map (\<lambda>n. if n = pm_Topic pm then 1 else 0) ns) + length msgs"
    using Cons by (simp add: sum_list_addf)
  also have "sum_list (map (\<lambda>n. if n = pm_Topic pm then 1 else 0 :: nat) ns) = 1"
    using Cons.prems by (simp add: sum_list_map_eq_sum_count2 [symmetric] sum_list_distinct_conv_sum_set)
  finally show ?case by simp
qed (simp add: count_topic_def)

lemma count_published_total:
  assumes "counts_ok b" and "distinct (map ts_name ts)"
    and "\<forall>pm \<in> set (ba_payload b). pm_Topic pm \<in> set (map ts_name ts)"
  shows "ks_publishedMD (count_published b ts ks) + ks_publishedMP (count_published b ts ks) +
      ks_publishedMPNO (count_published b ts ks) =
    ks_publishedMD ks + ks_publishedMP ks + ks_publishedMPNO ks + of_nat (length (ba_payload b))"
proof -
  have "sum_list (map (\<lambda>t. ba_pubMD b (ts_name t)) ts) + sum_list (map (\<lambda>t. ba_pubMP b (ts_name t)) ts) +
      sum_list (map (\<lambda>t. ba_pubMPNO b (ts_name t)) ts) =
      sum_list (map (count_topic (ba_payload b)) (map ts_name ts))"
    using assms(1) by (simp add: sum_list_addf [symmetric] counts_ok_def comp_def)
  also have "\<dots> = length (ba_payload b)" by (rule sum_count_topic [OF assms(2,3)])
  finally have "(of_nat (sum_list (map (\<lambda>t. ba_pubMD b (ts_name t)) ts)) +
      of_nat (sum_list (map (\<lambda>t. ba_pubMP b (ts_name t)) ts)) +
      of_nat (sum_list (map (\<lambda>t. ba_pubMPNO b (ts_name t)) ts)) :: uint32) = of_nat (length (ba_payload b))"
    by (metis of_nat_add)
  then show ?thesis by (simp add: count_published_sums algebra_simps)
qed

section \<open>A batch that can be published\<close>

definition deduced :: "StorageSchema list \<Rightarrow> MetricData \<Rightarrow> MetricData" where
  "deduced raw x =
     (if md_Interval x = 0
      then SetId (x\<lparr>md_Interval := rt_SecondsPerPoint (hd (sch_Retentions (match_spec (md_Name x) 0 raw)))\<rparr>)
      else x)"

definition interval_ready :: "mtPublisher \<Rightarrow> StorageSchema list \<Rightarrow> MetricData \<Rightarrow> bool" where
  "interval_ready mp raw x \<longleftrightarrow>
     md_Interval x \<noteq> 0 \<or>
     (mt_autoInterval mp \<and> mt_schemas mp = Some (NewSchemas raw) \<and>
      (\<forall>s \<in> set raw. Retentions_Validate (sch_Retentions s) = None))"

lemma deduce_interval_ok:
  assumes "interval_ready mp raw x"
  shows "deduce_interval mp x = Some (Inr (deduced raw x))"
proof (cases "md_Interval x = 0")
  case True
  then have auto: "mt_autoInterval mp" "mt_schemas mp = Some (NewSchemas raw)"
    and valid: "\<forall>s \<in> set raw. Retentions_Validate (sch_Retentions s) = None"
    using assms by (simp_all add: interval_ready_def)
  have rets: "\<And>s. s \<in> set raw \<Longrightarrow> sch_Retentions s \<noteq> []"
    using valid by (auto simp: Retentions_Validate_def split: if_splits)
  obtain i where i: "Schemas_Match (NewSchemas raw) (md_Name x) 0 = Some (Inr (i, match_spec (md_Name x) 0 raw))"
    using Schemas_Match_spec [OF rets] by blast
  have "sch_Retentions (match_spec (md_Name x) 0 raw) \<noteq> []" using match_spec_nonempty [OF rets] .
  then show ?thesis
    using True auto i by (simp add: deduce_interval_def deduced_def hd_conv_nth)
qed (simp add: deduce_interval_def deduced_def)

definition batch_ready ::
  "flags \<Rightarrow> (MetricData \<Rightarrow> gobyte list option) \<Rightarrow> (string \<Rightarrow> int \<Rightarrow> int) \<Rightarrow> mtPublisher \<Rightarrow> StorageSchema list
    \<Rightarrow> MetricData list \<Rightarrow> kstate \<Rightarrow> bool" where
  "batch_ready fl mm jh mp raw metrics ks \<longleftrightarrow>
     metrics \<noteq> [] \<and> mt_topics mp \<noteq> [] \<and> (\<forall>t \<in> set (mt_topics mp). topic_ready jh t) \<and>
     (\<forall>x \<in> set metrics. interval_ready mp raw x \<and> metric_ready mm (mt_topics mp) (deduced raw x)) \<and>
     cache_ready fl (ks_keyCache ks)"

lemma batch_ready_metrics:
  assumes "batch_ready fl mm jh mp raw metrics ks"
  shows "\<exists>b. publish_metrics fl mm jh mp metrics (empty_batch (ks_keyCache ks)) =
      Some (None, map (deduced raw) metrics, b) \<and>
    list_all2 (\<lambda>(m, t) msg. message_for fl mm jh m t msg)
      (deliveries (mt_topics mp) (map (deduced raw) metrics)) (ba_payload b) \<and>
    announced (ba_keyCache b) = announced (ks_keyCache ks) \<union>
      touched fl (delivery_keys (mt_topics mp) (map (deduced raw) metrics)) \<and>
    cache_ready fl (ba_keyCache b) \<and> counts_ok b"
proof -
  have "list_all2 (\<lambda>x y. deduce_interval mp x = Some (Inr y)) metrics (map (deduced raw) metrics)"
    using assms by (auto simp: batch_ready_def list_all2_conv_all_nth intro!: deduce_interval_ok)
  then obtain b msgs where run: "publish_metrics fl mm jh mp metrics (empty_batch (ks_keyCache ks)) =
      Some (None, map (deduced raw) metrics, b)"
    "announced (ba_keyCache b) = announced (ks_keyCache ks) \<union>
      touched fl (delivery_keys (mt_topics mp) (map (deduced raw) metrics))"
    "cache_ready fl (ba_keyCache b)" "ba_payload b = msgs"
    "list_all2 (\<lambda>(m, t) msg. message_for fl mm jh m t msg)
      (deliveries (mt_topics mp) (map (deduced raw) metrics)) msgs"
    using publish_metrics_ok [of mp metrics "map (deduced raw) metrics" jh mm fl "empty_batch (ks_keyCache ks)"] assms
    by (auto simp: batch_ready_def empty_batch_def)
  have "counts_ok (empty_batch (ks_keyCache ks))"
    by (simp add: counts_ok_def empty_batch_def count_topic_def)
  from publish_metrics_counts [OF this run(1)] run show ?thesis by blast
qed

lemma payload_topics:
  assumes "list_all2 (\<lambda>(m, t) msg. message_for fl mm jh m t msg) (deliveries ts ms) msgs"
  shows "\<forall>pm \<in> set msgs. pm_Topic pm \<in> set (map ts_name ts)"
proof
  fix pm
  assume "pm \<in> set msgs"
  then obtain i where i: "i < length msgs" "msgs ! i = pm" by (auto simp: in_set_conv_nth)
  obtain m t where mt: "deliveries ts ms ! i = (m, t)" by (cases "deliveries ts ms ! i")
  then have "(m, t) \<in> set (deliveries ts ms)"
    using i(1) list_all2_lengthD [OF assms] by (metis nth_mem)
  moreover have "pm_Topic pm = ts_name t"
    using list_all2_nthD2 [OF assms i(1)] mt i(2) by (simp add: message_for_def)
  ultimately show "pm_Topic pm \<in> set (map ts_name ts)" by (auto simp: deliveries_def)
qed

lemma Publish_batch_ready:
  assumes "batch_ready fl marshalMsg jumpHash mp raw metrics ks"
  shows "\<exists>msgs ks'. list_all2 (\<lambda>(m, t) msg. message_for fl marshalMsg jumpHash m t msg)
      (deliveries (mt_topics mp) (map (deduced raw) metrics)) msgs \<and>
    Publish fl marshalMsg jumpHash send True mp metrics ks =
      Some (map_option ErrSend (send msgs), map (deduced raw) metrics, ks') \<and>
    cache_ready fl (ks_keyCache ks')"
proof -
  obtain b where run: "publish_metrics fl marshalMsg jumpHash mp metrics (empty_batch (ks_keyCache ks)) =
      Some (None, map (deduced raw) metrics, b)"
    and msgs: "list_all2 (\<lambda>(m, t) msg. message_for fl marshalMsg jumpHash m t msg)
      (deliveries (mt_topics mp) (map (deduced raw) metrics)) (ba_payload b)"
    and kc: "cache_ready fl (ba_keyCache b)"
    using batch_ready_metrics [OF assms] by blast
  have ne: "metrics \<noteq> []" "mt_topics mp \<noteq> []" using assms by (simp_all add: batch_ready_def)
  show ?thesis
  proof (cases "send (ba_payload b)")
    case None
    then show ?thesis
      using run msgs kc ne
      by (intro exI [of _ "ba_payload b"]) (simp add: Publish_def Let_def count_published_sums(4))
  next
    case (Some e)
    then show ?thesis
      using run msgs kc ne
      by (intro exI [of _ "ba_payload b"])
        (simp add: Publish_def Let_def count_send_error_def split: send_error.splits)
  qed
qed

section \<open>Properties\<close>

text \<open>
  C1. Publishing a batch. With a producer, at least one metric and one topic, partition counts of at least one,
  metrics that can be encoded, up-to-date identifiers, organisations of 32 bits, and a schema for every metric
  without an interval, \<^verbatim>\<open>Publish\<close> ends, hands the producer one message
  for every metric and every topic that accepts it, in the order of its loops and no other, each with
  the topic's name, a partition of that topic and an encoding from which the metric under its rewritten
  organisation can be read back; the caller's metrics come back unchanged but for deduced intervals, with the
  identifiers that follow from them, and the result is the producer's.
\<close>

theorem publish_delivers_batch:
  assumes "batch_ready fl marshalMsg jumpHash mp raw metrics ks"
  shows "\<exists>msgs ks'. list_all2 (\<lambda>(m, t) msg. message_for fl marshalMsg jumpHash m t msg)
      (deliveries (mt_topics mp) (map (deduced raw) metrics)) msgs \<and>
    Publish fl marshalMsg jumpHash send True mp metrics ks =
      Some (map_option ErrSend (send msgs), map (deduced raw) metrics, ks') \<and>
    cache_ready fl (ks_keyCache ks')"
  by (rule Publish_batch_ready [OF assms])

definition sample_topic :: topicSettings where
  "sample_topic =
     \<lparr>ts_name = ''mdm'', ts_partitioner = PartitionBySeries, ts_numPartitions = 8, ts_onlyOrgId = 0,
      ts_discardPrefixes = [''tmp.''], ts_rewrite_source = 7, ts_rewrite_target = 45\<rparr>"

definition sample_publisher :: mtPublisher where
  "sample_publisher = \<lparr>mt_schemas = Some (NewSchemas []), mt_autoInterval = True, mt_topics = [sample_topic]\<rparr>"

definition sample_flags :: flags where
  "sample_flags =
     \<lparr>fl_enabled = True, fl_partitionSchemesStr = ''bySeries'', fl_topicsStr = ''mdm'', fl_onlyOrgIds = [],
      fl_discardPrefixesStr = [], fl_rewriteOrgIdStr = ''7:45'', fl_codec = ''snappy'', fl_tlsEnabled = False,
      fl_v2 = True, fl_v2Org = True, fl_v2ClearInterval = 3600000000000\<rparr>"

definition sample_kstate :: kstate where
  "sample_kstate =
     \<lparr>ks_keyCache = Some (NewKeyCache 3600000000000), ks_publishedMD = 0, ks_publishedMP = 0,
      ks_publishedMPNO = 0, ks_sendErrProducer = 0, ks_sendErrOther = 0\<rparr>"

abbreviation sample_batch :: "MetricData list" where
  "sample_batch \<equiv> [SetId sample_metric, SetId (sample_metric\<lparr>md_Interval := 0\<rparr>)]"

lemma metric_ready_sample:
  "metric_ready (\<lambda>m. Some []) [sample_topic] (SetId (sample_metric\<lparr>md_Interval := i\<rparr>))"
  by (simp add: metric_ready_def dest_org_def sample_topic_def sample_metric_def)

lemma batch_ready_sample:
  "batch_ready sample_flags (\<lambda>m. Some []) (\<lambda>s n. 0) sample_publisher [] sample_batch sample_kstate"
proof -
  have a: "deduced [] (SetId sample_metric) = SetId (sample_metric\<lparr>md_Interval := 10\<rparr>)"
    by (simp add: deduced_def sample_metric_def)
  have b: "\<exists>i. deduced [] (SetId (sample_metric\<lparr>md_Interval := 0\<rparr>)) = SetId (sample_metric\<lparr>md_Interval := i\<rparr>)"
    by (simp add: deduced_def SetId_def id_buffer_def) blast
  have c: "cache_ready sample_flags (ks_keyCache sample_kstate)"
    by (simp add: cache_ready_def sample_kstate_def)
  have d: "topic_ready (\<lambda>s n. 0) sample_topic" by (simp add: topic_ready_def sample_topic_def)
  have e: "interval_ready sample_publisher [] x" for x
    by (simp add: interval_ready_def sample_publisher_def)
  have t: "mt_topics sample_publisher = [sample_topic]" by (simp add: sample_publisher_def)
  from b obtain i where "deduced [] (SetId (sample_metric\<lparr>md_Interval := 0\<rparr>)) = SetId (sample_metric\<lparr>md_Interval := i\<rparr>)"
    by blast
  then show ?thesis using a c d e metric_ready_sample by (simp add: batch_ready_def t)
qed

theorem publish_delivers_batch_witness:
  "\<exists>msgs ks'. list_all2 (\<lambda>(m, t) msg. message_for sample_flags (\<lambda>m. Some []) (\<lambda>s n. 0) m t msg)
      (deliveries (mt_topics sample_publisher) (map (deduced []) sample_batch)) msgs \<and>
    Publish sample_flags (\<lambda>m. Some []) (\<lambda>s n. 0) (\<lambda>msgs. None) True sample_publisher sample_batch sample_kstate =
      Some (map_option ErrSend None, map (deduced []) sample_batch, ks') \<and>
    cache_ready sample_flags (ks_keyCache ks')"
  by (rule publish_delivers_batch [OF batch_ready_sample])

text \<open>
  C2. The short encoding is only used for announced keys. For a metric with an up-to-date identifier and
  an organisation of 32 bits, \<^verbatim>\<open>dataFromMetricData\<close> succeeds; it gives the full \<^verbatim>\<open>MetricData\<close> exactly when
  the optimised format is off or the key is not in the key cache, otherwise a point, with the
  organisation exactly when \<^verbatim>\<open>v2-org\<close> is set, that decodes to this metric's key, value and time; and
  the key is in the cache afterwards.
\<close>

theorem short_form_only_when_announced:
  assumes "SetId m = m" and "0 \<le> md_OrgId m" and "md_OrgId m < 2 ^ 32" and "marshalMsg m \<noteq> None"
    and "cache_ready fl kc"
  shows "\<exists>d kc'. dataFromMetricData fl marshalMsg kc m = (Inr d, kc') \<and>
    db_Type d = (if \<not> fl_v2 fl \<or> key_of m \<notin> announced kc then TypeMetricData
                 else if fl_v2Org fl then TypeMetricPoint else TypeMetricPointNoOrg) \<and>
    encodes fl marshalMsg m (db_Type d) (db_Data d) \<and>
    announced kc' = announced kc \<union> (if fl_v2 fl then {key_of m} else {})"
proof -
  obtain d kc' where d: "dataFromMetricData fl marshalMsg kc m = (Inr d, kc')"
    "encodes fl marshalMsg m (db_Type d) (db_Data d)"
    "announced kc' = announced kc \<union> touched fl {key_of m}"
    "db_Type d = TypeMetricData \<longleftrightarrow> \<not> fl_v2 fl \<or> key_of m \<notin> announced kc"
    using dataFromMetricData_ok [of m marshalMsg fl kc] assms by blast
  moreover have "db_Type d \<noteq> TypeMetricData \<Longrightarrow>
      db_Type d = (if fl_v2Org fl then TypeMetricPoint else TypeMetricPointNoOrg)"
    using d(1) by (auto simp: dataFromMetricData_def encode_full_def encode_point_def Let_def
        split: if_splits sum.splits option.splits prod.splits)
  ultimately show ?thesis by (auto simp: touched_def)
qed

theorem short_form_only_when_announced_witness:
  "\<exists>d kc'. dataFromMetricData sample_flags (\<lambda>m. Some []) (Some (NewKeyCache 256)) (SetId sample_metric) = (Inr d, kc') \<and>
    db_Type d = TypeMetricData \<and> announced kc' = {key_of (SetId sample_metric)}"
proof -
  have "cache_ready sample_flags (Some (NewKeyCache 256))" by (simp add: cache_ready_def)
  moreover have "announced (Some (NewKeyCache 256)) = {}" by (simp add: announced_def)
  moreover have "fl_v2 sample_flags" by (simp add: sample_flags_def)
  moreover have "md_OrgId sample_metric = 7" by (simp add: sample_metric_def)
  ultimately show ?thesis
    using short_form_only_when_announced
      [of "SetId sample_metric" "\<lambda>m. Some []" sample_flags "Some (NewKeyCache 256)"]
    by auto
qed

text \<open>
  Accounting of a successful batch: with distinct topic names, the three published counters together
  grow by the number of messages the producer was given, modulo 2 to the 32.
\<close>

theorem published_counters_match:
  assumes "batch_ready fl marshalMsg jumpHash mp raw metrics ks" and "\<And>msgs. send msgs = None"
    and "distinct (map ts_name (mt_topics mp))"
  shows "\<exists>ks'. Publish fl marshalMsg jumpHash send True mp metrics ks =
      Some (None, map (deduced raw) metrics, ks') \<and>
    ks_publishedMD ks' + ks_publishedMP ks' + ks_publishedMPNO ks' =
      ks_publishedMD ks + ks_publishedMP ks + ks_publishedMPNO ks +
      of_nat (length (deliveries (mt_topics mp) (map (deduced raw) metrics)))"
proof -
  obtain b where run: "publish_metrics fl marshalMsg jumpHash mp metrics (empty_batch (ks_keyCache ks)) =
      Some (None, map (deduced raw) metrics, b)"
    and msgs: "list_all2 (\<lambda>(m, t) msg. message_for fl marshalMsg jumpHash m t msg)
      (deliveries (mt_topics mp) (map (deduced raw) metrics)) (ba_payload b)"
    and counts: "counts_ok b"
    using batch_ready_metrics [OF assms(1)] by blast
  have ne: "metrics \<noteq> []" "mt_topics mp \<noteq> []" using assms(1) by (simp_all add: batch_ready_def)
  show ?thesis
    using run ne assms(2) count_published_total [OF counts assms(3) payload_topics [OF msgs]]
      list_all2_lengthD [OF msgs]
    by (simp add: Publish_def Let_def)
qed

theorem published_counters_match_witness:
  "\<exists>ks'. Publish sample_flags (\<lambda>m. Some []) (\<lambda>s n. 0) (\<lambda>msgs. None) True sample_publisher sample_batch sample_kstate =
      Some (None, map (deduced []) sample_batch, ks') \<and>
    ks_publishedMD ks' + ks_publishedMP ks' + ks_publishedMPNO ks' =
      ks_publishedMD sample_kstate + ks_publishedMP sample_kstate + ks_publishedMPNO sample_kstate +
      of_nat (length (deliveries (mt_topics sample_publisher) (map (deduced []) sample_batch)))"
  by (rule published_counters_match [OF batch_ready_sample]) (simp_all add: sample_publisher_def)

text \<open>
  C18. A send that fails: \<^verbatim>\<open>Publish\<close> returns the producer's error and counts it, the published counters stay,
  but the keys of all messages of the lost batch stay marked in the key cache. The next batch with the
  same metrics is therefore sent in the short form, although the \<^verbatim>\<open>MetricData\<close> it refers to was never
  delivered.
\<close>

theorem failed_send_keeps_keys_announced:
  assumes "batch_ready fl marshalMsg jumpHash mp raw metrics ks" and "\<And>msgs. send msgs = Some e"
    and "fl_v2 fl"
  shows "\<exists>ks'. Publish fl marshalMsg jumpHash send True mp metrics ks =
      Some (Some (ErrSend e), map (deduced raw) metrics, ks') \<and>
    ks_publishedMD ks' = ks_publishedMD ks \<and> ks_publishedMP ks' = ks_publishedMP ks \<and>
    ks_publishedMPNO ks' = ks_publishedMPNO ks \<and>
    (case e of ProducerErrors n \<Rightarrow> ks_sendErrProducer ks' = ks_sendErrProducer ks + of_nat n
             | OtherError \<Rightarrow> ks_sendErrOther ks' = ks_sendErrOther ks + 1) \<and>
    delivery_keys (mt_topics mp) (map (deduced raw) metrics) \<subseteq> announced (ks_keyCache ks')"
proof -
  obtain b where run: "publish_metrics fl marshalMsg jumpHash mp metrics (empty_batch (ks_keyCache ks)) =
      Some (None, map (deduced raw) metrics, b)"
    and keys: "announced (ba_keyCache b) = announced (ks_keyCache ks) \<union>
      touched fl (delivery_keys (mt_topics mp) (map (deduced raw) metrics))"
    using batch_ready_metrics [OF assms(1)] by blast
  have ne: "metrics \<noteq> []" "mt_topics mp \<noteq> []" using assms(1) by (simp_all add: batch_ready_def)
  show ?thesis
    using run ne assms(2,3) keys
    by (simp add: Publish_def Let_def count_send_error_def touched_def split: send_error.splits)
qed

theorem failed_send_keeps_keys_announced_witness:
  "\<exists>ks'. Publish sample_flags (\<lambda>m. Some []) (\<lambda>s n. 0) (\<lambda>msgs. Some OtherError) True sample_publisher sample_batch
      sample_kstate = Some (Some (ErrSend OtherError), map (deduced []) sample_batch, ks') \<and>
    ks_publishedMD ks' = 0 \<and>
    delivery_keys (mt_topics sample_publisher) (map (deduced []) sample_batch) \<subseteq> announced (ks_keyCache ks')"
proof -
  have "fl_v2 sample_flags" "ks_publishedMD sample_kstate = 0"
    by (simp_all add: sample_flags_def sample_kstate_def)
  then show ?thesis
    using failed_send_keeps_keys_announced [OF batch_ready_sample, of "\<lambda>msgs. Some OtherError" OtherError] by auto
qed

text \<open>
  Parsing of the topic settings: no input makes it index out of range, and when it succeeds there is
  one setting per comma-separated topic, in order, with the trimmed name, the topic's own partitioning
  method or the only one given, the topic's own organisation restriction or the only one given, its
  discard prefixes without the empty ones and its organisation rewrite.
\<close>

theorem topic_settings_parsed:
  "case parseTopicSettings schemesStr topicsStr orgIds discardStr rewriteStr of
     Inl e \<Rightarrow> e \<noteq> PanicTopicIndex
   | Inr ts \<Rightarrow>
       list_all2
         (\<lambda>(name, i) t. topic_parsed (split_on CHR '','' schemesStr) orgIds
            (if discardStr = [] then [] else split_on CHR '','' discardStr)
            (if rewriteStr = [] then [] else split_on CHR '','' rewriteStr) name i t)
         (zip (split_on CHR '','' topicsStr) [0..<length (split_on CHR '','' topicsStr)]) ts"
proof -
  let ?schemes = "split_on CHR '','' schemesStr" and ?topics = "split_on CHR '','' topicsStr"
  let ?discards = "if discardStr \<noteq> [] then split_on CHR '','' discardStr else []"
  let ?rws = "if rewriteStr \<noteq> [] then split_on CHR '','' rewriteStr else []"
  let ?guards = "(length ?schemes > 1 \<and> length ?schemes \<noteq> length ?topics) \<or>
    (length orgIds > 1 \<and> length orgIds \<noteq> length ?topics) \<or>
    (length ?discards > 0 \<and> length ?discards \<noteq> length ?topics) \<or>
    (length ?rws > 0 \<and> length ?rws \<noteq> length ?topics)"
  show ?thesis
  proof (cases ?guards)
    case True
    then show ?thesis by (auto simp: parseTopicSettings_def Let_def)
  next
    case False
    then have run: "parseTopicSettings schemesStr topicsStr orgIds discardStr rewriteStr =
        parse_topics ?schemes orgIds ?discards ?rws ?topics []"
      unfolding parseTopicSettings_def Let_def by auto
    have "parse_topics ?schemes orgIds ?discards ?rws ?topics [] \<noteq> Inl PanicTopicIndex"
      using False by (intro parse_topics_no_panic) (auto simp: per_topic_def)
    moreover have "list_all2 (\<lambda>(name, i) t. topic_parsed ?schemes orgIds ?discards ?rws name i t)
        (zip ?topics [0..<length ?topics]) ts"
      if "parse_topics ?schemes orgIds ?discards ?rws ?topics [] = Inr ts" for ts
      using parse_topics_parsed [OF that, of "[]"] by simp
    ultimately show ?thesis
      unfolding run by (auto split: sum.splits)
  qed
qed

text \<open>
  A publisher that starts is ready to publish: when \<^verbatim>\<open>New\<close> returns one and the broker reports fewer
  than 2 to the 31 partitions per topic, every broker address is well formed, there is at least one
  topic, every topic has at least one partition, and the key cache exists and is well formed when the
  optimised format is on.
\<close>

theorem new_publisher_is_ready:
  assumes "New fl su brokers autoInterval = Inr (Some (mp, kc))"
    and "\<And>name n. su_partitions su name = Some n \<Longrightarrow> n < 2 ^ 31"
  shows "list_all broker_ok brokers \<and> mt_topics mp \<noteq> [] \<and> mt_autoInterval mp = autoInterval \<and>
    mt_schemas mp = (if autoInterval then su_schemas su else None) \<and>
    (\<forall>t \<in> set (mt_topics mp). 1 \<le> ts_numPartitions t) \<and> cache_ready fl kc"
proof -
  obtain topics scs where parsed: "parseTopicSettings (fl_partitionSchemesStr fl) (fl_topicsStr fl)
      (fl_onlyOrgIds fl) (fl_discardPrefixesStr fl) (fl_rewriteOrgIdStr fl) = Inr topics"
    and conn: "connect fl su autoInterval scs topics = Inr (Some (mp, kc))"
    and brokers: "list_all broker_ok brokers"
    and scs: "scs = (if autoInterval then su_schemas su else None)"
    using assms(1) by (auto simp: New_def split: if_splits sum.splits option.splits)
  have "parse_topics (split_on CHR '','' (fl_partitionSchemesStr fl)) (fl_onlyOrgIds fl)
      (if fl_discardPrefixesStr fl \<noteq> [] then split_on CHR '','' (fl_discardPrefixesStr fl) else [])
      (if fl_rewriteOrgIdStr fl \<noteq> [] then split_on CHR '','' (fl_rewriteOrgIdStr fl) else [])
      (split_on CHR '','' (fl_topicsStr fl)) [] = Inr topics"
    using parsed unfolding parseTopicSettings_def Let_def by (simp split: if_splits)
  from list_all2_lengthD [OF parse_topics_parsed [OF this, of "[]"]] have "topics \<noteq> []" by auto
  moreover obtain ts where ts: "set_partitions su topics = Inr ts" "mt_topics mp = ts"
    and mp: "mt_autoInterval mp = autoInterval" "mt_schemas mp = scs"
    and kc: "kc = (if fl_v2 fl then Some (NewKeyCache (fl_v2ClearInterval fl)) else None)"
    using conn by (auto simp: connect_def split: if_splits sum.splits)
  ultimately have "mt_topics mp \<noteq> []" using set_partitions_ok(2) [OF ts(1) assms(2)] by auto
  moreover have "\<forall>t \<in> set (mt_topics mp). 1 \<le> ts_numPartitions t"
    using set_partitions_ok(1) [OF ts(1) assms(2)] ts(2) by simp
  moreover have "cache_ready fl kc" by (simp add: cache_ready_def kc)
  ultimately show ?thesis using brokers mp scs by simp
qed

definition sample_startup :: startup where
  "sample_startup =
     \<lparr>su_version_ok = True, su_schemas = None, su_tls_ok = False, su_config_ok = True, su_client_ok = True,
      su_partitions = (\<lambda>name. Some 8), su_producer_ok = True\<rparr>"

lemma trim_space_samples: "trim_space ''mdm'' = ''mdm''" "trim_space ''bySeries'' = ''bySeries''"
  by (rule trim_space_id; simp add: no_space_def space_runes_def)+

theorem new_publisher_is_ready_witness:
  "\<exists>mp kc. New (sample_flags\<lparr>fl_rewriteOrgIdStr := []\<rparr>) sample_startup [''kafka''] False = Inr (Some (mp, kc)) \<and>
    (\<forall>t \<in> set (mt_topics mp). 1 \<le> ts_numPartitions t) \<and>
    cache_ready (sample_flags\<lparr>fl_rewriteOrgIdStr := []\<rparr>) kc"
proof -
  let ?fl = "sample_flags\<lparr>fl_rewriteOrgIdStr := []\<rparr>"
  have "parseTopicSettings ''bySeries'' ''mdm'' [] [] [] =
      Inr [sample_topic\<lparr>ts_numPartitions := 0, ts_discardPrefixes := [], ts_rewrite_source := 0, ts_rewrite_target := 0\<rparr>]"
    by (simp add: parseTopicSettings_def topic_partitioner_def topic_onlyOrgId_def topic_discardPrefixes_def
        topic_rewrite_def PartitonMethodFromString_def sample_topic_def trim_space_samples)
  then have "\<exists>mp kc. New ?fl sample_startup [''kafka''] False = Inr (Some (mp, kc))"
    by (simp add: New_def connect_def getCompression_def sample_flags_def sample_startup_def broker_ok_def)
  then obtain mp kc where new: "New ?fl sample_startup [''kafka''] False = Inr (Some (mp, kc))" by blast
  have "su_partitions sample_startup name = Some n \<longrightarrow> n < 2 ^ 31" for name n
    by (simp add: sample_startup_def)
  then show ?thesis using new_publisher_is_ready [OF new] new by blast
qed

end
