(* ===== verification/GoSlices.thy ===== *)
theory GoSlices
  imports GwPrelude
begin

text \<open>
  Slices with their backing arrays, for the code in which two slices share an array: the tags of the metrics
  that the HTTP writers take from a pool and put back, and the byte buffers of the publisher.

  A slice is a backing array and a length; all slices of that code start at the beginning of their array.
  The length of an array in the store is the capacity of the slices on it. \<^verbatim>\<open>append\<close> writes into the spare
  capacity when there is some, and otherwise moves to a new array, whose spare capacity the runtime
  chooses: \<open>grow\<close>. Array 0 is the empty array of the nil slice.
\<close>

record slice =
  sl_arr :: nat
  sl_len :: nat

record 'a store =
  st_arrays :: "nat \<Rightarrow> 'a list"
  st_next :: nat

definition nil_slice :: slice where
  "nil_slice = \<lparr>sl_arr = 0, sl_len = 0\<rparr>"

definition init_store :: "'a store" where
  "init_store = \<lparr>st_arrays = (\<lambda>_. []), st_next = 1\<rparr>"

definition slice_list :: "'a store \<Rightarrow> slice \<Rightarrow> 'a list" where
  "slice_list h s = take (sl_len s) (st_arrays h (sl_arr s))"

definition append_string :: "(nat \<Rightarrow> nat) \<Rightarrow> string \<Rightarrow> slice \<times> string store \<Rightarrow> slice \<times> string store" where
  "append_string grow x sh =
     (let (s, h) = sh;
          a = st_arrays h (sl_arr s)
      in if sl_len s < length a
         then (s\<lparr>sl_len := Suc (sl_len s)\<rparr>, h\<lparr>st_arrays := (st_arrays h)(sl_arr s := a[sl_len s := x])\<rparr>)
         else (\<lparr>sl_arr = st_next h, sl_len = Suc (sl_len s)\<rparr>,
               h\<lparr>st_arrays := (st_arrays h)(st_next h := take (sl_len s) a @ x # replicate (grow (sl_len s)) []),
                 st_next := Suc (st_next h)\<rparr>))"

text \<open>\<^verbatim>\<open>sort.Strings\<close> sorts in place.\<close>

definition sort_slice :: "slice \<Rightarrow> string store \<Rightarrow> string store" where
  "sort_slice s h =
     (let a = st_arrays h (sl_arr s)
      in h\<lparr>st_arrays := (st_arrays h)(sl_arr s := sort (take (sl_len s) a) @ drop (sl_len s) a)\<rparr>)"

section \<open>Well-formed stores\<close>

definition store_ok :: "'a store \<Rightarrow> bool" where
  "store_ok h \<longleftrightarrow> 0 < st_next h \<and> st_arrays h 0 = []"

definition slice_ok :: "'a store \<Rightarrow> slice \<Rightarrow> bool" where
  "slice_ok h s \<longleftrightarrow> sl_len s \<le> length (st_arrays h (sl_arr s)) \<and> sl_arr s < st_next h"

text \<open>
  What a sequence of appends may touch: the array it starts on and arrays that did not exist. \<open>touches\<close>
  relates the store before, the array, and the store and array after.
\<close>

definition touches :: "'a store \<Rightarrow> nat \<Rightarrow> 'a store \<Rightarrow> nat \<Rightarrow> bool" where
  "touches h a h' a' \<longleftrightarrow>
     st_next h \<le> st_next h' \<and> (a' = a \<or> st_next h \<le> a') \<and>
     (\<forall>b < st_next h. b \<noteq> a \<longrightarrow> st_arrays h' b = st_arrays h b) \<and>
     (\<forall>b < st_next h. length (st_arrays h' b) = length (st_arrays h b))"

lemma touches_refl [simp]: "touches h a h a"
  by (simp add: touches_def)

lemma touches_trans:
  assumes "touches h a h1 b" and "touches h1 b h2 c"
  shows "touches h a h2 c"
proof -
  have next_le: "st_next h \<le> st_next h1" "st_next h1 \<le> st_next h2" and b: "b = a \<or> st_next h \<le> b"
    and c: "c = b \<or> st_next h1 \<le> c"
    using assms by (simp_all add: touches_def)
  have "st_arrays h2 x = st_arrays h x" if "x < st_next h" "x \<noteq> a" for x
  proof -
    have "x < st_next h1" "x \<noteq> b" using that next_le b by auto
    then show ?thesis using assms that by (simp add: touches_def)
  qed
  moreover have "length (st_arrays h2 x) = length (st_arrays h x)" if "x < st_next h" for x
    using assms that next_le by (simp add: touches_def)
  ultimately show ?thesis using next_le b c unfolding touches_def by auto
qed

lemma store_ok_init [simp]: "store_ok init_store"
  by (simp add: store_ok_def init_store_def)

lemma slice_ok_nil [simp]: "store_ok h \<Longrightarrow> slice_ok h nil_slice"
  by (simp add: store_ok_def slice_ok_def nil_slice_def)

lemma slice_list_nil [simp]: "slice_list h nil_slice = []"
  by (simp add: slice_list_def nil_slice_def)

lemma append_string_spec:
  assumes "store_ok h" and "slice_ok h s" and "append_string grow x (s, h) = (s', h')"
  shows "store_ok h' \<and> slice_ok h' s' \<and> slice_list h' s' = slice_list h s @ [x] \<and> touches h (sl_arr s) h' (sl_arr s')"
proof (cases "sl_len s < length (st_arrays h (sl_arr s))")
  case True
  then have "sl_arr s \<noteq> 0" using assms(1) by (auto simp: store_ok_def intro: gr0I)
  with True show ?thesis
    using assms
    by (auto simp: append_string_def store_ok_def slice_ok_def slice_list_def touches_def take_Suc_conv_app_nth Let_def)
next
  case False
  with assms show ?thesis
    by (auto simp: append_string_def store_ok_def slice_ok_def slice_list_def touches_def Let_def)
qed

lemma sort_slice_spec:
  assumes "store_ok h" and "slice_ok h s"
  shows "store_ok (sort_slice s h) \<and> slice_ok (sort_slice s h) s \<and>
    slice_list (sort_slice s h) s = sort (slice_list h s) \<and> touches h (sl_arr s) (sort_slice s h) (sl_arr s)"
  using assms by (auto simp: sort_slice_def store_ok_def slice_ok_def slice_list_def touches_def Let_def)

lemma slice_kept:
  assumes "touches h a h' a'" and "slice_ok h t" and "sl_arr t \<noteq> a \<or> sl_arr t = 0" and "store_ok h" and "store_ok h'"
  shows "slice_ok h' t \<and> slice_list h' t = slice_list h t"
proof -
  have "st_arrays h' (sl_arr t) = st_arrays h (sl_arr t)"
    using assms by (cases "sl_arr t = 0") (simp_all add: touches_def slice_ok_def store_ok_def)
  then show ?thesis using assms(1,2) by (auto simp: slice_ok_def slice_list_def touches_def)
qed

section \<open>Separation\<close>

text \<open>No two of the slices share an array, other than the empty one.\<close>

definition separate :: "'a store \<Rightarrow> slice multiset \<Rightarrow> bool" where
  "separate h S \<longleftrightarrow> store_ok h \<and> (\<forall>s \<in># S. slice_ok h s) \<and>
     (\<forall>a. a \<noteq> 0 \<longrightarrow> size (filter_mset (\<lambda>s. sl_arr s = a) S) \<le> 1)"

lemma separate_store_ok: "separate h S \<Longrightarrow> store_ok h"
  by (simp add: separate_def)

lemma separate_slice_ok: "separate h S \<Longrightarrow> s \<in># S \<Longrightarrow> slice_ok h s"
  by (simp add: separate_def)

lemma separate_other:
  assumes "separate h (add_mset s S)" and "t \<in># S" and "sl_arr t \<noteq> 0"
  shows "sl_arr t \<noteq> sl_arr s"
proof
  assume eq: "sl_arr t = sl_arr s"
  have "size (filter_mset (\<lambda>x. sl_arr x = sl_arr t) (add_mset s S)) \<le> 1"
    using assms(1,3) unfolding separate_def by blast
  then have "filter_mset (\<lambda>x. sl_arr x = sl_arr t) S = {#}" using eq by simp
  then show False using assms(2) by (metis (mono_tags) empty_iff filter_mset_eq_conv set_mset_empty count_filter_mset count_empty count_eq_zero_iff)
qed

lemma separate_nil: "separate h S \<Longrightarrow> separate h (add_mset nil_slice S)"
  by (auto simp: separate_def nil_slice_def store_ok_def slice_ok_def)

lemma separate_replace:
  assumes sep: "separate h (add_mset s S)" and touch: "touches h (sl_arr s) h' (sl_arr s')"
    and ok: "store_ok h'" "slice_ok h' s'"
  shows "separate h' (add_mset s' S) \<and> (\<forall>t \<in># S. slice_list h' t = slice_list h t)"
proof -
  have kept: "slice_ok h' t \<and> slice_list h' t = slice_list h t" if "t \<in># S" for t
    using slice_kept [OF touch _ _ separate_store_ok [OF sep] ok(1)] separate_other [OF sep that]
      separate_slice_ok [OF sep] that by (metis union_single_eq_member add_mset_add_single insert_iff set_mset_add_mset_insert)
  have "size (filter_mset (\<lambda>x. sl_arr x = a) (add_mset s' S)) \<le> 1" if "a \<noteq> 0" for a
  proof (cases "a = sl_arr s'")
    case True
    have "sl_arr t \<noteq> a" if "t \<in># S" for t
    proof
      assume eq: "sl_arr t = a"
      then have "sl_arr t \<noteq> sl_arr s" using separate_other [OF sep that] \<open>a \<noteq> 0\<close> by simp
      moreover have "sl_arr t < st_next h" using separate_slice_ok [OF sep, of t] that by (simp add: slice_ok_def)
      ultimately show False using touch eq True by (auto simp: touches_def)
    qed
    then have "filter_mset (\<lambda>x. sl_arr x = a) S = {#}" by (simp add: filter_mset_eq_conv)
    then show ?thesis using True by simp
  next
    case False
    have "size (filter_mset (\<lambda>x. sl_arr x = a) (add_mset s S)) \<le> 1"
      using sep that unfolding separate_def by blast
    moreover have "size (filter_mset (\<lambda>x. sl_arr x = a) S) \<le> size (filter_mset (\<lambda>x. sl_arr x = a) (add_mset s S))"
      by (intro size_mset_mono multiset_filter_mono) simp
    ultimately show ?thesis using False by simp
  qed
  then show ?thesis using kept ok unfolding separate_def by auto
qed

end
