(* ===== verification/Buffers.thy ===== *)
theory Buffers
  imports KafkaPublish GoSlices Transitions
begin

text \<open>
  The byte buffers of the publisher (\<^verbatim>\<open>util/buffer_pool.go\<close>, and their use in \<^verbatim>\<open>publish/kafka/publish.go\<close>). The theory
  \<open>KafkaPublish\<close> treats the payload of a message as a list of bytes. Here the payloads are slices of arrays that
  \<^verbatim>\<open>Publish\<close> takes from two pools and puts back after the send, while other calls of \<^verbatim>\<open>Publish\<close> do the same.

  \<^item> A slice is an array and a length (\<open>GoSlices\<close>); its capacity is the length of the array.
  \<^item> \<open>pick\<close> is what \<^verbatim>\<open>sync.Pool\<close> does on a \<^verbatim>\<open>Get\<close>: it hands out one of its items, or calls \<^verbatim>\<open>New\<close>.
  \<^item> \<open>buf_step\<close> are the steps of any number of concurrent calls: one encoding, the release after the send, an
    early return, and the collector, which may empty the pools.
\<close>

section \<open>The pools\<close>

record buffers =
  bf_store :: "gobyte store"
  bf_pool :: "slice list"
  bf_pool33 :: "slice list"

definition slice_cap :: "'a store \<Rightarrow> slice \<Rightarrow> nat" where
  "slice_cap h s = length (st_arrays h (sl_arr s))"

text \<open>\<^verbatim>\<open>make\<close> of an array, as an empty slice.\<close>

definition make_slice :: "'a list \<Rightarrow> 'a store \<Rightarrow> slice \<times> 'a store" where
  "make_slice xs h =
     (\<lparr>sl_arr = st_next h, sl_len = 0\<rparr>, h\<lparr>st_arrays := (st_arrays h)(st_next h := xs), st_next := Suc (st_next h)\<rparr>)"

definition pick_slice :: "nat option \<Rightarrow> slice list \<Rightarrow> (slice \<times> slice list) option" where
  "pick_slice pick pool =
     (case pick of
        None \<Rightarrow> None
      | Some i \<Rightarrow> if i < length pool then Some (pool ! i, take i pool @ drop (Suc i) pool) else None)"

definition BufferPool_Get :: "nat option \<Rightarrow> buffers \<Rightarrow> slice \<times> buffers" where
  "BufferPool_Get pick b =
     (case pick_slice pick (bf_pool b) of None \<Rightarrow> (nil_slice, b) | Some (s, pool) \<Rightarrow> (s, b\<lparr>bf_pool := pool\<rparr>))"

definition BufferPool_Put :: "slice \<Rightarrow> buffers \<Rightarrow> buffers" where
  "BufferPool_Put buf b = b\<lparr>bf_pool := bf_pool b @ [buf\<lparr>sl_len := 0\<rparr>]\<rparr>"

definition BufferPool33_Get :: "nat option \<Rightarrow> buffers \<Rightarrow> slice \<times> buffers" where
  "BufferPool33_Get pick b =
     (case pick_slice pick (bf_pool33 b) of
        None \<Rightarrow> (let (s, h) = make_slice (replicate 33 0) (bf_store b) in (s, b\<lparr>bf_store := h\<rparr>))
      | Some (s, pool) \<Rightarrow> (s, b\<lparr>bf_pool33 := pool\<rparr>))"

definition BufferPool33_Put :: "slice \<Rightarrow> buffers \<Rightarrow> buffers" where
  "BufferPool33_Put buf b = b\<lparr>bf_pool33 := bf_pool33 b @ [buf\<lparr>sl_len := 0\<rparr>]\<rparr>"

section \<open>Encoding into a buffer\<close>

text \<open>The bytes written from the start of the array, and the slice that holds them.\<close>

definition overwrite :: "'a list \<Rightarrow> slice \<Rightarrow> 'a store \<Rightarrow> slice \<times> 'a store" where
  "overwrite d s h =
     (s\<lparr>sl_len := length d\<rparr>, h\<lparr>st_arrays := (st_arrays h)(sl_arr s := d @ drop (length d) (st_arrays h (sl_arr s)))\<rparr>)"

text \<open>The short forms: the slice is extended to \<open>n\<close> bytes, which panics (\<^term>\<open>None\<close>) beyond its capacity.\<close>

definition fill_point :: "nat \<Rightarrow> gobyte list \<Rightarrow> slice \<Rightarrow> gobyte store \<Rightarrow> (slice \<times> gobyte store) option" where
  "fill_point n d s h = (if slice_cap h s < n then None else Some (overwrite d s h))"

text \<open>
  \<^verbatim>\<open>MarshalMsg\<close> on an empty slice: \<^verbatim>\<open>msgp.Require\<close> makes a new one if there is less room than the estimated size, and
  should the estimate be too low, \<^verbatim>\<open>append\<close> moves to an array with some room left.
\<close>

definition marshal_into :: "nat \<Rightarrow> nat \<Rightarrow> gobyte list \<Rightarrow> slice \<Rightarrow> gobyte store \<Rightarrow> slice \<times> gobyte store" where
  "marshal_into room grow d s h =
     (let (s, h) = (if room \<le> slice_cap h s then (s, h) else make_slice (replicate room 0) h);
          (s, h) = (if length d \<le> slice_cap h s then (s, h) else make_slice (replicate (length d + grow) 0) h)
      in overwrite d s h)"

text \<open>The buffer part of \<^verbatim>\<open>dataFromMetricData\<close>, for the bytes that it produces.\<close>

definition pooled_data ::
  "nat option \<Rightarrow> nat \<Rightarrow> nat \<Rightarrow> MetricDataBuffer \<Rightarrow> buffers \<Rightarrow> (slice \<times> buffers) option" where
  "pooled_data pick room grow mdb b =
     (case db_Type mdb of
        TypeMetricData \<Rightarrow>
          (let (s, b) = BufferPool_Get pick b;
               (s, h) = marshal_into room grow (db_Data mdb) s (bf_store b)
           in Some (s, b\<lparr>bf_store := h\<rparr>))
      | TypeMetricPoint \<Rightarrow>
          (let (s, b) = BufferPool33_Get pick b
           in map_option (\<lambda>(s, h). (s, b\<lparr>bf_store := h\<rparr>)) (fill_point 33 (db_Data mdb) s (bf_store b)))
      | TypeMetricPointNoOrg \<Rightarrow>
          (let (s, b) = BufferPool33_Get pick b
           in map_option (\<lambda>(s, h). (s, b\<lparr>bf_store := h\<rparr>)) (fill_point 29 (db_Data mdb) s (bf_store b))))"

text \<open>The deferred function of \<^verbatim>\<open>Publish\<close>, for one buffer.\<close>

definition release_buffer :: "slice \<Rightarrow> buffers \<Rightarrow> buffers" where
  "release_buffer buf b = (if slice_cap (bf_store b) buf = 33 then BufferPool33_Put buf b else BufferPool_Put buf b)"

section \<open>Concurrent calls\<close>

text \<open>The buffers that calls of \<^verbatim>\<open>Publish\<close> hold: the call, the slice, and the bytes that were encoded.\<close>

record buf_state =
  bs_buffers :: buffers
  bs_keyCache :: "KeyCache option"
  bs_held :: "(nat \<times> slice \<times> gobyte list) list"

definition init_buffers :: "KeyCache option \<Rightarrow> buf_state" where
  "init_buffers kc = \<lparr>bs_buffers = \<lparr>bf_store = init_store, bf_pool = [], bf_pool33 = []\<rparr>, bs_keyCache = kc, bs_held = []\<rparr>"

inductive buf_step ::
  "flags \<Rightarrow> (MetricData \<Rightarrow> gobyte list option) \<Rightarrow> buf_state \<Rightarrow> buf_state \<Rightarrow> bool" for fl marshalMsg where
  encode: "dataFromMetricData fl marshalMsg (bs_keyCache s) m = (Inr d, kc) \<Longrightarrow>
    pooled_data pick room grow d (bs_buffers s) = Some (sl, b) \<Longrightarrow>
    buf_step fl marshalMsg s (s\<lparr>bs_buffers := b, bs_keyCache := kc, bs_held := bs_held s @ [(t, sl, db_Data d)]\<rparr>)"
| release: "buf_step fl marshalMsg s
    (s\<lparr>bs_buffers := fold release_buffer [sl. (t', sl, d) \<leftarrow> bs_held s, t' = t] (bs_buffers s),
       bs_held := filter (\<lambda>(t', sl, d). t' \<noteq> t) (bs_held s)\<rparr>)"
| return_early: "buf_step fl marshalMsg s (s\<lparr>bs_held := filter (\<lambda>(t', sl, d). t' \<noteq> t) (bs_held s)\<rparr>)"
| take_key: "dataFromMetricData fl marshalMsg (bs_keyCache s) m = (Inl e, kc) \<Longrightarrow> buf_step fl marshalMsg s (s\<lparr>bs_keyCache := kc\<rparr>)"
| collect: "buf_step fl marshalMsg s (s\<lparr>bs_buffers := snd (BufferPool_Get (Some i) (bs_buffers s))\<rparr>)"
| collect33: "buf_step fl marshalMsg s (s\<lparr>bs_buffers := snd (BufferPool33_Get (Some i) (bs_buffers s))\<rparr>)"

inductive buf_reach ::
  "flags \<Rightarrow> (MetricData \<Rightarrow> gobyte list option) \<Rightarrow> KeyCache option \<Rightarrow> buf_state \<Rightarrow> bool" for fl marshalMsg kc where
  start: "buf_reach fl marshalMsg kc (init_buffers kc)"
| step: "buf_reach fl marshalMsg kc s \<Longrightarrow> buf_step fl marshalMsg s s' \<Longrightarrow> buf_reach fl marshalMsg kc s'"

section \<open>Writing\<close>

lemma overwrite_spec:
  assumes "store_ok h" and "slice_ok h s" and "length d \<le> slice_cap h s" and "overwrite d s h = (s', h')"
  shows "store_ok h' \<and> slice_ok h' s' \<and> slice_list h' s' = d \<and> touches h (sl_arr s) h' (sl_arr s')"
proof -
  have "sl_arr s = 0 \<longrightarrow> d = []" using assms(1,3) by (auto simp: store_ok_def slice_cap_def)
  then show ?thesis
    using assms by (auto simp: overwrite_def store_ok_def slice_ok_def slice_list_def touches_def slice_cap_def)
qed

lemma make_slice_spec:
  assumes "store_ok h" and "make_slice xs h = (s, h')"
  shows "store_ok h' \<and> slice_ok h' s \<and> touches h a h' (sl_arr s) \<and> slice_cap h' s = length xs \<and> sl_len s = 0"
  using assms by (auto simp: make_slice_def store_ok_def slice_ok_def touches_def slice_cap_def)

lemma enough_room:
  assumes "store_ok h" and "slice_ok h s" and "(if n \<le> slice_cap h s then (s, h) else make_slice (replicate k 0) h) = (s', h')"
    and "n \<le> k"
  shows "store_ok h' \<and> slice_ok h' s' \<and> touches h (sl_arr s) h' (sl_arr s') \<and> n \<le> slice_cap h' s'"
  using assms make_slice_spec [OF assms(1), of "replicate k 0" s' h' "sl_arr s"] by (auto split: if_splits)

lemma marshal_into_spec:
  assumes "store_ok h" and "slice_ok h s" and "marshal_into room grow d s h = (s', h')"
  shows "store_ok h' \<and> slice_ok h' s' \<and> slice_list h' s' = d \<and> touches h (sl_arr s) h' (sl_arr s')"
proof -
  obtain s1 h1 where one: "(if room \<le> slice_cap h s then (s, h) else make_slice (replicate room 0) h) = (s1, h1)" by fastforce
  obtain s2 h2 where two: "(if length d \<le> slice_cap h1 s1 then (s1, h1) else make_slice (replicate (length d + grow) 0) h1) = (s2, h2)"
    by fastforce
  have "overwrite d s2 h2 = (s', h')"
    using assms(3) unfolding marshal_into_def Let_def one split_conv two by simp
  moreover note a = enough_room [OF assms(1,2) one order.refl]
  moreover note b = enough_room [OF _ _ two, OF conjunct1 [OF a] conjunct1 [OF conjunct2 [OF a]]]
  ultimately show ?thesis
    using overwrite_spec [of h2 s2 d s' h'] touches_trans [of h "sl_arr s" h1 "sl_arr s1" h2 "sl_arr s2"]
      touches_trans [of h "sl_arr s" h2 "sl_arr s2" h' "sl_arr s'"] by simp
qed

section \<open>What a pool promises\<close>

text \<open>
  Apart from the pools, \<open>S\<close> are the slices in use. None of them shares its array with another or with a slice in a
  pool; the pool for points has capacity 33 throughout.
\<close>

definition pools_ok :: "buffers \<Rightarrow> slice multiset \<Rightarrow> bool" where
  "pools_ok b S \<longleftrightarrow>
     separate (bf_store b) (S + mset (bf_pool b) + mset (bf_pool33 b)) \<and>
     (\<forall>s \<in> set (bf_pool33 b). slice_cap (bf_store b) s = 33) \<and>
     (\<forall>s \<in> set (bf_pool b) \<union> set (bf_pool33 b). sl_len s = 0)"

definition keeps :: "gobyte store \<Rightarrow> gobyte store \<Rightarrow> slice multiset \<Rightarrow> bool" where
  "keeps h h' S \<longleftrightarrow> (\<forall>s \<in># S. slice_list h' s = slice_list h s)"

lemma pools_ok_write:
  assumes "pools_ok b (add_mset s S)" and "touches (bf_store b) (sl_arr s) h' (sl_arr s')" and "store_ok h'" and "slice_ok h' s'"
  shows "pools_ok (b\<lparr>bf_store := h'\<rparr>) (add_mset s' S) \<and> keeps (bf_store b) h' S"
proof -
  let ?R = "S + mset (bf_pool b) + mset (bf_pool33 b)"
  have sep: "separate (bf_store b) (add_mset s ?R)" using assms(1) by (simp add: pools_ok_def)
  have "slice_cap h' x = 33" if "x \<in> set (bf_pool33 b)" for x
  proof -
    have "slice_ok (bf_store b) x" using separate_slice_ok [OF sep, of x] that by simp
    then show ?thesis using assms(1,2) that by (simp add: pools_ok_def slice_ok_def touches_def slice_cap_def)
  qed
  then show ?thesis
    using separate_replace [OF sep assms(2-4)] assms(1) by (auto simp: pools_ok_def keeps_def)
qed

locale byte_pool =
  fixes Get :: "nat option \<Rightarrow> buffers \<Rightarrow> slice \<times> buffers" and Put :: "slice \<Rightarrow> buffers \<Rightarrow> buffers" and least :: nat
    and good :: "buffers \<Rightarrow> slice \<Rightarrow> bool"
  assumes get_ok: "\<And>pick b S s b'. pools_ok b S \<Longrightarrow> Get pick b = (s, b') \<Longrightarrow>
      pools_ok b' (add_mset s S) \<and> keeps (bf_store b) (bf_store b') S \<and> least \<le> slice_cap (bf_store b') s \<and> sl_len s = 0"
    and put_ok: "\<And>b s S. pools_ok b (add_mset s S) \<Longrightarrow> good b s \<Longrightarrow> pools_ok (Put s b) S"
    and put_store: "\<And>s b. bf_store (Put s b) = bf_store b"
begin

text \<open>A buffer that was taken and written, in place or moved, is another one in use, and the others are as they were.\<close>

lemma get_write:
  assumes "pools_ok b S" and "Get pick b = (s, b1)"
    and "store_ok h' \<and> slice_ok h' s' \<and> slice_list h' s' = d \<and> touches (bf_store b1) (sl_arr s) h' (sl_arr s')"
  shows "pools_ok (b1\<lparr>bf_store := h'\<rparr>) (add_mset s' S) \<and> keeps (bf_store b) h' S \<and> slice_list h' s' = d"
  using get_ok [OF assms(1,2)] pools_ok_write [of b1 s S h' s'] assms(3) by (auto simp: keeps_def)

lemma taken_ok:
  assumes "pools_ok b S" and "Get pick b = (s, b1)"
  shows "store_ok (bf_store b1)" and "slice_ok (bf_store b1) s"
  using get_ok [OF assms] separate_store_ok separate_slice_ok by (fastforce simp: pools_ok_def)+

end

lemma pick_slice_mset: "pick_slice pick pool = Some (s, pool') \<Longrightarrow> mset pool = add_mset s (mset pool')"
  by (auto simp: pick_slice_def simp flip: mset_append split: option.splits if_splits)
    (metis id_take_nth_drop mset.simps(2) mset_append union_mset_add_mset_right)

lemma pools_ok_nil: "pools_ok b S \<Longrightarrow> pools_ok b (add_mset nil_slice S)"
  by (auto simp: pools_ok_def separate_nil)

lemma nil_slice_len [simp]: "sl_len nil_slice = 0"
  by (simp add: nil_slice_def)

lemma keeps_refl [simp]: "keeps h h S"
  by (simp add: keeps_def)

lemma separate_resize:
  assumes "separate h (add_mset s R)"
  shows "separate h (add_mset (s\<lparr>sl_len := 0\<rparr>) R)"
proof -
  have "store_ok h" "slice_ok h s" using assms by (auto simp: separate_def)
  then show ?thesis using separate_replace [OF assms, of h "s\<lparr>sl_len := 0\<rparr>"] by (simp add: slice_ok_def)
qed

interpretation general: byte_pool BufferPool_Get BufferPool_Put 0 "\<lambda>b s. True"
proof
  fix pick b S s b'
  assume ok: "pools_ok b S" and get: "BufferPool_Get pick b = (s, b')"
  show "pools_ok b' (add_mset s S) \<and> keeps (bf_store b) (bf_store b') S \<and> 0 \<le> slice_cap (bf_store b') s \<and> sl_len s = 0"
  proof (cases "pick_slice pick (bf_pool b)")
    case None
    then show ?thesis using ok get pools_ok_nil by (auto simp: BufferPool_Get_def)
  next
    case (Some p)
    then obtain pool where p: "pick_slice pick (bf_pool b) = Some (s, pool)" "b' = b\<lparr>bf_pool := pool\<rparr>"
      using get by (cases p) (auto simp: BufferPool_Get_def)
    have set: "set (bf_pool b) = insert s (set pool)" using pick_slice_mset [OF p(1)] by (metis set_mset_add_mset_insert set_mset_mset)
    show ?thesis using ok pick_slice_mset [OF p(1)] set by (simp add: p(2) pools_ok_def)
  qed
next
  fix b :: buffers and s S
  assume "pools_ok b (add_mset s S)"
  then show "pools_ok (BufferPool_Put s b) S"
    using separate_resize [of "bf_store b" s "S + mset (bf_pool b) + mset (bf_pool33 b)"] by (auto simp: pools_ok_def BufferPool_Put_def)
qed (simp add: BufferPool_Put_def)

lemma make_slice_pools:
  assumes "pools_ok b S" and "make_slice xs (bf_store b) = (s, h)"
  shows "pools_ok (b\<lparr>bf_store := h\<rparr>) (add_mset s S) \<and> keeps (bf_store b) h S \<and> slice_cap h s = length xs \<and> sl_len s = 0"
proof -
  have "store_ok (bf_store b)" using assms(1) separate_store_ok by (auto simp: pools_ok_def)
  from make_slice_spec [OF this assms(2), of "sl_arr nil_slice"] show ?thesis
    using pools_ok_write [OF pools_ok_nil [OF assms(1)], of h s] by simp
qed

interpretation points: byte_pool BufferPool33_Get BufferPool33_Put 33 "\<lambda>b s. slice_cap (bf_store b) s = 33"
proof
  fix pick b S s b'
  assume ok: "pools_ok b S" and get: "BufferPool33_Get pick b = (s, b')"
  show "pools_ok b' (add_mset s S) \<and> keeps (bf_store b) (bf_store b') S \<and> 33 \<le> slice_cap (bf_store b') s \<and> sl_len s = 0"
  proof (cases "pick_slice pick (bf_pool33 b)")
    case None
    obtain h where h: "make_slice (replicate 33 0) (bf_store b) = (s, h)" "b' = b\<lparr>bf_store := h\<rparr>"
      using get None by (auto simp: BufferPool33_Get_def split: prod.splits)
    then show ?thesis using make_slice_pools [OF ok h(1)] by simp
  next
    case (Some p)
    then obtain pool where p: "pick_slice pick (bf_pool33 b) = Some (s, pool)" "b' = b\<lparr>bf_pool33 := pool\<rparr>"
      using get by (cases p) (auto simp: BufferPool33_Get_def)
    have set: "set (bf_pool33 b) = insert s (set pool)" using pick_slice_mset [OF p(1)] by (metis set_mset_add_mset_insert set_mset_mset)
    show ?thesis using ok pick_slice_mset [OF p(1)] set by (simp add: p(2) pools_ok_def)
  qed
next
  fix b :: buffers and s S
  assume "pools_ok b (add_mset s S)" and "slice_cap (bf_store b) s = 33"
  then show "pools_ok (BufferPool33_Put s b) S"
    using separate_resize [of "bf_store b" s "S + mset (bf_pool b) + mset (bf_pool33 b)"]
    by (auto simp: pools_ok_def BufferPool33_Put_def slice_cap_def)
qed (simp add: BufferPool33_Put_def)

section \<open>Encoding\<close>

text \<open>The lengths of the forms, which are what the pools provide for.\<close>

definition fits_form :: "MetricDataBuffer \<Rightarrow> bool" where
  "fits_form d \<longleftrightarrow>
     (db_Type d = TypeMetricPoint \<longrightarrow> length (db_Data d) = 33) \<and> (db_Type d = TypeMetricPointNoOrg \<longrightarrow> length (db_Data d) = 29)"

lemma dataFromMetricData_fits:
  assumes "dataFromMetricData fl marshalMsg kc m = (Inr d, kc')"
  shows "fits_form d"
proof -
  have "fits_form d" if "encode_point v2Org mp = Inr d" "length (mk_Key (mp_MKey mp)) = 16" for v2Org mp
    using that length_putWithoutOrg [of mp] by (cases v2Org) (auto simp: encode_point_ok fits_form_def put_uint32_def)
  moreover have "fits_form d" if "encode_full marshalMsg m = Inr d"
    using that by (auto simp: encode_full_def fits_form_def split: option.splits)
  ultimately show ?thesis
    using assms MKeyFromString_length by (fastforce simp: dataFromMetricData_def Let_def split: if_splits sum.splits option.splits prod.splits)
qed

lemma fill_point_spec:
  assumes "pools_ok b S" and "BufferPool33_Get pick b = (s, b1)" and "length d = n" and "n \<le> 33"
  shows "\<exists>s' h'. fill_point n d s (bf_store b1) = Some (s', h') \<and> pools_ok (b1\<lparr>bf_store := h'\<rparr>) (add_mset s' S) \<and>
    keeps (bf_store b) h' S \<and> slice_list h' s' = d"
proof -
  have cap: "33 \<le> slice_cap (bf_store b1) s" using points.get_ok [OF assms(1,2)] by simp
  obtain s' h' where w: "overwrite d s (bf_store b1) = (s', h')" by fastforce
  have "store_ok h' \<and> slice_ok h' s' \<and> slice_list h' s' = d \<and> touches (bf_store b1) (sl_arr s) h' (sl_arr s')"
    using overwrite_spec [OF points.taken_ok [OF assms(1,2)] _ w] cap assms(3,4) by simp
  from points.get_write [OF assms(1,2) this] show ?thesis using cap assms(4) w by (simp add: fill_point_def)
qed

lemma pooled_data_spec:
  assumes "pools_ok b S" and "fits_form d"
  shows "\<exists>s b'. pooled_data pick room grow d b = Some (s, b') \<and> pools_ok b' (add_mset s S) \<and>
    keeps (bf_store b) (bf_store b') S \<and> slice_list (bf_store b') s = db_Data d"
proof (cases "db_Type d")
  case TypeMetricData
  obtain s b1 where get: "BufferPool_Get pick b = (s, b1)" by fastforce
  obtain s' h' where m: "marshal_into room grow (db_Data d) s (bf_store b1) = (s', h')" by fastforce
  from general.get_write [OF assms(1) get marshal_into_spec [OF general.taken_ok [OF assms(1) get] m]] show ?thesis
    using TypeMetricData get m by (simp add: pooled_data_def)
next
  case TypeMetricPoint
  obtain s b1 where get: "BufferPool33_Get pick b = (s, b1)" by fastforce
  from fill_point_spec [OF assms(1) get, of "db_Data d" 33] show ?thesis
    using TypeMetricPoint assms(2) get by (auto simp: pooled_data_def fits_form_def)
next
  case TypeMetricPointNoOrg
  obtain s b1 where get: "BufferPool33_Get pick b = (s, b1)" by fastforce
  from fill_point_spec [OF assms(1) get, of "db_Data d" 29] show ?thesis
    using TypeMetricPointNoOrg assms(2) get by (auto simp: pooled_data_def fits_form_def)
qed

lemma release_ok: "pools_ok b (add_mset s S) \<Longrightarrow> pools_ok (release_buffer s b) S"
  by (simp add: release_buffer_def general.put_ok points.put_ok)

lemma release_store: "bf_store (release_buffer s b) = bf_store b"
  by (simp add: release_buffer_def general.put_store points.put_store)

lemma release_all:
  "pools_ok b (mset ss + S) \<Longrightarrow> pools_ok (fold release_buffer ss b) S \<and> bf_store (fold release_buffer ss b) = bf_store b"
  by (induction ss arbitrary: b) (simp_all add: release_ok release_store)

section \<open>The invariant\<close>

definition buf_inv :: "buf_state \<Rightarrow> bool" where
  "buf_inv s \<longleftrightarrow>
     pools_ok (bs_buffers s) (mset (map (fst \<circ> snd) (bs_held s))) \<and>
     (\<forall>(t, sl, d) \<in> set (bs_held s). slice_list (bf_store (bs_buffers s)) sl = d)"

lemma held_split:
  "mset (map (fst \<circ> snd) held) =
     mset [sl. (t', sl, d) \<leftarrow> held, t' = t] + mset (map (fst \<circ> snd) (filter (\<lambda>(t', sl, d). t' \<noteq> t) held))"
  by (induction held) auto

lemma separate_fewer:
  assumes "separate h (R + S)"
  shows "separate h S"
proof -
  have "size (filter_mset (\<lambda>s. sl_arr s = a) S) \<le> size (filter_mset (\<lambda>s. sl_arr s = a) (R + S))" for a
    by (intro size_mset_mono multiset_filter_mono) simp
  then show ?thesis using assms unfolding separate_def by (meson order.trans union_iff)
qed

lemma pools_ok_fewer: "pools_ok b (R + S) \<Longrightarrow> pools_ok b S"
  using separate_fewer [of "bf_store b" R] by (simp add: pools_ok_def add.assoc)

lemma keeps_held:
  assumes "keeps h h' (mset (map (fst \<circ> snd) held))" and "\<forall>(t, sl, d) \<in> set held. slice_list h sl = d"
  shows "\<forall>(t, sl, d) \<in> set held. slice_list h' sl = d"
  using assms by (fastforce simp: keeps_def)

lemma buf_inv_init: "buf_inv (init_buffers kc)"
  by (simp add: buf_inv_def init_buffers_def pools_ok_def separate_def)

lemma buf_inv_collect:
  assumes "buf_inv s" and "byte_pool Get Put n ok" and "Get pick (bs_buffers s) = (sl, b)"
  shows "buf_inv (s\<lparr>bs_buffers := b\<rparr>)"
proof -
  from assms(1) byte_pool.get_ok [OF assms(2) _ assms(3)]
  have "pools_ok b (add_mset sl (mset (map (fst \<circ> snd) (bs_held s))))"
    "keeps (bf_store (bs_buffers s)) (bf_store b) (mset (map (fst \<circ> snd) (bs_held s)))" by (auto simp: buf_inv_def)
  then show ?thesis
    using assms(1) pools_ok_fewer [of b "{#sl#}"] keeps_held [of "bf_store (bs_buffers s)" "bf_store b" "bs_held s"]
    by (simp add: buf_inv_def)
qed

lemma buf_inv_step:
  assumes "buf_step fl marshalMsg s s'" and "buf_inv s"
  shows "buf_inv s'"
  using assms
proof cases
  case (encode m d kc pick room grow sl b t)
  have ok: "pools_ok (bs_buffers s) (mset (map (fst \<circ> snd) (bs_held s)))" using assms(2) by (simp add: buf_inv_def)
  from pooled_data_spec [OF ok dataFromMetricData_fits [OF encode(2)], of pick room grow] encode(3)
  have "pools_ok b (add_mset sl (mset (map (fst \<circ> snd) (bs_held s))))" "slice_list (bf_store b) sl = db_Data d"
    "keeps (bf_store (bs_buffers s)) (bf_store b) (mset (map (fst \<circ> snd) (bs_held s)))" by auto
  then show ?thesis
    using assms(2) keeps_held [of "bf_store (bs_buffers s)" "bf_store b" "bs_held s"] unfolding encode(1) by (simp add: buf_inv_def)
next
  case (release t)
  let ?ss = "[sl. (t', sl, d) \<leftarrow> bs_held s, t' = t]" and ?held = "filter (\<lambda>(t', sl, d). t' \<noteq> t) (bs_held s)"
  have "pools_ok (bs_buffers s) (mset ?ss + mset (map (fst \<circ> snd) ?held))"
    using assms(2) held_split [of "bs_held s" t] by (simp add: buf_inv_def)
  from release_all [OF this] assms(2) show ?thesis unfolding release(1) by (auto simp: buf_inv_def)
next
  case (return_early t)
  have "pools_ok (bs_buffers s) (mset (map (fst \<circ> snd) (filter (\<lambda>(t', sl, d). t' \<noteq> t) (bs_held s))))"
    using assms(2) held_split [of "bs_held s" t] pools_ok_fewer by (metis buf_inv_def)
  then show ?thesis using assms(2) unfolding return_early(1) by (auto simp: buf_inv_def)
next
  case (take_key m e kc)
  then show ?thesis using assms(2) by (simp add: buf_inv_def)
next
  case (collect i)
  then show ?thesis
    using buf_inv_collect [OF assms(2) general.byte_pool_axioms, of "Some i"] by (metis prod.collapse)
next
  case (collect33 i)
  then show ?thesis
    using buf_inv_collect [OF assms(2) points.byte_pool_axioms, of "Some i"] by (metis prod.collapse)
qed

interpretation buf_runs: invariant_system "buf_step fl marshalMsg" "buf_reach fl marshalMsg kc" "init_buffers kc" buf_inv
  for fl marshalMsg kc
proof
  show "(buf_step fl marshalMsg)\<^sup>*\<^sup>* (init_buffers kc) s" if "buf_reach fl marshalMsg kc s" for s
    using that by induction (auto intro: rtranclp.rtrancl_into_rtrancl)
qed (auto intro: buf_reach.intros buf_inv_init buf_inv_step)

lemmas buf_reach_inv = buf_runs.reached_inv

text \<open>Two buffers that are held do not share an array, unless they are empty.\<close>

lemma separate_two:
  assumes "separate h (mset xs)" and "i < length xs" and "j < length xs" and "i \<noteq> j" and "sl_arr (xs ! i) \<noteq> 0"
  shows "sl_arr (xs ! i) \<noteq> sl_arr (xs ! j)"
proof
  assume eq: "sl_arr (xs ! i) = sl_arr (xs ! j)"
  have "{i, j} \<subseteq> {k. k < length xs \<and> sl_arr (xs ! k) = sl_arr (xs ! i)}" using assms(2,3) eq by auto
  then have "card {i, j} \<le> card {k. k < length xs \<and> sl_arr (xs ! k) = sl_arr (xs ! i)}" by (intro card_mono) simp_all
  then have "2 \<le> card {k. k < length xs \<and> sl_arr (xs ! k) = sl_arr (xs ! i)}" using assms(4) by simp
  then have "2 \<le> length (filter (\<lambda>s. sl_arr s = sl_arr (xs ! i)) xs)" by (simp add: length_filter_conv_card)
  moreover have "size (filter_mset (\<lambda>s. sl_arr s = sl_arr (xs ! i)) (mset xs)) \<le> 1"
    using assms(1,5) by (simp add: separate_def)
  ultimately show False by (metis mset_filter size_mset not_less_eq_eq numeral_2_eq_2 One_nat_def)
qed

lemma held_apart:
  assumes "buf_inv s" and "i < length (bs_held s)" and "j < length (bs_held s)" and "i \<noteq> j" and "snd (snd (bs_held s ! i)) \<noteq> []"
  shows "sl_arr (fst (snd (bs_held s ! i))) \<noteq> sl_arr (fst (snd (bs_held s ! j)))"
proof -
  let ?xs = "map (fst \<circ> snd) (bs_held s)" and ?h = "bf_store (bs_buffers s)"
  have sep: "separate ?h (mset ?xs)"
    using assms(1) separate_fewer [of ?h "mset (bf_pool (bs_buffers s)) + mset (bf_pool33 (bs_buffers s))"]
    by (simp add: buf_inv_def pools_ok_def ac_simps)
  obtain t sl d where held: "bs_held s ! i = (t, sl, d)" by (metis prod.collapse)
  then have "(t, sl, d) \<in> set (bs_held s)" using assms(2) by (metis nth_mem)
  then have "slice_list ?h (?xs ! i) = snd (snd (bs_held s ! i))" using assms(1,2) held by (auto simp: buf_inv_def)
  then have "sl_arr (?xs ! i) \<noteq> 0"
    using assms(5) separate_store_ok [OF sep] by (metis slice_list_def store_ok_def take_Nil)
  then show ?thesis using separate_two [OF sep, of i j] assms(2-4) by simp
qed

section \<open>Properties\<close>

text \<open>
  C3. The pooled buffers are transparent: in every run of concurrent calls of \<^verbatim>\<open>Publish\<close>, each buffer that a call holds
  contains the bytes that were encoded into it, until the call releases it, although the pools hand out used
  buffers; no two buffers in use or in a pool share memory; and an encoding never goes past the capacity of
  its buffer, but leaves the same bytes as in the model without pools.
\<close>

theorem buffers_keep_their_messages:
  assumes "buf_reach fl marshalMsg kc s"
  shows "(\<forall>(t, sl, d) \<in> set (bs_held s). slice_list (bf_store (bs_buffers s)) sl = d) \<and>
    (\<forall>i < length (bs_held s). \<forall>j < length (bs_held s). i \<noteq> j \<longrightarrow> snd (snd (bs_held s ! i)) \<noteq> [] \<longrightarrow>
      sl_arr (fst (snd (bs_held s ! i))) \<noteq> sl_arr (fst (snd (bs_held s ! j)))) \<and>
    (dataFromMetricData fl marshalMsg (bs_keyCache s) m = (Inr d, kc') \<longrightarrow>
      (\<exists>sl b. pooled_data pick room grow d (bs_buffers s) = Some (sl, b) \<and> slice_list (bf_store b) sl = db_Data d))"
proof -
  have inv: "buf_inv s" by (rule buf_reach_inv [OF assms])
  then have ok: "pools_ok (bs_buffers s) (mset (map (fst \<circ> snd) (bs_held s)))"
    and held: "\<forall>(t, sl, d) \<in> set (bs_held s). slice_list (bf_store (bs_buffers s)) sl = d"
    by (simp_all add: buf_inv_def)
  show ?thesis
  proof (intro conjI allI impI)
    fix i j
    assume "i < length (bs_held s)" "j < length (bs_held s)" "i \<noteq> j" "snd (snd (bs_held s ! i)) \<noteq> []"
    then show "sl_arr (fst (snd (bs_held s ! i))) \<noteq> sl_arr (fst (snd (bs_held s ! j)))" by (rule held_apart [OF inv])
  next
    assume "dataFromMetricData fl marshalMsg (bs_keyCache s) m = (Inr d, kc')"
    from pooled_data_spec [OF ok dataFromMetricData_fits [OF this], of pick room grow]
    show "\<exists>sl b. pooled_data pick room grow d (bs_buffers s) = Some (sl, b) \<and> slice_list (bf_store b) sl = db_Data d" by blast
  qed (rule held)
qed

text \<open>A buffer that was used for one metric, released, and taken again for a shorter one.\<close>

definition plain_flags :: flags where
  "plain_flags = sample_flags\<lparr>fl_v2 := False\<rparr>"

definition by_org :: "MetricData \<Rightarrow> gobyte list option" where
  "by_org m = Some (replicate (nat (md_OrgId m)) (of_int (md_OrgId m)))"

lemma reused_buffer:
  fixes m m' :: MetricData
  assumes "md_OrgId m = 3" and "md_OrgId m' = 2"
  shows "\<exists>s. buf_reach plain_flags by_org None s \<and> bs_held s = [(1, \<lparr>sl_arr = 1, sl_len = 2\<rparr>, [2, 2])] \<and>
    st_arrays (bf_store (bs_buffers s)) 1 = [2, 2, 3]"
proof -
  let ?step = "buf_step plain_flags by_org"
  have enc: "dataFromMetricData plain_flags by_org None m = (Inr \<lparr>db_Data = [3, 3, 3], db_Type = TypeMetricData\<rparr>, None)"
    "dataFromMetricData plain_flags by_org None m' = (Inr \<lparr>db_Data = [2, 2], db_Type = TypeMetricData\<rparr>, None)"
    using assms by (simp_all add: dataFromMetricData_def plain_flags_def encode_full_def by_org_def numeral_eq_Suc)
  let ?full = "\<lparr>bf_store = \<lparr>st_arrays = (\<lambda>_. [])(1 := [3, 3, 3]), st_next = 2\<rparr>, bf_pool = [], bf_pool33 = []\<rparr>"
  let ?s1 = "\<lparr>bs_buffers = ?full, bs_keyCache = None, bs_held = [(1, \<lparr>sl_arr = 1, sl_len = 3\<rparr>, [3, 3, 3])]\<rparr>"
  let ?s2 = "\<lparr>bs_buffers = ?full\<lparr>bf_pool := [\<lparr>sl_arr = 1, sl_len = 0\<rparr>]\<rparr>, bs_keyCache = None, bs_held = []\<rparr>"
  let ?s3 = "\<lparr>bs_buffers = ?full\<lparr>bf_store := \<lparr>st_arrays = (\<lambda>_. [])(1 := [2, 2, 3]), st_next = 2\<rparr>\<rparr>, bs_keyCache = None,
    bs_held = [(1, \<lparr>sl_arr = 1, sl_len = 2\<rparr>, [2, 2])]\<rparr>"
  have p1: "pooled_data None 3 0 \<lparr>db_Data = [3, 3, 3], db_Type = TypeMetricData\<rparr> (bs_buffers (init_buffers None)) =
      Some (\<lparr>sl_arr = 1, sl_len = 3\<rparr>, ?full)"
    by (simp add: init_buffers_def pooled_data_def BufferPool_Get_def pick_slice_def marshal_into_def slice_cap_def make_slice_def
        overwrite_def init_store_def nil_slice_def numeral_eq_Suc)
  have p2: "pooled_data (Some 0) 2 0 \<lparr>db_Data = [2, 2], db_Type = TypeMetricData\<rparr> (bs_buffers ?s2) =
      Some (\<lparr>sl_arr = 1, sl_len = 2\<rparr>, bs_buffers ?s3)"
    by (simp add: pooled_data_def BufferPool_Get_def pick_slice_def marshal_into_def slice_cap_def overwrite_def)
  have "?step (init_buffers None) ?s1"
    using buf_step.encode [OF _ p1, of plain_flags by_org m None 1] enc(1) by (simp add: init_buffers_def)
  moreover have "?step ?s1 ?s2"
    using buf_step.release [of plain_flags by_org ?s1 1]
    by (simp add: release_buffer_def slice_cap_def BufferPool_Put_def)
  moreover have "?step ?s2 ?s3"
    using buf_step.encode [OF _ p2, of plain_flags by_org m' None 1] enc(2) by simp
  ultimately have "buf_reach plain_flags by_org None ?s3" by (meson buf_reach.intros)
  then show ?thesis by fastforce
qed

theorem buffers_keep_their_messages_witness:
  "\<exists>s. buf_reach plain_flags by_org None s \<and> st_arrays (bf_store (bs_buffers s)) 1 = [2, 2, 3] \<and>
    slice_list (bf_store (bs_buffers s)) \<lparr>sl_arr = 1, sl_len = 2\<rparr> = [2, 2]"
proof -
  obtain s where s: "buf_reach plain_flags by_org None s" "bs_held s = [(1, \<lparr>sl_arr = 1, sl_len = 2\<rparr>, [2, 2])]"
    "st_arrays (bf_store (bs_buffers s)) 1 = [2, 2, 3]"
    using reused_buffer [of "sample_metric\<lparr>md_OrgId := 3\<rparr>" "sample_metric\<lparr>md_OrgId := 2\<rparr>"] by auto
  show ?thesis using buffers_keep_their_messages [OF s(1)] s by auto
qed

end
