(* ===== verification/PublishGate.thy ===== *)
theory PublishGate
  imports KafkaPublish
begin

text \<open>
  The package \<^verbatim>\<open>publish\<close> (\<^verbatim>\<open>publish/publish.go\<close>): the one entry through which every ingest path hands over
  its metrics, and the accounting of ingested samples per organisation.

  The interface \<^verbatim>\<open>Publisher\<close> is the locale \<open>publisher\<close>. The accounting reads the organisation of each
  metric after the publisher is done with it, so the law it relies on is that a publisher that
  succeeds leaves the organisations as they were; the locale is interpreted on the two implementations
  of the code, the null publisher and the Kafka publisher.

  \<^verbatim>\<open>Publish\<close> of a publisher returns \<^term>\<open>None\<close> where it does not return at all. The counter vector is a map
  from labels to values; its float values are integers here, exact below 2 to the 53.
\<close>

section \<open>Accounting\<close>

datatype account_error = PanicNegativeCounter

type_synonym counter_vec = "string \<Rightarrow> int"

text \<open>\<^verbatim>\<open>Counter.Add\<close> panics on a negative argument.\<close>

definition counter_add :: "string \<Rightarrow> int \<Rightarrow> counter_vec \<Rightarrow> account_error + counter_vec" where
  "counter_add label n cv = (if n < 0 then Inl PanicNegativeCounter else Inr (cv(label := cv label + n)))"

definition org_counts :: "MetricData list \<Rightarrow> (int \<rightharpoonup> int)" where
  "org_counts metrics =
     fold (\<lambda>m counts. counts(md_OrgId m \<mapsto> int32_of (map_get0 counts (md_OrgId m) + 1))) metrics Map.empty"

fun add_counts :: "(int \<rightharpoonup> int) \<Rightarrow> int list \<Rightarrow> counter_vec \<Rightarrow> account_error + counter_vec" where
  "add_counts counts [] cv = Inr cv"
| "add_counts counts (org # orgs) cv =
     (case counter_add (itoa org) (map_get0 counts org) cv of
        Inl e \<Rightarrow> Inl e
      | Inr cv \<Rightarrow> add_counts counts orgs cv)"

section \<open>Publish\<close>

datatype 'e gate_error = PublisherError 'e | AccountError account_error

text \<open>
  \<open>orgs\<close> is the order in which the map of counts is visited. The result is the error, the metrics as
  the publisher leaves them, the publisher's state and the counters.
\<close>

definition gate_Publish ::
  "(MetricData list \<Rightarrow> 's \<Rightarrow> ('e option \<times> MetricData list \<times> 's) option) \<Rightarrow> int list
    \<Rightarrow> MetricData list \<Rightarrow> 's \<Rightarrow> counter_vec
    \<Rightarrow> ('e gate_error option \<times> MetricData list \<times> 's \<times> counter_vec) option" where
  "gate_Publish pub orgs metrics s cv =
     (if length metrics = 0 then Some (None, metrics, s, cv)
      else
        case pub metrics s of
          None \<Rightarrow> None
        | Some (Some e, ms, s) \<Rightarrow> Some (Some (PublisherError e), ms, s, cv)
        | Some (None, ms, s) \<Rightarrow>
            (case add_counts (org_counts ms) orgs cv of
               Inl e \<Rightarrow> Some (Some (AccountError e), ms, s, cv)
             | Inr cv \<Rightarrow> Some (None, ms, s, cv)))"

definition Persist ::
  "(MetricData list \<Rightarrow> 's \<Rightarrow> ('e option \<times> MetricData list \<times> 's) option) \<Rightarrow> MetricData list \<Rightarrow> 's
    \<Rightarrow> ('e option \<times> MetricData list \<times> 's) option" where
  "Persist pub metrics s = pub metrics s"

definition nullPublisher_Publish ::
  "MetricData list \<Rightarrow> 's \<Rightarrow> ('e option \<times> MetricData list \<times> 's) option" where
  "nullPublisher_Publish metrics s = Some (None, metrics, s)"

definition Init ::
  "(MetricData list \<Rightarrow> 's \<Rightarrow> ('e option \<times> MetricData list \<times> 's) option) option
    \<Rightarrow> MetricData list \<Rightarrow> 's \<Rightarrow> ('e option \<times> MetricData list \<times> 's) option" where
  "Init p = (case p of None \<Rightarrow> nullPublisher_Publish | Some pub \<Rightarrow> pub)"

section \<open>Counting\<close>

definition count_org :: "MetricData list \<Rightarrow> int \<Rightarrow> nat" where
  "count_org ms org = length (filter (\<lambda>m. md_OrgId m = org) ms)"

lemma count_org_le: "count_org ms org \<le> length ms"
  by (simp add: count_org_def)

lemma org_counts_fold:
  assumes "n0 + length ms < 2 ^ 31" and "\<And>org. 0 \<le> map_get0 counts org \<and> map_get0 counts org \<le> int n0"
  shows "map_get0 (fold (\<lambda>m counts. counts(md_OrgId m \<mapsto> int32_of (map_get0 counts (md_OrgId m) + 1))) ms counts) org =
    map_get0 counts org + int (count_org ms org)"
  using assms
proof (induction ms arbitrary: counts n0)
  case (Cons m ms)
  let ?counts = "counts(md_OrgId m \<mapsto> int32_of (map_get0 counts (md_OrgId m) + 1))"
  have add: "int32_of (map_get0 counts (md_OrgId m) + 1) = map_get0 counts (md_OrgId m) + 1"
    using Cons.prems(1) Cons.prems(2) [of "md_OrgId m"] by (intro int32_of_id) auto
  have bound: "0 \<le> map_get0 ?counts org \<and> map_get0 ?counts org \<le> int (Suc n0)" for org
    using Cons.prems(2) [of org] Cons.prems(2) [of "md_OrgId m"] unfolding add by simp
  have len: "Suc n0 + length ms < 2 ^ 31" using Cons.prems(1) by simp
  have "map_get0 (fold (\<lambda>m counts. counts(md_OrgId m \<mapsto> int32_of (map_get0 counts (md_OrgId m) + 1))) ms ?counts) org =
      map_get0 ?counts org + int (count_org ms org)"
    by (rule Cons.IH [OF len bound])
  then show ?case by (simp add: count_org_def add del: fun_upd_apply)
qed (simp add: count_org_def)

lemma org_counts_eq:
  assumes "length ms < 2 ^ 31"
  shows "map_get0 (org_counts ms) org = int (count_org ms org)"
  unfolding org_counts_def using org_counts_fold [of 0 ms Map.empty org] assms by simp

lemma add_counts_eq:
  assumes "distinct orgs" and "\<forall>org \<in> set orgs. 0 \<le> map_get0 counts org"
  shows "\<exists>cv'. add_counts counts orgs cv = Inr cv' \<and>
    (\<forall>label. (\<forall>org \<in> set orgs. label \<noteq> itoa org) \<longrightarrow> cv' label = cv label) \<and>
    (\<forall>org \<in> set orgs. cv' (itoa org) = cv (itoa org) + map_get0 counts org)"
  using assms
proof (induction orgs arbitrary: cv)
  case (Cons org orgs)
  let ?cv = "cv(itoa org := cv (itoa org) + map_get0 counts org)"
  have step: "counter_add (itoa org) (map_get0 counts org) cv = Inr ?cv"
    using Cons.prems(2) by (simp add: counter_add_def)
  obtain cv' where cv': "add_counts counts orgs ?cv = Inr cv'"
    "\<forall>label. (\<forall>org \<in> set orgs. label \<noteq> itoa org) \<longrightarrow> cv' label = ?cv label"
    "\<forall>o' \<in> set orgs. cv' (itoa o') = ?cv (itoa o') + map_get0 counts o'"
    using Cons.IH [of ?cv] Cons.prems by (metis distinct.simps(2) list.set_intros(2))
  have other: "itoa o' \<noteq> itoa org" if "o' \<in> set orgs" for o'
    using that Cons.prems(1) by auto
  have "cv' (itoa org) = cv (itoa org) + map_get0 counts org"
    using cv'(2) other by (metis fun_upd_same)
  moreover have "cv' (itoa o') = cv (itoa o') + map_get0 counts o'" if "o' \<in> set orgs" for o'
    using cv'(3) other [OF that] that by simp
  moreover have "cv' label = cv label" if "\<forall>o' \<in> set (org # orgs). label \<noteq> itoa o'" for label
    using cv'(2) that by simp
  ultimately show ?case using step cv'(1) by (intro exI [of _ cv']) simp
qed simp

section \<open>The interface\<close>

locale publisher =
  fixes pub :: "MetricData list \<Rightarrow> 's \<Rightarrow> ('e option \<times> MetricData list \<times> 's) option"
  assumes keeps_orgs: "pub ms s = Some (None, ms', s') \<Longrightarrow> map md_OrgId ms' = map md_OrgId ms"
begin

lemma count_org_kept:
  assumes "pub ms s = Some (None, ms', s')"
  shows "count_org ms' org = count_org ms org" and "md_OrgId ` set ms' = md_OrgId ` set ms"
    and "length ms' = length ms"
proof -
  have "count_org xs org = count_list (map md_OrgId xs) org" for xs
    by (induction xs) (auto simp: count_org_def)
  then show "count_org ms' org = count_org ms org" by (simp add: keeps_orgs [OF assms])
  show "md_OrgId ` set ms' = md_OrgId ` set ms"
    using keeps_orgs [OF assms] by (metis list.set_map)
  show "length ms' = length ms" using keeps_orgs [OF assms] by (metis length_map)
qed

lemma accounts_samples:
  assumes ok: "pub ms s = Some (None, ms', s')" and len: "length ms < 2 ^ 31" and ne: "ms \<noteq> []"
    and order: "distinct orgs" "set orgs = md_OrgId ` set ms"
  shows "\<exists>cv'. gate_Publish pub orgs ms s cv = Some (None, ms', s', cv') \<and>
    (\<forall>org. cv' (itoa org) = cv (itoa org) + int (count_org ms org))"
proof -
  note kept = count_org_kept [OF ok]
  have counts: "map_get0 (org_counts ms') org = int (count_org ms org)" for org
    using org_counts_eq [of ms' org] len kept by simp
  have pos: "\<forall>org \<in> set orgs. 0 \<le> map_get0 (org_counts ms') org" by (simp add: counts)
  obtain cv' where cv': "add_counts (org_counts ms') orgs cv = Inr cv'"
    "\<forall>label. (\<forall>org \<in> set orgs. label \<noteq> itoa org) \<longrightarrow> cv' label = cv label"
    "\<forall>org \<in> set orgs. cv' (itoa org) = cv (itoa org) + map_get0 (org_counts ms') org"
    using add_counts_eq [OF order(1) pos] by blast
  have "cv' (itoa org) = cv (itoa org) + int (count_org ms org)" for org
  proof (cases "org \<in> set orgs")
    case True
    then show ?thesis using cv'(3) by (simp add: counts)
  next
    case False
    then have "count_org ms org = 0" using order(2) by (auto simp: count_org_def filter_empty_conv)
    moreover have "\<forall>o' \<in> set orgs. itoa org \<noteq> itoa o'" using False by auto
    ultimately show ?thesis using cv'(2) by simp
  qed
  then show ?thesis using ok ne cv'(1) by (auto simp: gate_Publish_def)
qed

lemma error_not_accounted:
  assumes "pub ms s = Some (Some e, ms', s')" and "ms \<noteq> []"
  shows "gate_Publish pub orgs ms s cv = Some (Some (PublisherError e), ms', s', cv)"
  using assms by (simp add: gate_Publish_def)

end

interpretation null: publisher nullPublisher_Publish
  by unfold_locales (simp add: nullPublisher_Publish_def)

subsection \<open>The Kafka publisher gives the points back\<close>

text \<open>What a publisher leaves of a metric: everything but the identifier, the interval and the order of the tags.\<close>

definition metric_point :: "MetricData \<Rightarrow> MetricData \<times> string multiset" where
  "metric_point m = (m\<lparr>md_Id := [], md_Interval := 0, md_Tags := []\<rparr>, mset (md_Tags m))"

lemma point_simps [simp]:
  "metric_point (SetId m) = metric_point m" "metric_point (m\<lparr>md_Tags := sort (md_Tags m)\<rparr>) = metric_point m" "metric_point (m\<lparr>md_Interval := i\<rparr>) = metric_point m"
  "md_OrgId (fst (metric_point m)) = md_OrgId m"
  by (simp_all add: metric_point_def SetId_def)

lemma point_eqD: "metric_point m' = metric_point m \<Longrightarrow> md_OrgId m' = md_OrgId m"
  using point_simps(4) by metis

lemma point_OrgId: "metric_point (m\<lparr>md_OrgId := org\<rparr>) = apfst (\<lambda>x. x\<lparr>md_OrgId := org\<rparr>) (metric_point m)"
  by (simp add: metric_point_def)

text \<open>Rewriting the organisation and restoring it leaves the point as it was.\<close>

lemma point_restored:
  assumes "metric_point m' = metric_point (m\<lparr>md_OrgId := org\<rparr>)"
  shows "metric_point (m'\<lparr>md_OrgId := md_OrgId m\<rparr>) = metric_point m"
  by (simp add: point_OrgId assms) (simp add: metric_point_def)

lemma point_same_org: "md_OrgId m = org \<Longrightarrow> metric_point (m\<lparr>md_OrgId := org\<rparr>) = metric_point m"
  by (auto simp: metric_point_def)

lemma PartitionID_point: "metric_point (snd (PartitionID jh m meth n)) = metric_point m"
  using PartitionID_metric [of jh m meth n] by auto

lemma publish_topic_point:
  assumes "publish_topic fl mm jh t m bufs b = (None, m', bufs', b')"
  shows "metric_point m' = metric_point m"
proof (cases "m' = m")
  case False
  let ?m1 = "if md_OrgId m = ts_rewrite_source t then SetId (m\<lparr>md_OrgId := ts_rewrite_target t\<rparr>) else m"
  let ?m2 = "snd (PartitionID jh ?m1 (ts_partitioner t) (ts_numPartitions t))"
  have m': "m' = (if md_OrgId ?m2 \<noteq> md_OrgId m then SetId (?m2\<lparr>md_OrgId := md_OrgId m\<rparr>) else ?m2)"
    using assms False
    by (auto simp: publish_topic_def Let_def split: if_splits option.splits prod.splits sum.splits)
  obtain org where m2: "metric_point ?m2 = metric_point (m\<lparr>md_OrgId := org\<rparr>)"
    using point_same_org [of m "md_OrgId m"] by (metis (full_types) PartitionID_point point_simps(1))
  show ?thesis
  proof (cases "md_OrgId ?m2 = md_OrgId m")
    case True
    then have "org = md_OrgId m" using point_eqD [OF m2] by simp
    then show ?thesis using m' True m2 point_same_org [of m org] by simp
  next
    case False
    then show ?thesis using m' point_restored [OF m2] by simp
  qed
qed simp

lemma publish_topics_point:
  "publish_topics fl mm jh ts m bufs b = (None, m', b') \<Longrightarrow> metric_point m' = metric_point m"
proof (induction ts arbitrary: m bufs b)
  case (Cons t ts)
  obtain e m1 bufs1 b1 where one: "publish_topic fl mm jh t m bufs b = (e, m1, bufs1, b1)"
    by (metis prod_cases4)
  with Cons.prems have "e = None" "publish_topics fl mm jh ts m1 bufs1 b1 = (None, m', b')"
    by (auto split: option.splits)
  then show ?case using Cons.IH publish_topic_point [of fl mm jh t m bufs b] one by metis
qed simp

lemma deduce_interval_point: "deduce_interval mp x = Some (Inr y) \<Longrightarrow> metric_point y = metric_point x"
  by (auto simp: deduce_interval_def split: if_splits option.splits sum.splits)

lemma publish_metrics_points:
  "publish_metrics fl mm jh mp xs b = Some (None, ms, b') \<Longrightarrow> map metric_point ms = map metric_point xs"
proof (induction xs arbitrary: b ms)
  case (Cons x xs)
  then obtain y where y: "deduce_interval mp x = Some (Inr y)"
    by (auto split: option.splits sum.splits)
  obtain e m1 b1 where one: "publish_topics fl mm jh (mt_topics mp) y Map.empty b = (e, m1, b1)"
    by (metis prod_cases3)
  with Cons.prems y obtain ms' where "e = None" "ms = m1 # ms'"
    "publish_metrics fl mm jh mp xs b1 = Some (None, ms', b')"
    by (auto split: option.splits)
  then show ?case
    using Cons.IH publish_topics_point [of fl mm jh "mt_topics mp" y Map.empty b] one deduce_interval_point [OF y]
    by simp
qed simp

text \<open>Only the producer makes a send fail.\<close>

lemma publish_topic_no_send: "publish_topic fl mm jh t m bufs b = (Some e, m', bufs', b') \<Longrightarrow> e \<noteq> ErrSend x"
  by (auto simp: publish_topic_def dataFromMetricData_def encode_point_def encode_full_def Let_def
      split: if_splits option.splits prod.splits sum.splits)

lemma publish_topics_no_send: "publish_topics fl mm jh ts m bufs b = (Some e, m', b') \<Longrightarrow> e \<noteq> ErrSend x"
proof (induction ts arbitrary: m bufs b)
  case (Cons t ts)
  then show ?case
    using publish_topic_no_send by (fastforce split: prod.splits option.splits)
qed simp

lemma publish_metrics_no_send: "publish_metrics fl mm jh mp xs b = Some (Some e, ms, b') \<Longrightarrow> e \<noteq> ErrSend x"
proof (induction xs arbitrary: b ms)
  case (Cons y ys)
  have "deduce_interval mp y \<noteq> Some (Inl (ErrSend x))"
    by (auto simp: deduce_interval_def index_or_def split: if_splits option.splits sum.splits prod.splits)
  then show ?case
    using Cons publish_topics_no_send by (fastforce split: option.splits sum.splits prod.splits)
qed simp

text \<open>When \<^verbatim>\<open>Publish\<close> succeeds or fails in sending, the points of the batch are the same afterwards.\<close>

fun sent_or_not :: "publish_error option \<Rightarrow> bool" where
  "sent_or_not None = True"
| "sent_or_not (Some (ErrSend e)) = True"
| "sent_or_not _ = False"

lemma Publish_points:
  assumes "Publish fl mm jh send producer mp ms ks = Some (e, ms', ks')" and "sent_or_not e"
  shows "map metric_point ms' = map metric_point ms"
  using assms publish_metrics_no_send
  by (cases e rule: sent_or_not.cases)
    (auto simp: Publish_def Let_def dest: publish_metrics_points split: if_splits option.splits prod.splits)

lemma points_orgs:
  assumes "map metric_point ms' = map metric_point ms"
  shows "map md_OrgId ms' = map md_OrgId ms"
  using arg_cong [OF assms, of "map (md_OrgId \<circ> fst)"] by (simp add: comp_def)

interpretation kafka: publisher "\<lambda>ms ks. Publish fl mm jh send prod mp ms ks"
  for fl mm jh send prod mp
  by unfold_locales (auto dest!: Publish_points intro: points_orgs)

section \<open>Properties\<close>

text \<open>
  Accounting through the gate, with Kafka behind it: when the producer takes the batch, the counter of
  every organisation grows by exactly the number of metrics of that organisation in the request,
  although the publisher rewrites organisations on the way, and no other counter changes; when the
  publisher fails nothing is counted and its error is passed on.
\<close>

theorem gate_accounts_per_org:
  assumes "ms \<noteq> []" and "length ms < 2 ^ 31" and "distinct orgs" and "set orgs = md_OrgId ` set ms"
    and "Publish fl marshalMsg jumpHash send producer mp ms ks = Some (e, ms', ks')"
  shows "case e of
      None \<Rightarrow> \<exists>cv'. gate_Publish (Publish fl marshalMsg jumpHash send producer mp) orgs ms ks cv =
          Some (None, ms', ks', cv') \<and>
        (\<forall>org. cv' (itoa org) = cv (itoa org) + int (count_org ms org))
    | Some err \<Rightarrow> gate_Publish (Publish fl marshalMsg jumpHash send producer mp) orgs ms ks cv =
        Some (Some (PublisherError err), ms', ks', cv)"
  using kafka.accounts_samples [OF _ assms(2,1,3,4)] kafka.error_not_accounted [OF _ assms(1)] assms(5)
  by (cases e) auto

lemma Publish_sample:
  "\<exists>ks'. Publish sample_flags (\<lambda>m. Some []) (\<lambda>s n. 0) (\<lambda>msgs. None) True sample_publisher sample_batch
     sample_kstate = Some (None, map (deduced []) sample_batch, ks')"
proof -
  obtain b where "publish_metrics sample_flags (\<lambda>m. Some []) (\<lambda>s n. 0) sample_publisher sample_batch
      (empty_batch (ks_keyCache sample_kstate)) = Some (None, map (deduced []) sample_batch, b)"
    using batch_ready_metrics [OF batch_ready_sample] by blast
  moreover have "mt_topics sample_publisher \<noteq> []" by (simp add: sample_publisher_def)
  ultimately show ?thesis by (simp add: Publish_def Let_def)
qed

theorem gate_accounts_per_org_witness:
  "\<exists>ks' cv'. gate_Publish (Publish sample_flags (\<lambda>m. Some []) (\<lambda>s n. 0) (\<lambda>msgs. None) True sample_publisher)
      [7] sample_batch sample_kstate (\<lambda>_. 5) = Some (None, map (deduced []) sample_batch, ks', cv') \<and>
    cv' (itoa 7) = 7 \<and> cv' (itoa 45) = 5"
proof -
  obtain ks' where run: "Publish sample_flags (\<lambda>m. Some []) (\<lambda>s n. 0) (\<lambda>msgs. None) True sample_publisher
      sample_batch sample_kstate = Some (None, map (deduced []) sample_batch, ks')"
    using Publish_sample by blast
  have orgs: "set [7] = md_OrgId ` set sample_batch" by (simp add: sample_metric_def)
  have counts: "count_org sample_batch 7 = 2" "count_org sample_batch 45 = 0"
    by (simp_all add: count_org_def sample_metric_def)
  have "\<exists>cv'. gate_Publish (Publish sample_flags (\<lambda>m. Some []) (\<lambda>s n. 0) (\<lambda>msgs. None) True sample_publisher)
      [7] sample_batch sample_kstate (\<lambda>_. 5) = Some (None, map (deduced []) sample_batch, ks', cv') \<and>
      (\<forall>org. cv' (itoa org) = 5 + int (count_org sample_batch org))"
    using gate_accounts_per_org [OF _ _ _ orgs run, of "\<lambda>_. 5"] by simp
  then show ?thesis using counts by force
qed

end
