(* ===== verification/RateLimit.thy ===== *)
theory RateLimit
  imports GoNumeric
begin

text \<open>
  Rate limits per organisation, \<^verbatim>\<open>ingest/rate_limit.go\<close>. The package variable \<^verbatim>\<open>rateLimiters\<close> is a map that
  the configuration replaces. A \<^verbatim>\<open>rate.Limiter\<close> is its rate and burst; how long it makes a caller wait, and
  whether the wait succeeds, is the argument \<open>waitN\<close> (True when \<^verbatim>\<open>WaitN\<close> returns no error), and \<open>allow\<close>
  is \<^verbatim>\<open>Allow\<close>.
\<close>

section \<open>Configuration\<close>

record Limiter =
  lm_Limit :: int
  lm_Burst :: int

type_synonym limiters = "int \<rightharpoonup> Limiter"

definition NewLimiter :: "int \<Rightarrow> int \<Rightarrow> Limiter" where
  "NewLimiter r b = \<lparr>lm_Limit = r, lm_Burst = b\<rparr>"

datatype limit_error = ErrLimitFormat string | ErrLimitOrg string | ErrLimitNumber string

text \<open>The loop over the entries: the map is filled until an entry is refused.\<close>

fun configure_limits :: "string list \<Rightarrow> limiters \<Rightarrow> limit_error option \<times> limiters" where
  "configure_limits [] rl = (None, rl)"
| "configure_limits (limitWithOrg # rest) rl =
     (let parts = splitn2 CHR '':'' limitWithOrg
      in if length parts \<noteq> 2 then (Some (ErrLimitFormat limitWithOrg), rl)
         else
           case parse_int 32 (parts ! 0) of
             Inl e \<Rightarrow> (Some (ErrLimitOrg (parts ! 0)), rl)
           | Inr orgId \<Rightarrow>
               (case parse_int 32 (parts ! 1) of
                  Inl e \<Rightarrow> (Some (ErrLimitNumber (parts ! 1)), rl)
                | Inr limit \<Rightarrow> configure_limits rest (rl(orgId \<mapsto> NewLimiter limit limit))))"

definition ConfigureRateLimits :: "string \<Rightarrow> limiters \<Rightarrow> limit_error option \<times> limiters" where
  "ConfigureRateLimits limitStr rl =
     (if length limitStr = 0 then (None, rl)
      else configure_limits (split_on CHR '';'' limitStr) Map.empty)"

section \<open>Limiting\<close>

datatype rate_error = ErrRequestExceedsBurst | ErrWait

definition rateLimit :: "(Limiter \<Rightarrow> int \<Rightarrow> bool) \<Rightarrow> limiters \<Rightarrow> int \<Rightarrow> int \<Rightarrow> rate_error option" where
  "rateLimit waitN rl orgId datapoints =
     (case rl orgId of
        None \<Rightarrow> None
      | Some limiter \<Rightarrow>
          if datapoints > lm_Burst limiter then Some ErrRequestExceedsBurst
          else if waitN limiter datapoints then None else Some ErrWait)"

definition IsRateBudgetAvailable :: "(Limiter \<Rightarrow> bool) \<Rightarrow> limiters \<Rightarrow> int \<Rightarrow> bool" where
  "IsRateBudgetAvailable allow rl orgId = (case rl orgId of None \<Rightarrow> True | Some limiter \<Rightarrow> allow limiter)"

definition UseRateLimit :: "limiters \<Rightarrow> bool" where
  "UseRateLimit rl \<longleftrightarrow> rl \<noteq> Map.empty"

section \<open>Printing a configuration\<close>

definition limit_entry :: "int \<times> int \<Rightarrow> string" where
  "limit_entry p = itoa (fst p) @ CHR '':'' # itoa (snd p)"

definition limit_string :: "(int \<times> int) list \<Rightarrow> string" where
  "limit_string ps = join_with CHR '';'' (map limit_entry ps)"

definition int32_range :: "int \<Rightarrow> bool" where
  "int32_range n \<longleftrightarrow> - (2 ^ 31) \<le> n \<and> n < 2 ^ 31"

lemma itoa_no_semicolon: "CHR '';'' \<notin> set (itoa n)"
  using itoa_chars [of "CHR '';''" n] by (auto simp: digit_val_def split: if_splits)

lemma limit_entry_no_semicolon: "CHR '';'' \<notin> set (limit_entry p)"
  by (simp add: limit_entry_def itoa_no_semicolon)

lemma parse_int_32_itoa: "int32_range n \<Longrightarrow> parse_int 32 (itoa n) = Inr n"
  using parse_int_itoa [of 32 n] by (simp add: int32_range_def)

lemma configure_limits_entries:
  "(\<forall>p \<in> set ps. int32_range (fst p) \<and> int32_range (snd p)) \<Longrightarrow>
   configure_limits (map limit_entry ps) rl = (None, rl ++ map_of (rev (map (\<lambda>(o', l). (o', NewLimiter l l)) ps)))"
proof (induction ps arbitrary: rl)
  case (Cons p ps)
  have "splitn2 CHR '':'' (limit_entry p) = [itoa (fst p), itoa (snd p)]"
    by (simp add: limit_entry_def itoa_no_colon)
  then have "configure_limits (map limit_entry (p # ps)) rl =
      configure_limits (map limit_entry ps) (rl(fst p \<mapsto> NewLimiter (snd p) (snd p)))"
    using Cons.prems by (simp add: parse_int_32_itoa)
  moreover have "rl(fst p \<mapsto> NewLimiter (snd p) (snd p)) ++ m =
      rl ++ (map_of [case p of (o', l) \<Rightarrow> (o', NewLimiter l l)] ++ m)" for m
    by (rule ext) (auto simp: map_add_def split: option.splits prod.splits)
  ultimately show ?case using Cons by (simp del: fun_upd_apply configure_limits.simps)
qed simp

lemma configure_limits_limiter:
  "configure_limits es rl = (e, rl') \<Longrightarrow> rl' org = Some l \<Longrightarrow> \<forall>l \<in> ran rl. lm_Burst l = lm_Limit l \<Longrightarrow>
   lm_Burst l = lm_Limit l"
proof (induction es arbitrary: rl)
  case Nil
  then show ?case by (auto simp: ran_def)
next
  case (Cons x es)
  have upd: "\<forall>l \<in> ran (rl(o' \<mapsto> NewLimiter n n)). lm_Burst l = lm_Limit l" for o' n
    using Cons.prems(3) by (auto simp: ran_def NewLimiter_def)
  show ?case
    using Cons.prems Cons.IH [OF _ _ upd] by (auto simp: Let_def ran_def simp del: fun_upd_apply split: if_splits sum.splits)
qed

section \<open>Properties\<close>

text \<open>
  Rate limits are read back as they are written: a configuration string made of entries
  \<open>org:limit\<close>, with numbers of 32 bits, is accepted and gives each listed organisation a limiter whose
  rate and burst are the last limit listed for it, and no other organisation any.
\<close>

theorem rate_limits_read_back:
  assumes "ps \<noteq> []" and "\<forall>p \<in> set ps. int32_range (fst p) \<and> int32_range (snd p)"
  shows "ConfigureRateLimits (limit_string ps) rl =
    (None, map_of (rev (map (\<lambda>(org, l). (org, NewLimiter l l)) ps)))"
proof -
  have "split_on CHR '';'' (limit_string ps) = map limit_entry ps"
    unfolding limit_string_def using assms(1) by (intro split_join) (auto simp: limit_entry_no_semicolon)
  moreover have "limit_string ps \<noteq> []"
    using assms(1) by (cases ps; cases "tl ps") (auto simp: limit_string_def limit_entry_def)
  ultimately show ?thesis
    using configure_limits_entries [OF assms(2), of Map.empty] by (simp add: ConfigureRateLimits_def)
qed

theorem rate_limits_read_back_witness:
  "ConfigureRateLimits (limit_string [(1, 100), (2, 50), (1, 30)]) Map.empty =
    (None, map_of [(1, NewLimiter 30 30), (2, NewLimiter 50 50), (1, NewLimiter 100 100)])"
  using rate_limits_read_back [of "[(1, 100), (2, 50), (1, 30)]" Map.empty] by (simp add: int32_range_def)

text \<open>
  The decision of \<^verbatim>\<open>rateLimit\<close> under any accepted or refused configuration: an organisation without a
  limiter is never limited; with one, a request larger than the configured limit is refused at once
  and without waiting, and any other request gets the limiter's verdict.
\<close>

theorem rate_limit_decision:
  assumes "ConfigureRateLimits limitStr Map.empty = (e, rl)"
  shows "rateLimit waitN rl org n =
    (case rl org of
       None \<Rightarrow> None
     | Some l \<Rightarrow> if lm_Limit l < n then Some ErrRequestExceedsBurst
                 else if waitN l n then None else Some ErrWait) \<and>
    (limitStr = [] \<longrightarrow> \<not> UseRateLimit rl)"
proof (cases "limitStr = []")
  case True
  then show ?thesis using assms by (auto simp: ConfigureRateLimits_def rateLimit_def UseRateLimit_def)
next
  case False
  then have "configure_limits (split_on CHR '';'' limitStr) Map.empty = (e, rl)"
    using assms by (simp add: ConfigureRateLimits_def)
  then have "rl org = Some l \<Longrightarrow> lm_Burst l = lm_Limit l" for l
    using configure_limits_limiter [of _ Map.empty e rl org l] by simp
  then show ?thesis using False by (auto simp: rateLimit_def split: option.splits)
qed

theorem rate_limit_decision_witness:
  "rateLimit (\<lambda>l n. True) Map.empty 3 1000 = None \<and> \<not> UseRateLimit Map.empty"
  using rate_limit_decision [of "[]" None Map.empty "\<lambda>l n. True" 3 1000]
  by (simp add: ConfigureRateLimits_def)

end
