(* ===== verification/Ingest.thy ===== *)
theory Ingest
  imports PublishGate RateLimit "HOL-Library.Product_Lexorder"
begin

text \<open>
  Ingest over HTTP in the gateway's own formats, \<^verbatim>\<open>ingest/metrics.go\<close> and \<^verbatim>\<open>ingest/metrics_response.go\<close>:
  preparation and validation of a batch, the response with its validation errors, the counters, and the
  two handlers.

  \<^item> \<open>Context\<close> is the authenticated user of a request; \<open>ingest_state\<close> holds the package variables.
  \<^item> A decoded batch is a list of pointers: \<^term>\<open>None\<close> is a null entry.
  \<^item> What happens to a request outside the code (the bytes read, cancellation, the limiter's wait) is
    the record \<open>request\<close>; the decoders and the publisher are arguments.
  \<^item> A handler's result is a \<open>run\<close>: it returns, panics, or does not end.
\<close>

section \<open>Results of a handler\<close>

datatype 'a run = Returns 'a | Panics | Loops

section \<open>The response\<close>

record ValidationError =
  ve_Count :: int
  ve_ExampleIds :: "nat list"

record MetricsResponse =
  mr_Invalid :: int
  mr_Published :: int
  mr_ValidationErrors :: "string \<rightharpoonup> ValidationError"

definition NewMetricsResponse :: MetricsResponse where
  "NewMetricsResponse = \<lparr>mr_Invalid = 0, mr_Published = 0, mr_ValidationErrors = Map.empty\<rparr>"

definition AddInvalid :: "string \<Rightarrow> nat \<Rightarrow> MetricsResponse \<Rightarrow> MetricsResponse" where
  "AddInvalid key index m =
     (let vErr = (case mr_ValidationErrors m key of
                    None \<Rightarrow> \<lparr>ve_Count = 0, ve_ExampleIds = []\<rparr>
                  | Some v \<Rightarrow> v);
          vErr = vErr\<lparr>ve_Count := ve_Count vErr + 1\<rparr>;
          vErr = (if ve_Count vErr < 10 then vErr\<lparr>ve_ExampleIds := ve_ExampleIds vErr @ [index]\<rparr> else vErr)
      in m\<lparr>mr_Invalid := mr_Invalid m + 1, mr_ValidationErrors := (mr_ValidationErrors m)(key \<mapsto> vErr)\<rparr>)"

text \<open>The texts of the errors of \<^verbatim>\<open>Validate\<close>, which are the keys of the response and a counter label.\<close>

fun schema_error_text :: "schema_error \<Rightarrow> string" where
  "schema_error_text ErrInvalidIntervalzero = ''interval cannot be 0''"
| "schema_error_text ErrInvalidOrgIdzero = ''org-id cannot be 0''"
| "schema_error_text ErrInvalidEmptyName = ''name cannot be empty''"
| "schema_error_text ErrInvalidMtype = ''invalid mtype''"
| "schema_error_text ErrInvalidTagFormat = ''invalid tag format''"
| "schema_error_text ErrUnknownPartitionMethod = ''unknown partition method''"
| "schema_error_text PanicIndex = ''''"
| "schema_error_text PanicDivide = ''''"

section \<open>State\<close>

record Range32 =
  r_min :: uint32
  r_max :: uint32
  r_valid :: bool

definition NewRange32 :: Range32 where
  "NewRange32 = \<lparr>r_min = - 1, r_max = 0, r_valid = False\<rparr>"

definition ValueUint32 :: "uint32 \<Rightarrow> Range32 \<Rightarrow> Range32" where
  "ValueUint32 val r =
     (let r = (if val < r_min r then r\<lparr>r_min := val\<rparr> else r);
          r = (if val > r_max r then r\<lparr>r_max := val\<rparr> else r)
      in r\<lparr>r_valid := True\<rparr>)"

type_synonym discards = "int \<rightharpoonup> (string \<rightharpoonup> int)"

record ingest_state =
  is_metricsValid :: uint32
  is_metricsRejected :: uint32
  is_metricsTimestamp :: "int \<rightharpoonup> Range32"
  is_discardedSamples :: "string \<times> string \<Rightarrow> int"

record Context =
  cx_ID :: int
  cx_IsAdmin :: bool

definition getMetricsTimestampStat :: "int \<Rightarrow> (int \<rightharpoonup> Range32) \<Rightarrow> (int \<rightharpoonup> Range32)" where
  "getMetricsTimestampStat org ts = (case ts org of None \<Rightarrow> ts(org \<mapsto> NewRange32) | Some r \<Rightarrow> ts)"

definition discardsByOrg_Add :: "int \<Rightarrow> string \<Rightarrow> discards \<Rightarrow> discards" where
  "discardsByOrg_Add org reason dbo =
     (let dbr = (case dbo org of None \<Rightarrow> Map.empty | Some d \<Rightarrow> d)
      in dbo(org \<mapsto> dbr(reason \<mapsto> map_get0 dbr reason + 1)))"

section \<open>Preparing a batch\<close>

text \<open>The assignments before \<^verbatim>\<open>Validate\<close>, and \<^verbatim>\<open>Validate\<close>.\<close>

definition check_metric :: "Context \<Rightarrow> MetricData \<Rightarrow> schema_error option \<times> MetricData" where
  "check_metric ctx m =
     (let m = (if \<not> cx_IsAdmin ctx then m\<lparr>md_OrgId := cx_ID ctx\<rparr> else m);
          m = (if md_Mtype m = [] then m\<lparr>md_Mtype := ''gauge''\<rparr> else m)
      in Validate m)"

record loop_state =
  lp_toPublish :: "MetricData list"
  lp_resp :: MetricsResponse
  lp_discards :: discards
  lp_timestamps :: "int \<rightharpoonup> Range32"

definition prepare_one :: "Context \<Rightarrow> nat \<Rightarrow> MetricData \<Rightarrow> loop_state \<Rightarrow> loop_state" where
  "prepare_one ctx i m s =
     (case check_metric ctx m of
        (Some err, m) \<Rightarrow>
          s\<lparr>lp_resp := AddInvalid (schema_error_text err) i (lp_resp s),
            lp_discards := discardsByOrg_Add (md_OrgId m) (schema_error_text err) (lp_discards s)\<rparr>
      | (None, m) \<Rightarrow>
          let org = (if cx_IsAdmin ctx then md_OrgId m else cx_ID ctx);
              ts = getMetricsTimestampStat org (lp_timestamps s);
              m = (if cx_IsAdmin ctx then m else SetId m)
          in s\<lparr>lp_timestamps := ts(org := map_option (ValueUint32 (uint32_of (md_Time m))) (ts org)),
               lp_toPublish := lp_toPublish s @ [m]\<rparr>)"

text \<open>The loop; a null entry is a nil dereference.\<close>

fun prepare_loop :: "Context \<Rightarrow> nat \<Rightarrow> MetricData option list \<Rightarrow> loop_state \<Rightarrow> loop_state option" where
  "prepare_loop ctx i [] s = Some s"
| "prepare_loop ctx i (None # rest) s = None"
| "prepare_loop ctx i (Some m # rest) s = prepare_loop ctx (Suc i) rest (prepare_one ctx i m s)"

text \<open>
  The nested \<^verbatim>\<open>range\<close> over the discards, in the order \<open>ord\<close> of its pairs.
\<close>

definition report_discards ::
  "discards \<Rightarrow> (int \<times> string) list \<Rightarrow> (string \<times> string \<Rightarrow> int) \<Rightarrow> (string \<times> string \<Rightarrow> int)" where
  "report_discards dbo ord cv =
     fold (\<lambda>(org, reason) cv.
             cv((reason, itoa org) := cv (reason, itoa org) +
               (case dbo org of None \<Rightarrow> 0 | Some dbr \<Rightarrow> map_get0 dbr reason)))
       ord cv"

definition discard_pairs :: "discards \<Rightarrow> (int \<times> string) set" where
  "discard_pairs dbo = {(org, reason). \<exists>dbr. dbo org = Some dbr \<and> reason \<in> dom dbr}"

definition discard_order :: "discards \<Rightarrow> (int \<times> string) list \<Rightarrow> bool" where
  "discard_order dbo ord \<longleftrightarrow> distinct ord \<and> set ord = discard_pairs dbo"

definition prepareIngest ::
  "(discards \<Rightarrow> (int \<times> string) list) \<Rightarrow> Context \<Rightarrow> MetricData option list \<Rightarrow> MetricData list \<Rightarrow> ingest_state
    \<Rightarrow> ((MetricData list \<times> MetricsResponse) \<times> ingest_state) option" where
  "prepareIngest order ctx ins toPublish st =
     (let ts = (if cx_IsAdmin ctx then is_metricsTimestamp st
                else getMetricsTimestampStat (cx_ID ctx) (is_metricsTimestamp st))
      in case prepare_loop ctx 0 ins
                \<lparr>lp_toPublish = toPublish, lp_resp = NewMetricsResponse, lp_discards = Map.empty, lp_timestamps = ts\<rparr> of
           None \<Rightarrow> None
         | Some s \<Rightarrow>
             Some ((lp_toPublish s, lp_resp s),
               st\<lparr>is_metricsRejected := is_metricsRejected st + word_of_int (mr_Invalid (lp_resp s)),
                  is_metricsValid := is_metricsValid st + of_nat (length (lp_toPublish s)),
                  is_metricsTimestamp := lp_timestamps s,
                  is_discardedSamples :=
                    report_discards (lp_discards s) (order (lp_discards s)) (is_discardedSamples st)\<rparr>))"

section \<open>Handlers\<close>

datatype reply_body = Text string | ErrorBody | Response MetricsResponse

record reply =
  rp_status :: int
  rp_body :: reply_body

text \<open>
  \<open>rq_read\<close> is what reading the whole (possibly decompressed) body gives, \<open>rq_done_read\<close> and
  \<open>rq_done\<close> whether the request was cancelled when the code looks after a failed read and before it
  publishes, \<open>rq_err\<close> whether it was when the rate limiter is done.
\<close>

record request =
  rq_hasBody :: bool
  rq_read :: "gobyte list option"
  rq_done_read :: bool
  rq_waitN :: "Limiter \<Rightarrow> int \<Rightarrow> bool"
  rq_err :: bool
  rq_done :: bool

record ('s) world =
  wo_ingest :: ingest_state
  wo_counters :: counter_vec
  wo_limiters :: limiters
  wo_publisher :: 's

type_synonym 's publish_fun = "MetricData list \<Rightarrow> 's \<Rightarrow> (publish_error option \<times> MetricData list \<times> 's) option"

text \<open>Everything after decoding, which the two handlers share: the last part of both functions.\<close>

definition rate_limit_reply :: "Context \<Rightarrow> request \<Rightarrow> limiters \<Rightarrow> int \<Rightarrow> reply option" where
  "rate_limit_reply ctx rq rl n =
     (if UseRateLimit rl then
        (case rateLimit (rq_waitN rq) rl (cx_ID ctx) n of
           None \<Rightarrow> None
         | Some err \<Rightarrow>
             if rq_err rq then None
             else if err = ErrRequestExceedsBurst
               then Some \<lparr>rp_status = 413, rp_body = Text ''batch is larger than limit''\<rparr>
             else Some \<lparr>rp_status = 429, rp_body = Text ''rate limit is exhausted''\<rparr>)
      else None)"

definition publish_reply ::
  "'s publish_fun \<Rightarrow> (MetricData list \<Rightarrow> int list) \<Rightarrow> MetricData list \<Rightarrow> MetricsResponse \<Rightarrow> 's world
    \<Rightarrow> (reply \<times> 's world) run" where
  "publish_reply pub orgs toPublish resp w =
     (case gate_Publish pub (orgs toPublish) toPublish (wo_publisher w) (wo_counters w) of
        None \<Rightarrow> Loops
      | Some (Some (AccountError e), ms, s, cv) \<Rightarrow> Panics
      | Some (Some (PublisherError e), ms, s, cv) \<Rightarrow>
          if is_panic e then Panics
          else Returns (\<lparr>rp_status = 500, rp_body = ErrorBody\<rparr>, w\<lparr>wo_publisher := s, wo_counters := cv\<rparr>)
      | Some (None, ms, s, cv) \<Rightarrow>
          Returns (\<lparr>rp_status = 200, rp_body = Response (resp\<lparr>mr_Published := int (length toPublish)\<rparr>)\<rparr>,
                   w\<lparr>wo_publisher := s, wo_counters := cv\<rparr>))"

definition ingest_decoded ::
  "'s publish_fun \<Rightarrow> (MetricData list \<Rightarrow> int list) \<Rightarrow> (discards \<Rightarrow> (int \<times> string) list) \<Rightarrow> Context \<Rightarrow> request
    \<Rightarrow> MetricData option list \<Rightarrow> 's world \<Rightarrow> (reply \<times> 's world) run" where
  "ingest_decoded pub orgs order ctx rq metrics w =
     (case prepareIngest order ctx metrics [] (wo_ingest w) of
        None \<Rightarrow> Panics
      | Some ((toPublish, resp), st) \<Rightarrow>
          let w = w\<lparr>wo_ingest := st\<rparr>
          in case rate_limit_reply ctx rq (wo_limiters w) (int (length toPublish)) of
               Some r \<Rightarrow> Returns (r, w)
             | None \<Rightarrow>
                 if rq_done rq then Returns (\<lparr>rp_status = 499, rp_body = Text ''request canceled''\<rparr>, w)
                 else publish_reply pub orgs toPublish resp w)"

definition read_failed :: "request \<Rightarrow> reply" where
  "read_failed rq =
     (if rq_done_read rq then \<lparr>rp_status = 499, rp_body = Text ''request canceled''\<rparr>
      else \<lparr>rp_status = 500, rp_body = ErrorBody\<rparr>)"

definition metricsJson ::
  "'s publish_fun \<Rightarrow> (MetricData list \<Rightarrow> int list) \<Rightarrow> (discards \<Rightarrow> (int \<times> string) list)
    \<Rightarrow> (gobyte list \<Rightarrow> MetricData option list option) \<Rightarrow> Context \<Rightarrow> request \<Rightarrow> 's world
    \<Rightarrow> (reply \<times> 's world) run" where
  "metricsJson pub orgs order unmarshalJson ctx rq w =
     (if \<not> rq_hasBody rq
        then Returns (\<lparr>rp_status = 400, rp_body = Text ''no data included in request.''\<rparr>, w)
      else
        case rq_read rq of
          None \<Rightarrow> Returns (read_failed rq, w)
        | Some body \<Rightarrow>
            (case unmarshalJson body of
               None \<Rightarrow> Returns (\<lparr>rp_status = 400, rp_body = Text ''unable to parse request body. ''\<rparr>, w)
             | Some metrics \<Rightarrow> ingest_decoded pub orgs order ctx rq metrics w))"

text \<open>
  The envelope of the binary formats, from the vendored \<^verbatim>\<open>schema/msg/msg.go\<close>: one format byte, eight
  bytes of identifier, the payload.
\<close>

datatype msg_error = ErrTooSmall | ErrUnsupportedFormat | ErrUnmarshal

definition InitFromMsg :: "gobyte list \<Rightarrow> msg_error option" where
  "InitFromMsg msg =
     (if length msg < 9 then Some ErrTooSmall
      else if msg ! 0 \<noteq> 0 \<and> msg ! 0 \<noteq> 1 then Some ErrUnsupportedFormat
      else None)"

definition DecodeMetricData ::
  "(gobyte list \<Rightarrow> MetricData option list option) \<Rightarrow> (gobyte list \<Rightarrow> MetricData option list option)
    \<Rightarrow> gobyte list \<Rightarrow> msg_error + MetricData option list" where
  "DecodeMetricData unmarshalJson unmarshalMsgp msg =
     (case (if msg ! 0 = 0 then unmarshalJson (drop 9 msg) else unmarshalMsgp (drop 9 msg)) of
        None \<Rightarrow> Inl ErrUnmarshal
      | Some metrics \<Rightarrow> Inr metrics)"

definition metricsBinary ::
  "'s publish_fun \<Rightarrow> (MetricData list \<Rightarrow> int list) \<Rightarrow> (discards \<Rightarrow> (int \<times> string) list)
    \<Rightarrow> (gobyte list \<Rightarrow> MetricData option list option) \<Rightarrow> (gobyte list \<Rightarrow> MetricData option list option)
    \<Rightarrow> (gobyte list \<Rightarrow> gobyte list option) \<Rightarrow> Context \<Rightarrow> request \<Rightarrow> bool \<Rightarrow> 's world
    \<Rightarrow> (reply \<times> 's world) run" where
  "metricsBinary pub orgs order unmarshalJson unmarshalMsgp unsnappy ctx rq compressed w =
     (if \<not> rq_hasBody rq
        then Returns (\<lparr>rp_status = 400, rp_body = Text ''no data included in request.''\<rparr>, w)
      else
        case (if compressed then Option.bind (rq_read rq) unsnappy else rq_read rq) of
          None \<Rightarrow> Returns (read_failed rq, w)
        | Some body \<Rightarrow>
            (case InitFromMsg body of
               Some e \<Rightarrow> Returns (\<lparr>rp_status = 400, rp_body = ErrorBody\<rparr>, w)
             | None \<Rightarrow>
                 (case DecodeMetricData unmarshalJson unmarshalMsgp body of
                    Inl e \<Rightarrow> Returns (\<lparr>rp_status = 400, rp_body = ErrorBody\<rparr>, w)
                  | Inr metrics \<Rightarrow> ingest_decoded pub orgs order ctx rq metrics w)))"

definition Metrics ::
  "'s publish_fun \<Rightarrow> (MetricData list \<Rightarrow> int list) \<Rightarrow> (discards \<Rightarrow> (int \<times> string) list)
    \<Rightarrow> (gobyte list \<Rightarrow> MetricData option list option) \<Rightarrow> (gobyte list \<Rightarrow> MetricData option list option)
    \<Rightarrow> (gobyte list \<Rightarrow> gobyte list option) \<Rightarrow> string \<Rightarrow> Context \<Rightarrow> request \<Rightarrow> 's world
    \<Rightarrow> (reply \<times> 's world) run" where
  "Metrics pub orgs order unmarshalJson unmarshalMsgp unsnappy contentType ctx rq w =
     (if contentType = ''rt-metric-binary''
        then metricsBinary pub orgs order unmarshalJson unmarshalMsgp unsnappy ctx rq False w
      else if contentType = ''rt-metric-binary-snappy''
        then metricsBinary pub orgs order unmarshalJson unmarshalMsgp unsnappy ctx rq True w
      else if contentType = ''application/json''
        then metricsJson pub orgs order unmarshalJson ctx rq w
      else Returns (\<lparr>rp_status = 400, rp_body = Text (''unknown content-type: '' @ contentType)\<rparr>, w))"

section \<open>The response counts what was refused\<close>

text \<open>The entry for one error text, from the indices of the metrics that had it.\<close>

definition error_entry :: "nat list \<Rightarrow> ValidationError option" where
  "error_entry idxs =
     (if idxs = [] then None else Some \<lparr>ve_Count = int (length idxs), ve_ExampleIds = take 9 idxs\<rparr>)"

lemma AddInvalid_fields [simp]:
  "mr_Invalid (AddInvalid k i m) = mr_Invalid m + 1" "mr_Published (AddInvalid k i m) = mr_Published m"
  "j \<noteq> k \<Longrightarrow> mr_ValidationErrors (AddInvalid k i m) j = mr_ValidationErrors m j"
  by (simp_all add: AddInvalid_def Let_def)

lemma AddInvalid_entry:
  assumes "mr_ValidationErrors m k = error_entry idxs"
  shows "mr_ValidationErrors (AddInvalid k i m) k = error_entry (idxs @ [i])"
proof (cases "idxs = []")
  case True
  then show ?thesis using assms by (simp add: AddInvalid_def error_entry_def Let_def)
next
  case False
  have "take 9 (idxs @ [i]) = (if length idxs < 9 then take 9 idxs @ [i] else take 9 idxs)" by simp
  with False show ?thesis using assms by (simp add: AddInvalid_def error_entry_def Let_def)
qed

definition error_indices :: "(string \<times> nat) list \<Rightarrow> string \<Rightarrow> nat list" where
  "error_indices errs key = map snd (filter (\<lambda>e. fst e = key) errs)"

lemma AddInvalid_fold:
  "mr_Invalid (fold (\<lambda>(k, i). AddInvalid k i) errs NewMetricsResponse) = int (length errs) \<and>
   mr_Published (fold (\<lambda>(k, i). AddInvalid k i) errs NewMetricsResponse) = 0 \<and>
   mr_ValidationErrors (fold (\<lambda>(k, i). AddInvalid k i) errs NewMetricsResponse) =
     (\<lambda>key. error_entry (error_indices errs key))"
proof (induction errs rule: rev_induct)
  case Nil
  show ?case by (auto simp: NewMetricsResponse_def error_indices_def error_entry_def)
next
  case (snoc e errs)
  obtain k i where e: "e = (k, i)" by (cases e)
  let ?r = "fold (\<lambda>(k, i). AddInvalid k i) errs NewMetricsResponse"
  have entry: "mr_ValidationErrors ?r key = error_entry (error_indices errs key)" for key
    using snoc by simp
  have "mr_ValidationErrors (AddInvalid k i ?r) key = error_entry (error_indices (errs @ [(k, i)]) key)" for key
    using AddInvalid_entry [OF entry [of k]] entry [of key]
    by (cases "key = k") (simp_all add: error_indices_def)
  with snoc show ?case by (auto simp: e)
qed

lemma discards_fold:
  "(case fold (\<lambda>(org, reason). discardsByOrg_Add org reason) ps Map.empty org of
      None \<Rightarrow> None | Some dbr \<Rightarrow> dbr reason) =
   (let n = count_list ps (org, reason) in if n = 0 then None else Some (int n))"
proof (induction ps rule: rev_induct)
  case (snoc p ps)
  obtain o' r where p: "p = (o', r)" by (cases p)
  show ?case
    using snoc by (auto simp: p discardsByOrg_Add_def Let_def map_get0_def split: option.splits if_splits)
qed simp

section \<open>What preparation keeps and refuses\<close>

definition accepted :: "Context \<Rightarrow> MetricData list \<Rightarrow> MetricData list" where
  "accepted ctx ms =
     concat (map (\<lambda>m. case check_metric ctx m of
                        (None, m') \<Rightarrow> [if cx_IsAdmin ctx then m' else SetId m']
                      | (Some e, m') \<Rightarrow> []) ms)"

fun refused :: "Context \<Rightarrow> nat \<Rightarrow> MetricData list \<Rightarrow> (string \<times> int \<times> nat) list" where
  "refused ctx i [] = []"
| "refused ctx i (m # ms) =
     (case check_metric ctx m of
        (None, m') \<Rightarrow> []
      | (Some e, m') \<Rightarrow> [(schema_error_text e, md_OrgId m', i)]) @ refused ctx (Suc i) ms"

lemma accepted_Cons:
  "accepted ctx (m # ms) =
     (case check_metric ctx m of
        (None, m') \<Rightarrow> [if cx_IsAdmin ctx then m' else SetId m']
      | (Some e, m') \<Rightarrow> []) @ accepted ctx ms"
  by (simp add: accepted_def)

lemma accepted_refused_length: "length (accepted ctx ms) + length (refused ctx i ms) = length ms"
  by (induction ms arbitrary: i) (auto simp: accepted_Cons accepted_def split: prod.splits option.splits)

lemma prepare_loop_spec:
  "\<exists>s'. prepare_loop ctx i (map Some ms) s = Some s' \<and>
     lp_toPublish s' = lp_toPublish s @ accepted ctx ms \<and>
     lp_resp s' = fold (\<lambda>(k, i). AddInvalid k i) (map (\<lambda>(k, org, i). (k, i)) (refused ctx i ms)) (lp_resp s) \<and>
     lp_discards s' = fold (\<lambda>(org, k). discardsByOrg_Add org k)
       (map (\<lambda>(k, org, i). (org, k)) (refused ctx i ms)) (lp_discards s)"
proof (induction ms arbitrary: i s)
  case Nil
  then show ?case by (simp add: accepted_def)
next
  case (Cons m ms)
  obtain e m' where check: "check_metric ctx m = (e, m')" by fastforce
  show ?case
    using Cons [of "Suc i" "prepare_one ctx i m s"] check
    by (cases e) (simp_all add: prepare_one_def accepted_Cons Let_def)
qed

lemma check_metric_ok:
  assumes "check_metric ctx m = (None, m')"
  shows "md_OrgId m' \<noteq> 0" and "md_Interval m' \<noteq> 0" and "md_Name m' \<noteq> []"
    and "list_all tag_ok (md_Tags m')" and "\<not> cx_IsAdmin ctx \<Longrightarrow> md_OrgId m' = cx_ID ctx"
    and "md_Interval m' = md_Interval m" and "md_Value m' = md_Value m" and "md_Time m' = md_Time m"
    and "md_Tags m' = md_Tags m" and "md_Name m' = join_with CHR ''.'' (nodes (md_Name m))"
  using assms by (auto simp: check_metric_def Validate_cases Let_def list_all_iff split: if_splits)

lemma accepted_props:
  assumes "m' \<in> set (accepted ctx ms)" and "\<not> cx_IsAdmin ctx"
  shows "md_OrgId m' = cx_ID ctx \<and> SetId m' = m' \<and> md_Interval m' \<noteq> 0 \<and> md_Name m' \<noteq> [] \<and> cx_ID ctx \<noteq> 0"
proof -
  obtain m where "m' \<in> set (case check_metric ctx m of
      (None, m'') \<Rightarrow> [if cx_IsAdmin ctx then m'' else SetId m''] | (Some e, m'') \<Rightarrow> [])"
    using assms(1) by (auto simp: accepted_def)
  then obtain m'' where "check_metric ctx m = (None, m'')" "m' = SetId m''"
    using assms(2) by (cases "check_metric ctx m") (auto split: option.splits)
  then show ?thesis using check_metric_ok [of ctx m m''] assms(2) by simp
qed

lemma accepted_tags:
  assumes "m' \<in> set (accepted ctx ms)" and "\<not> cx_IsAdmin ctx"
  shows "list_all tag_ok (md_Tags m')"
proof -
  obtain m where "m' \<in> set (case check_metric ctx m of
      (None, m'') \<Rightarrow> [if cx_IsAdmin ctx then m'' else SetId m''] | (Some e, m'') \<Rightarrow> [])"
    using assms(1) by (auto simp: accepted_def)
  then obtain m'' where "check_metric ctx m = (None, m'')" "m' = SetId m''"
    using assms(2) by (cases "check_metric ctx m") (auto split: option.splits)
  then show ?thesis using check_metric_ok(4) [of ctx m m''] by (simp add: list_all_iff)
qed

subsection \<open>Reporting the discards\<close>

lemma fold_add_at:
  assumes "inj_on f (insert q (set xs))" and "distinct xs"
  shows "fold (\<lambda>p cv. cv(f p := cv (f p) + g p)) xs cv (f q) = cv (f q) + (if q \<in> set xs then g q else (0 :: int))"
  using assms
proof (induction xs arbitrary: cv)
  case (Cons x xs)
  have inj: "inj_on f (insert q (set xs))" using Cons.prems(1) by (auto simp: inj_on_def)
  have "f x = f q \<longleftrightarrow> x = q" using Cons.prems(1) by (auto simp: inj_on_def)
  then show ?case using Cons.IH [OF inj] Cons.prems(2) by auto
qed simp

lemma report_discards_eq:
  assumes "discard_order dbo ord"
  shows "report_discards dbo ord cv (reason, itoa org) = cv (reason, itoa org) +
    (case dbo org of None \<Rightarrow> 0 | Some dbr \<Rightarrow> map_get0 dbr reason)"
proof -
  let ?f = "\<lambda>(org, reason). (reason, itoa org)"
  let ?g = "\<lambda>(org, reason). case dbo org of None \<Rightarrow> 0 | Some dbr \<Rightarrow> map_get0 dbr reason"
  have "inj_on ?f (insert (org, reason) (set ord))" by (auto simp: inj_on_def)
  from fold_add_at [OF this, of ?g cv] assms
  have "fold (\<lambda>p cv. cv(?f p := cv (?f p) + ?g p)) ord cv (reason, itoa org) = cv (reason, itoa org) +
      (if (org, reason) \<in> set ord then ?g (org, reason) else 0)"
    by (simp add: discard_order_def)
  moreover have "?g (org, reason) = 0" if "(org, reason) \<notin> set ord"
    using that assms by (auto simp: discard_order_def discard_pairs_def map_get0_def dom_def split: option.splits)
  moreover have "(\<lambda>(org, reason) cv. cv((reason, itoa org) := cv (reason, itoa org) +
      (case dbo org of None \<Rightarrow> 0 | Some dbr \<Rightarrow> map_get0 dbr reason))) = (\<lambda>p cv. cv(?f p := cv (?f p) + ?g p))"
    by (auto simp: fun_eq_iff)
  ultimately show ?thesis unfolding report_discards_def by simp
qed

lemma discard_pairs_fold:
  "discard_pairs (fold (\<lambda>(org, k). discardsByOrg_Add org k) ps Map.empty) = set ps"
proof -
  let ?d = "fold (\<lambda>(org, k). discardsByOrg_Add org k) ps Map.empty"
  have "(org, reason) \<in> discard_pairs ?d \<longleftrightarrow> (org, reason) \<in> set ps" for org reason
    using discards_fold [where ps = ps and org = org and reason = reason]
    by (auto simp: discard_pairs_def Let_def count_list_0_iff split: option.splits if_splits)
  then show ?thesis by auto
qed

lemma discards_count:
  "(case fold (\<lambda>(org, k). discardsByOrg_Add org k) ps Map.empty org of
      None \<Rightarrow> 0 | Some dbr \<Rightarrow> map_get0 dbr reason) = int (count_list ps (org, reason))"
  using discards_fold [where ps = ps and org = org and reason = reason] by (auto simp: map_get0_def Let_def split: option.splits if_splits)

definition visits_all :: "(discards \<Rightarrow> (int \<times> string) list) \<Rightarrow> bool" where
  "visits_all order \<longleftrightarrow> (\<forall>d. finite (discard_pairs d) \<longrightarrow> discard_order d (order d))"

lemma visits_all_sorted: "visits_all (\<lambda>d. sorted_list_of_set (discard_pairs d))"
  by (simp add: visits_all_def discard_order_def)

lemma prepareIngest_spec:
  assumes "visits_all order"
  shows "\<exists>resp st'. prepareIngest order ctx (map Some ms) [] st = Some ((accepted ctx ms, resp), st') \<and>
    mr_Invalid resp = int (length (refused ctx 0 ms)) \<and> mr_Published resp = 0 \<and>
    mr_ValidationErrors resp =
      (\<lambda>key. error_entry (error_indices (map (\<lambda>(k, org, i). (k, i)) (refused ctx 0 ms)) key)) \<and>
    is_metricsValid st' = is_metricsValid st + of_nat (length (accepted ctx ms)) \<and>
    is_metricsRejected st' = is_metricsRejected st + of_nat (length (refused ctx 0 ms)) \<and>
    (\<forall>org k. is_discardedSamples st' (k, itoa org) = is_discardedSamples st (k, itoa org) +
       int (count_list (map (\<lambda>(k, org, i). (org, k)) (refused ctx 0 ms)) (org, k)))"
proof -
  let ?ts = "if cx_IsAdmin ctx then is_metricsTimestamp st
    else getMetricsTimestampStat (cx_ID ctx) (is_metricsTimestamp st)"
  let ?s0 = "\<lparr>lp_toPublish = [], lp_resp = NewMetricsResponse, lp_discards = Map.empty, lp_timestamps = ?ts\<rparr>"
  let ?ps = "map (\<lambda>(k, org, i). (org, k)) (refused ctx 0 ms)"
  let ?es = "map (\<lambda>(k, org, i). (k, i)) (refused ctx 0 ms)"
  obtain s where s: "prepare_loop ctx 0 (map Some ms) ?s0 = Some s" "lp_toPublish s = accepted ctx ms"
    "lp_resp s = fold (\<lambda>(k, i). AddInvalid k i) ?es NewMetricsResponse"
    "lp_discards s = fold (\<lambda>(org, k). discardsByOrg_Add org k) ?ps Map.empty"
    using prepare_loop_spec [of ctx 0 ms ?s0] by auto
  note resp = AddInvalid_fold [of ?es, folded s(3)]
  have ord: "discard_order (lp_discards s) (order (lp_discards s))"
    using assms discard_pairs_fold [where ps = ?ps] by (simp add: visits_all_def s(4))
  have "report_discards (lp_discards s) (order (lp_discards s)) cv (k, itoa org) =
      cv (k, itoa org) + int (count_list ?ps (org, k))" for cv k org
    using report_discards_eq [OF ord, of cv k org] discards_count [where ps = ?ps and org = org and reason = k] by (simp add: s(4))
  then show ?thesis
    using s(1,2) resp by (simp add: prepareIngest_def)
qed

text \<open>A null entry in the decoded batch ends the request in a nil dereference.\<close>

lemma prepare_loop_null: "None \<in> set ins \<Longrightarrow> prepare_loop ctx i ins s = None"
proof (induction ins arbitrary: i s)
  case (Cons x ins)
  then show ?case by (cases x) auto
qed simp

lemma null_entry_panics: "None \<in> set ins \<Longrightarrow> ingest_decoded pub orgs order ctx rq ins w = Panics"
  by (simp add: ingest_decoded_def prepareIngest_def prepare_loop_null)

lemma prepare_loop_full: "prepare_loop ctx i ins s = Some s' \<Longrightarrow> \<exists>ms. ins = map Some ms"
proof (induction ins arbitrary: i s)
  case (Cons x ins)
  then show ?case by (cases x) (auto simp: map_eq_Cons_conv Cons_eq_map_conv)
qed simp

lemma ingest_decoded_answers:
  assumes "ingest_decoded pub orgs order ctx rq metrics w = Returns (r, w')" and "visits_all order"
  shows "rp_status r \<in> {200, 400, 413, 429, 499, 500}"
    and "rp_status r \<notin> {200, 500} \<Longrightarrow> wo_publisher w' = wo_publisher w \<and> wo_counters w' = wo_counters w"
    and "rp_status r = 200 \<Longrightarrow> \<exists>ms resp. metrics = map Some ms \<and> rp_body r = Response resp \<and>
      mr_Published resp = int (length (accepted ctx ms)) \<and> mr_Invalid resp = int (length (refused ctx 0 ms))"
proof -
  have "None \<notin> set metrics"
    using assms(1) null_entry_panics [of metrics pub orgs order ctx rq w] by auto
  then obtain ms where ms: "metrics = map Some ms" by (metis ex_map_conv not_None_eq)
  obtain resp st' where prep: "prepareIngest order ctx metrics [] (wo_ingest w) = Some ((accepted ctx ms, resp), st')"
    and inv: "mr_Invalid resp = int (length (refused ctx 0 ms))"
    using prepareIngest_spec [OF assms(2), of ctx ms "wo_ingest w"] ms by blast
  have *: "rp_status r \<in> {200, 400, 413, 429, 499, 500} \<and>
      (rp_status r \<notin> {200, 500} \<longrightarrow> wo_publisher w' = wo_publisher w \<and> wo_counters w' = wo_counters w) \<and>
      (rp_status r = 200 \<longrightarrow> rp_body r = Response (resp\<lparr>mr_Published := int (length (accepted ctx ms))\<rparr>))"
    using assms(1) prep
    by (auto simp: ingest_decoded_def Let_def rate_limit_reply_def publish_reply_def
        split: if_splits option.splits gate_error.splits)
  from * show "rp_status r \<in> {200, 400, 413, 429, 499, 500}" by blast
  from * show "rp_status r \<notin> {200, 500} \<Longrightarrow> wo_publisher w' = wo_publisher w \<and> wo_counters w' = wo_counters w"
    by blast
  assume "rp_status r = 200"
  with * have "rp_body r = Response (resp\<lparr>mr_Published := int (length (accepted ctx ms))\<rparr>)" by blast
  then show "\<exists>ms resp. metrics = map Some ms \<and> rp_body r = Response resp \<and>
      mr_Published resp = int (length (accepted ctx ms)) \<and> mr_Invalid resp = int (length (refused ctx 0 ms))"
    using ms inv by (intro exI [of _ ms] exI [of _ "resp\<lparr>mr_Published := int (length (accepted ctx ms))\<rparr>"]) simp
qed

text \<open>The batch a request decodes to, if it decodes.\<close>

definition decoded_batch ::
  "(gobyte list \<Rightarrow> MetricData option list option) \<Rightarrow> (gobyte list \<Rightarrow> MetricData option list option)
    \<Rightarrow> (gobyte list \<Rightarrow> gobyte list option) \<Rightarrow> string \<Rightarrow> request \<Rightarrow> MetricData option list option" where
  "decoded_batch unmarshalJson unmarshalMsgp unsnappy contentType rq =
     (if \<not> rq_hasBody rq \<or> contentType \<notin> {''application/json'', ''rt-metric-binary'', ''rt-metric-binary-snappy''} then None
      else if contentType = ''application/json'' then Option.bind (rq_read rq) unmarshalJson
      else
        Option.bind
          (if contentType = ''rt-metric-binary-snappy'' then Option.bind (rq_read rq) unsnappy else rq_read rq)
          (\<lambda>body. if InitFromMsg body \<noteq> None then None
                  else case DecodeMetricData unmarshalJson unmarshalMsgp body of
                         Inl e \<Rightarrow> None | Inr metrics \<Rightarrow> Some metrics))"

lemma metricsBinary_cases:
  "(\<exists>r. metricsBinary pub orgs order uj um us ctx rq compressed w = Returns (r, w) \<and> rp_status r \<in> {400, 499, 500} \<and>
      decoded_batch uj um us (if compressed then ''rt-metric-binary-snappy'' else ''rt-metric-binary'') rq = None) \<or>
    (\<exists>metrics. decoded_batch uj um us (if compressed then ''rt-metric-binary-snappy'' else ''rt-metric-binary'') rq = Some metrics \<and>
       metricsBinary pub orgs order uj um us ctx rq compressed w = ingest_decoded pub orgs order ctx rq metrics w)"
proof -
  define raw where "raw = (if compressed then Option.bind (rq_read rq) us else rq_read rq)"
  have dec: "decoded_batch uj um us (if compressed then ''rt-metric-binary-snappy'' else ''rt-metric-binary'') rq =
      (if \<not> rq_hasBody rq then None
       else Option.bind raw (\<lambda>body. if InitFromMsg body \<noteq> None then None
         else case DecodeMetricData uj um body of Inl e \<Rightarrow> None | Inr metrics \<Rightarrow> Some metrics))"
    by (simp add: decoded_batch_def raw_def)
  show ?thesis
    unfolding dec metricsBinary_def raw_def [symmetric]
    by (cases raw) (auto simp: read_failed_def split: option.splits sum.splits)
qed

text \<open>The handler refuses what does not decode, and hands on the rest.\<close>

lemma Metrics_cases:
  "(\<exists>r. Metrics pub orgs order uj um us ct ctx rq w = Returns (r, w) \<and> rp_status r \<in> {400, 499, 500} \<and>
      decoded_batch uj um us ct rq = None) \<or>
   (\<exists>metrics. decoded_batch uj um us ct rq = Some metrics \<and>
      Metrics pub orgs order uj um us ct ctx rq w = ingest_decoded pub orgs order ctx rq metrics w)"
proof -
  consider (bin) compressed where "ct = (if compressed then ''rt-metric-binary-snappy'' else ''rt-metric-binary'')"
      "Metrics pub orgs order uj um us ct ctx rq w = metricsBinary pub orgs order uj um us ctx rq compressed w"
    | (json) "ct = ''application/json''" "Metrics pub orgs order uj um us ct ctx rq w = metricsJson pub orgs order uj ctx rq w"
    | (other) "ct \<notin> {''application/json'', ''rt-metric-binary'', ''rt-metric-binary-snappy''}"
  proof (cases "ct \<in> {''rt-metric-binary'', ''rt-metric-binary-snappy''}")
    case True
    then show ?thesis using bin [of "ct = ''rt-metric-binary-snappy''"] by (auto simp: Metrics_def)
  next
    case False
    then show ?thesis using json other by (auto simp: Metrics_def)
  qed
  then show ?thesis
  proof cases
    case bin
    show ?thesis using metricsBinary_cases [of pub orgs order uj um us ctx rq compressed w] unfolding bin(2) unfolding bin(1) .
  next
    case json
    then show ?thesis by (auto simp: metricsJson_def read_failed_def decoded_batch_def split: option.splits)
  next
    case other
    then show ?thesis by (auto simp: Metrics_def decoded_batch_def)
  qed
qed

text \<open>A publisher that returns for a batch, and when it succeeds gives it back with its organisations.\<close>

definition publisher_answers :: "'s publish_fun \<Rightarrow> MetricData list \<Rightarrow> 's \<Rightarrow> bool" where
  "publisher_answers pub ms s \<longleftrightarrow>
     (case pub ms s of
        None \<Rightarrow> False
      | Some (Some e, ms', s') \<Rightarrow> \<not> is_panic e
      | Some (None, ms', s') \<Rightarrow> map md_OrgId ms' = map md_OrgId ms)"

lemma publish_reply_returns:
  assumes "publisher_answers pub ms (wo_publisher w)" and "length ms < 2 ^ 31" and "distinct (orgs ms)"
  shows "\<exists>r w'. publish_reply pub orgs ms resp w = Returns (r, w')"
proof (cases "ms = []")
  case True
  then show ?thesis by (simp add: publish_reply_def gate_Publish_def)
next
  case ne: False
  obtain err ms' s where run: "pub ms (wo_publisher w) = Some (err, ms', s)"
    using assms(1) by (auto simp: publisher_answers_def split: option.splits)
  show ?thesis
  proof (cases err)
    case (Some e)
    then show ?thesis using assms(1) run ne by (simp add: publish_reply_def gate_Publish_def publisher_answers_def)
  next
    case None
    then have orgs: "map md_OrgId ms' = map md_OrgId ms" using assms(1) run by (simp add: publisher_answers_def)
    then have "length ms' = length ms" by (metis length_map)
    then have "\<forall>org \<in> set (orgs ms). 0 \<le> map_get0 (org_counts ms') org" using org_counts_eq [of ms'] assms(2) by simp
    from add_counts_eq [OF assms(3) this, of "wo_counters w"] show ?thesis
      using None run ne by (auto simp: publish_reply_def gate_Publish_def)
  qed
qed

lemma ingest_decoded_returns:
  assumes "visits_all order" and "distinct (orgs (accepted ctx ms))"
    and "length ms < 2 ^ 31" and "publisher_answers pub (accepted ctx ms) (wo_publisher w)"
  shows "\<exists>r w'. ingest_decoded pub orgs order ctx rq (map Some ms) w = Returns (r, w')"
proof -
  obtain resp st where prep: "prepareIngest order ctx (map Some ms) [] (wo_ingest w) = Some ((accepted ctx ms, resp), st)"
    using prepareIngest_spec [OF assms(1)] by blast
  have "length (accepted ctx ms) < 2 ^ 31" using accepted_refused_length [of ctx ms 0] assms(3) by linarith
  from publish_reply_returns [of pub _ "w\<lparr>wo_ingest := st\<rparr>" orgs resp, OF _ this assms(2)] assms(4)
  show ?thesis using prep by (auto simp: ingest_decoded_def Let_def split: option.split)
qed

text \<open>A metric of the client's own organisation that has been checked.\<close>

definition own_metric :: "Context \<Rightarrow> MetricData \<Rightarrow> bool" where
  "own_metric ctx m \<longleftrightarrow> md_OrgId m = cx_ID ctx \<and> cx_ID ctx \<noteq> 0 \<and> SetId m = m \<and> md_Interval m \<noteq> 0 \<and> md_Name m \<noteq> [] \<and>
     list_all tag_ok (md_Tags m)"

lemma prepared_own:
  assumes "prepareIngest order ctx ins [] st = Some ((toPublish, resp), st')" and "\<not> cx_IsAdmin ctx"
  shows "list_all (own_metric ctx) toPublish"
proof -
  obtain s where run: "prepare_loop ctx 0 ins \<lparr>lp_toPublish = [], lp_resp = NewMetricsResponse,
      lp_discards = Map.empty, lp_timestamps = getMetricsTimestampStat (cx_ID ctx) (is_metricsTimestamp st)\<rparr> = Some s"
    "lp_toPublish s = toPublish"
    using assms by (auto simp: prepareIngest_def split: option.splits)
  obtain ms where ins: "ins = map Some ms" using prepare_loop_full [OF run(1)] by blast
  then have "toPublish = accepted ctx ms"
    using prepare_loop_spec [of ctx 0 ms] run by (metis append_Nil loop_state.select_convs(1) option.sel)
  then show ?thesis
    using accepted_props [OF _ assms(2), of _ ms] accepted_tags [OF _ assms(2), of _ ms] by (simp add: list_all_iff own_metric_def)
qed

section \<open>Properties\<close>

text \<open>
  C8. Preparation of a batch without null entries: the valid metrics go on in their order, the others are
  counted. \<^verbatim>\<open>Invalid\<close> is the number of refused metrics; the validation errors list every error text with
  the number of metrics that had it and the positions of the first nine; the valid and rejected
  counters and, per organisation and reason, the discard counters grow by what was accepted and
  refused, in whatever order the maps are visited; together that accounts for every metric.
\<close>

theorem prepare_accounts_for_every_metric:
  assumes "visits_all order"
  shows "\<exists>resp st'. prepareIngest order ctx (map Some ms) [] st = Some ((accepted ctx ms, resp), st') \<and>
    length (accepted ctx ms) + length (refused ctx 0 ms) = length ms \<and>
    mr_Invalid resp = int (length (refused ctx 0 ms)) \<and>
    (\<forall>key. mr_ValidationErrors resp key =
      (let idxs = map (\<lambda>(k, org, i). i) (filter (\<lambda>(k, org, i). k = key) (refused ctx 0 ms))
       in if idxs = [] then None
          else Some \<lparr>ve_Count = int (length idxs), ve_ExampleIds = take 9 idxs\<rparr>)) \<and>
    is_metricsValid st' = is_metricsValid st + of_nat (length (accepted ctx ms)) \<and>
    is_metricsRejected st' = is_metricsRejected st + of_nat (length (refused ctx 0 ms)) \<and>
    (\<forall>org key. is_discardedSamples st' (key, itoa org) = is_discardedSamples st (key, itoa org) +
       int (length (filter (\<lambda>(k, o', i). k = key \<and> o' = org) (refused ctx 0 ms))))"
proof -
  have idx: "error_indices (map (\<lambda>(k, org, i). (k, i)) es) key =
      map (\<lambda>(k, org, i). i) (filter (\<lambda>(k, org, i). k = key) es)" for es :: "(string \<times> int \<times> nat) list" and key
    by (induction es) (auto simp: error_indices_def)
  have cnt: "count_list (map (\<lambda>(k, org, i). (org, k)) es) (org, key) =
      length (filter (\<lambda>(k, o', i). k = key \<and> o' = org) es)" for es :: "(string \<times> int \<times> nat) list" and org key
    by (induction es) auto
  show ?thesis
    using prepareIngest_spec [OF assms, of ctx ms st] accepted_refused_length [of ctx ms 0]
    unfolding idx cnt error_entry_def Let_def by auto
qed

theorem prepare_accounts_for_every_metric_witness:
  "\<exists>resp st'. prepareIngest (\<lambda>d. sorted_list_of_set (discard_pairs d)) \<lparr>cx_ID = 7, cx_IsAdmin = False\<rparr>
      (map Some [sample_metric, sample_metric\<lparr>md_Interval := 0\<rparr>]) []
      \<lparr>is_metricsValid = 0, is_metricsRejected = 0, is_metricsTimestamp = Map.empty, is_discardedSamples = (\<lambda>_. 0)\<rparr> =
    Some ((accepted \<lparr>cx_ID = 7, cx_IsAdmin = False\<rparr> [sample_metric, sample_metric\<lparr>md_Interval := 0\<rparr>], resp), st')"
  using prepare_accounts_for_every_metric [OF visits_all_sorted] by blast

text \<open>A request without limits, for the witnesses.\<close>

definition sample_world :: "unit world" where
  "sample_world =
     \<lparr>wo_ingest = \<lparr>is_metricsValid = 0, is_metricsRejected = 0, is_metricsTimestamp = Map.empty,
                   is_discardedSamples = (\<lambda>_. 0)\<rparr>,
      wo_counters = (\<lambda>_. 0), wo_limiters = Map.empty, wo_publisher = ()\<rparr>"

definition sample_request :: request where
  "sample_request =
     \<lparr>rq_hasBody = True, rq_read = Some [], rq_done_read = False, rq_waitN = (\<lambda>l n. True), rq_err = False,
      rq_done = False\<rparr>"



text \<open>
  C9. The handler for \<^verbatim>\<open>/metrics\<close>, with a publisher that returns for the batch it gets, fewer than 2 to the 31 metrics
  and each organisation visited once by the accounting: it panics exactly when the batch decodes with a null
  entry, and answers every other request, with one of six statuses; only an answer of 200 or 500 follows a
  call of the publisher, every other one leaves the publisher and the sample accounting as they were;
  and an answer of 200 reports as many published and invalid metrics as the request had.
\<close>

theorem metrics_handler_answers:
  assumes "visits_all order" and "\<And>ns. distinct (orgs ns)"
    and "\<And>ms. decoded_batch unmarshalJson unmarshalMsgp unsnappy contentType rq = Some (map Some ms) \<Longrightarrow>
      length ms < 2 ^ 31 \<and> publisher_answers pub (accepted ctx ms) (wo_publisher w)"
  shows "if \<exists>metrics. decoded_batch unmarshalJson unmarshalMsgp unsnappy contentType rq = Some metrics \<and> None \<in> set metrics
    then Metrics pub orgs order unmarshalJson unmarshalMsgp unsnappy contentType ctx rq w = Panics
    else \<exists>r w'. Metrics pub orgs order unmarshalJson unmarshalMsgp unsnappy contentType ctx rq w = Returns (r, w') \<and>
      rp_status r \<in> {200, 400, 413, 429, 499, 500} \<and>
      (rp_status r \<notin> {200, 500} \<longrightarrow> wo_publisher w' = wo_publisher w \<and> wo_counters w' = wo_counters w) \<and>
      (rp_status r = 200 \<longrightarrow>
        (\<exists>ms resp. decoded_batch unmarshalJson unmarshalMsgp unsnappy contentType rq = Some (map Some ms) \<and>
           rp_body r = Response resp \<and> mr_Published resp = int (length (accepted ctx ms)) \<and>
           mr_Published resp + mr_Invalid resp = int (length ms)))"
    (is "if ?null then _ else ?answer")
  using Metrics_cases [of pub orgs order unmarshalJson unmarshalMsgp unsnappy contentType ctx rq w]
proof
  assume "\<exists>r. Metrics pub orgs order unmarshalJson unmarshalMsgp unsnappy contentType ctx rq w = Returns (r, w) \<and>
    rp_status r \<in> {400, 499, 500} \<and> decoded_batch unmarshalJson unmarshalMsgp unsnappy contentType rq = None"
  then show ?thesis by auto
next
  assume "\<exists>metrics. decoded_batch unmarshalJson unmarshalMsgp unsnappy contentType rq = Some metrics \<and>
    Metrics pub orgs order unmarshalJson unmarshalMsgp unsnappy contentType ctx rq w = ingest_decoded pub orgs order ctx rq metrics w"
  then obtain metrics where dec: "decoded_batch unmarshalJson unmarshalMsgp unsnappy contentType rq = Some metrics"
    and run: "Metrics pub orgs order unmarshalJson unmarshalMsgp unsnappy contentType ctx rq w =
      ingest_decoded pub orgs order ctx rq metrics w" by blast
  show ?thesis
  proof (cases "None \<in> set metrics")
    case True
    then show ?thesis using dec run null_entry_panics by auto
  next
    case False
    then obtain ms where ms: "metrics = map Some ms" by (metis ex_map_conv not_None_eq)
    obtain r w' where r: "ingest_decoded pub orgs order ctx rq metrics w = Returns (r, w')"
      using ingest_decoded_returns [OF assms(1), of orgs ctx ms pub w rq] assms(2,3) dec ms by blast
    note ans = ingest_decoded_answers [OF r assms(1)]
    have "\<exists>resp. rp_body r = Response resp \<and> mr_Published resp = int (length (accepted ctx ms)) \<and>
        mr_Published resp + mr_Invalid resp = int (length ms)" if "rp_status r = 200"
      using ans(3) [OF that] accepted_refused_length [of ctx ms 0] ms by (auto simp: inj_map_eq_map)
    with ans(1,2) have ?answer unfolding run r using dec ms by blast
    then show ?thesis using dec False by auto
  qed
qed

theorem metrics_handler_answers_witness:
  "\<exists>r w'. Metrics nullPublisher_Publish (\<lambda>ns. remdups (map md_OrgId ns)) (\<lambda>d. sorted_list_of_set (discard_pairs d))
      (\<lambda>b. Some [Some sample_metric]) (\<lambda>b. None) (\<lambda>b. None) ''application/json'' \<lparr>cx_ID = 1, cx_IsAdmin = False\<rparr> sample_request sample_world =
      Returns (r, w') \<and> rp_status r \<in> {200, 400, 413, 429, 499, 500}"
proof -
  have dec: "decoded_batch (\<lambda>b. Some [Some sample_metric]) (\<lambda>b. None) (\<lambda>b. None) ''application/json'' sample_request = Some [Some sample_metric]"
    by (simp add: decoded_batch_def sample_request_def)
  have "publisher_answers nullPublisher_Publish ns s" for ns and s :: unit by (simp add: publisher_answers_def nullPublisher_Publish_def)
  then show ?thesis
    using metrics_handler_answers [OF visits_all_sorted, of "\<lambda>ns. remdups (map md_OrgId ns)" "\<lambda>b. Some [Some sample_metric]" "\<lambda>b. None"
        "\<lambda>b. None" "''application/json''" sample_request nullPublisher_Publish "\<lparr>cx_ID = 1, cx_IsAdmin = False\<rparr>" sample_world]
    by (auto simp: dec Cons_eq_map_conv)
qed

end
