(* ===== verification/Writers.thy ===== *)
theory Writers
  imports Ingest GoSlices
begin

text \<open>
  The writers for OpenTSDB and Prometheus (\<^verbatim>\<open>ingest/opentsdb.go\<close>, \<^verbatim>\<open>ingest/prometheus.go\<close>) with the pool of
  metrics they share (\<^verbatim>\<open>ingest/ingest.go\<close>, \<^verbatim>\<open>util/metricpool.go\<close>).

  Both take metrics from the pool, overwrite every field, publish, and put the metrics back. All that a
  later \<^verbatim>\<open>Get\<close> can see of a pooled metric is its tag slice, so the pool is a list of slices over a store of
  arrays. \<^verbatim>\<open>sync.Pool\<close> may return any pooled metric or a new one: \<open>picks\<close> says which for each \<^verbatim>\<open>Get\<close> of a
  request. The batch that \<^verbatim>\<open>publish.Publish\<close> receives is read off the store when it is called.

  The decoders of gzip, snappy, JSON and protobuf are parameters.
\<close>

section \<open>The pool\<close>

record pool_state =
  ps_store :: "string store"
  ps_pool :: "slice list"

definition MetricPool_Get :: "nat option \<Rightarrow> pool_state \<Rightarrow> slice \<times> pool_state" where
  "MetricPool_Get pick ps =
     (case pick of
        None \<Rightarrow> (nil_slice, ps)
      | Some i \<Rightarrow>
          if i < length (ps_pool ps)
          then (ps_pool ps ! i, ps\<lparr>ps_pool := take i (ps_pool ps) @ drop (Suc i) (ps_pool ps)\<rparr>)
          else (nil_slice, ps))"

definition MetricPool_Put :: "slice \<Rightarrow> pool_state \<Rightarrow> pool_state" where
  "MetricPool_Put s ps = ps\<lparr>ps_pool := ps_pool ps @ [s]\<rparr>"

text \<open>A metric in the batch: its fields, and the slice that holds its tags.\<close>

type_synonym pooled = "MetricData \<times> slice"

definition view :: "string store \<Rightarrow> pooled \<Rightarrow> MetricData" where
  "view h m = (fst m)\<lparr>md_Tags := slice_list h (snd m)\<rparr>"

definition set_id :: "MetricData \<Rightarrow> slice \<Rightarrow> string store \<Rightarrow> pooled \<times> string store" where
  "set_id md tags h = ((SetId (md\<lparr>md_Tags := slice_list h tags\<rparr>), tags), sort_slice tags h)"

definition gauge :: "int \<Rightarrow> string \<Rightarrow> float64 \<Rightarrow> int \<Rightarrow> MetricData" where
  "gauge org name v t =
     \<lparr>md_Id = [], md_OrgId = org, md_Name = name, md_Interval = 0, md_Value = v, md_Unit = ''unknown'',
      md_Time = t, md_Mtype = ''gauge'', md_Tags = []\<rparr>"

section \<open>OpenTSDB\<close>

text \<open>The tags of an entry are a map; the list gives them in the order the loop visits them.\<close>

record OpenTSDBMetric =
  ot_Metric :: string
  ot_Timestamp :: int
  ot_Value :: float64
  ot_Tags :: "(string \<times> string) list"

definition tag_string :: "string \<times> string \<Rightarrow> string" where
  "tag_string tv = fst tv @ CHR ''='' # snd tv"

fun FormatTags :: "(nat \<Rightarrow> nat) \<Rightarrow> (string \<times> string) list \<Rightarrow> slice \<times> string store \<Rightarrow> slice \<times> string store" where
  "FormatTags grow [] sh = sh"
| "FormatTags grow (tv # tags) sh = FormatTags grow tags (append_string grow (tag_string tv) sh)"

definition opentsdb_one ::
  "(nat \<Rightarrow> nat) \<Rightarrow> int \<Rightarrow> nat option \<Rightarrow> OpenTSDBMetric \<Rightarrow> pool_state \<Rightarrow> pooled \<times> pool_state" where
  "opentsdb_one grow org pick ts ps =
     (let (old, ps) = MetricPool_Get pick ps;
          (tags, h) = FormatTags grow (ot_Tags ts) (old, ps_store ps);
          (md, h) = set_id (gauge org (ot_Metric ts) (ot_Value ts) (ot_Timestamp ts)) tags h
      in (md, ps\<lparr>ps_store := h\<rparr>))"

fun opentsdb_batch ::
  "(nat \<Rightarrow> nat) \<Rightarrow> int \<Rightarrow> (nat \<Rightarrow> nat option) \<Rightarrow> OpenTSDBMetric list \<Rightarrow> pooled list \<Rightarrow> pool_state
    \<Rightarrow> pooled list \<times> pool_state" where
  "opentsdb_batch grow org picks [] buf ps = (buf, ps)"
| "opentsdb_batch grow org picks (ts # req) buf ps =
     (let (md, ps) = opentsdb_one grow org (picks (length buf)) ts ps
      in opentsdb_batch grow org picks req (buf @ [md]) ps)"

text \<open>The answer after publishing, which the two handlers share.\<close>

definition write_reply ::
  "'s publish_fun \<Rightarrow> (MetricData list \<Rightarrow> int list) \<Rightarrow> MetricData list \<Rightarrow> 's world \<Rightarrow> (reply \<times> 's world) run" where
  "write_reply pub orgs ms w =
     (case gate_Publish pub (orgs ms) ms (wo_publisher w) (wo_counters w) of
        None \<Rightarrow> Loops
      | Some (Some (AccountError e), ms, s, cv) \<Rightarrow> Panics
      | Some (Some (PublisherError e), ms, s, cv) \<Rightarrow>
          if is_panic e then Panics
          else Returns (\<lparr>rp_status = 500, rp_body = ErrorBody\<rparr>, w\<lparr>wo_publisher := s, wo_counters := cv\<rparr>)
      | Some (None, ms, s, cv) \<Rightarrow>
          Returns (\<lparr>rp_status = 200, rp_body = Text ''ok''\<rparr>, w\<lparr>wo_publisher := s, wo_counters := cv\<rparr>))"

record write_request =
  wr_hasBody :: bool
  wr_gzip :: bool
  wr_read :: "gobyte list option"

definition with_pool :: "pool_state \<Rightarrow> (reply \<times> 's world) run \<Rightarrow> (reply \<times> pool_state \<times> 's world) run" where
  "with_pool ps r =
     (case r of Returns (rp, w) \<Rightarrow> Returns (rp, ps, w) | Panics \<Rightarrow> Panics | Loops \<Rightarrow> Loops)"

definition OpenTSDBWrite ::
  "'s publish_fun \<Rightarrow> (MetricData list \<Rightarrow> int list) \<Rightarrow> (nat \<Rightarrow> nat) \<Rightarrow> (nat \<Rightarrow> nat option)
    \<Rightarrow> (gobyte list \<Rightarrow> gobyte list option) \<Rightarrow> (gobyte list \<Rightarrow> OpenTSDBMetric list option)
    \<Rightarrow> Context \<Rightarrow> write_request \<Rightarrow> pool_state \<Rightarrow> 's world \<Rightarrow> (reply \<times> pool_state \<times> 's world) run" where
  "OpenTSDBWrite pub orgs grow picks gunzip unmarshal ctx rq ps w =
     (if \<not> wr_hasBody rq
        then Returns (\<lparr>rp_status = 400, rp_body = Text ''no data included in request.''\<rparr>, ps, w)
      else
        case (if wr_gzip rq then Option.bind (wr_read rq) gunzip else wr_read rq) of
          None \<Rightarrow> Returns (\<lparr>rp_status = 400, rp_body = ErrorBody\<rparr>, ps, w)
        | Some body \<Rightarrow>
            (case unmarshal body of
               None \<Rightarrow> Returns (\<lparr>rp_status = 400, rp_body = ErrorBody\<rparr>, ps, w)
             | Some req \<Rightarrow>
                 let (buf, ps) = opentsdb_batch grow (cx_ID ctx) picks req [] ps;
                     result = write_reply pub orgs (map (view (ps_store ps)) buf) w;
                     ps = fold (\<lambda>m. MetricPool_Put ((snd m)\<lparr>sl_len := 0\<rparr>)) buf ps
                 in with_pool ps result))"

section \<open>Prometheus\<close>

record Sample =
  sa_Value :: float64
  sa_Timestamp :: int

record TimeSeries =
  se_Labels :: "(string \<times> string) list"
  se_Samples :: "Sample list"

text \<open>The loop over the labels: the last value of \<^verbatim>\<open>__name__\<close>, and the other labels as tags.\<close>

fun read_labels :: "(nat \<Rightarrow> nat) \<Rightarrow> (string \<times> string) list \<Rightarrow> string \<Rightarrow> slice \<times> string store \<Rightarrow> string \<times> slice \<times> string store" where
  "read_labels grow [] name sh = (name, sh)"
| "read_labels grow (l # labels) name sh =
     (if fst l = ''__name__'' then read_labels grow labels (snd l) sh
      else read_labels grow labels name (append_string grow (tag_string l) sh))"

fun add_samples ::
  "int \<Rightarrow> (nat \<Rightarrow> nat option) \<Rightarrow> string \<Rightarrow> slice \<Rightarrow> Sample list \<Rightarrow> pooled list \<Rightarrow> pool_state
    \<Rightarrow> pooled list \<times> pool_state" where
  "add_samples org picks name tagSet [] buf ps = (buf, ps)"
| "add_samples org picks name tagSet (sa # samples) buf ps =
     (let (_, ps) = MetricPool_Get (picks (length buf)) ps;
          (md, h) = set_id (gauge org name (sa_Value sa) (sa_Timestamp sa sdiv 1000)) tagSet (ps_store ps)
      in add_samples org picks name tagSet samples (buf @ [md]) (ps\<lparr>ps_store := h\<rparr>))"

text \<open>The loop over the series; \<^term>\<open>None\<close> for a series without a name.\<close>

fun prom_batch ::
  "(nat \<Rightarrow> nat) \<Rightarrow> int \<Rightarrow> (nat \<Rightarrow> nat option) \<Rightarrow> TimeSeries list \<Rightarrow> pooled list \<Rightarrow> pool_state
    \<Rightarrow> pooled list option \<times> pool_state" where
  "prom_batch grow org picks [] buf ps = (Some buf, ps)"
| "prom_batch grow org picks (ts # req) buf ps =
     (let (name, tagSet, h) = read_labels grow (se_Labels ts) [] (nil_slice, ps_store ps);
          ps = ps\<lparr>ps_store := h\<rparr>
      in if name \<noteq> [] then
           (let (buf, ps) = add_samples org picks name tagSet (se_Samples ts) buf ps
            in prom_batch grow org picks req buf ps)
         else (None, ps))"

definition PrometheusMTWrite ::
  "'s publish_fun \<Rightarrow> (MetricData list \<Rightarrow> int list) \<Rightarrow> (nat \<Rightarrow> nat) \<Rightarrow> (nat \<Rightarrow> nat option)
    \<Rightarrow> (gobyte list \<Rightarrow> gobyte list option) \<Rightarrow> (gobyte list \<Rightarrow> TimeSeries list option)
    \<Rightarrow> Context \<Rightarrow> write_request \<Rightarrow> pool_state \<Rightarrow> 's world \<Rightarrow> (reply \<times> pool_state \<times> 's world) run" where
  "PrometheusMTWrite pub orgs grow picks unsnappy unmarshal ctx rq ps w =
     (if \<not> wr_hasBody rq
        then Returns (\<lparr>rp_status = 400, rp_body = Text ''no data included in request.''\<rparr>, ps, w)
      else
        case Option.bind (Option.bind (wr_read rq) unsnappy) unmarshal of
          None \<Rightarrow> Returns (\<lparr>rp_status = 400, rp_body = ErrorBody\<rparr>, ps, w)
        | Some req \<Rightarrow>
            (case prom_batch grow (cx_ID ctx) picks req [] ps of
               (None, ps) \<Rightarrow>
                 Returns (\<lparr>rp_status = 400, rp_body = Text ''invalid metric received: __name__ label can not equal \"\"''\<rparr>, ps, w)
             | (Some buf, ps) \<Rightarrow>
                 let result = write_reply pub orgs (map (view (ps_store ps)) buf) w;
                     ps = fold (\<lambda>m. MetricPool_Put (snd m)) buf ps
                 in with_pool ps result))"

section \<open>Tags and the store\<close>

lemma FormatTags_spec:
  "store_ok h \<Longrightarrow> slice_ok h s \<Longrightarrow> FormatTags grow tvs (s, h) = (s', h') \<Longrightarrow>
   store_ok h' \<and> slice_ok h' s' \<and> slice_list h' s' = slice_list h s @ map tag_string tvs \<and>
   touches h (sl_arr s) h' (sl_arr s')"
proof (induction tvs arbitrary: s h)
  case (Cons tv tvs)
  obtain s1 h1 where one: "append_string grow (tag_string tv) (s, h) = (s1, h1)" by fastforce
  note spec = append_string_spec [OF Cons.prems(1,2) one]
  have "FormatTags grow tvs (s1, h1) = (s', h')" using Cons.prems(3) one by simp
  then show ?case using Cons.IH [of h1 s1] spec touches_trans by auto
qed simp

definition other_labels :: "(string \<times> string) list \<Rightarrow> (string \<times> string) list" where
  "other_labels ls = filter (\<lambda>l. fst l \<noteq> ''__name__'') ls"

definition last_name :: "(string \<times> string) list \<Rightarrow> string \<Rightarrow> string" where
  "last_name ls d = fold (\<lambda>l n. if fst l = ''__name__'' then snd l else n) ls d"

lemma read_labels_FormatTags:
  "read_labels grow ls name sh = (last_name ls name, FormatTags grow (other_labels ls) sh)"
  by (induction ls arbitrary: name sh) (auto simp: last_name_def other_labels_def)

lemma set_id_spec:
  assumes "store_ok h" and "slice_ok h tags" and "set_id md tags h = (m, h')"
  shows "store_ok h' \<and> slice_ok h' tags \<and> touches h (sl_arr tags) h' (sl_arr tags) \<and> snd m = tags \<and>
    slice_list h' tags = sort (slice_list h tags) \<and> view h' m = SetId (md\<lparr>md_Tags := slice_list h tags\<rparr>)"
  using assms sort_slice_spec [OF assms(1,2)] by (auto simp: set_id_def view_def SetId_def)

lemma MetricPool_Get_store [simp]: "ps_store (snd (MetricPool_Get pick ps)) = ps_store ps"
  by (auto simp: MetricPool_Get_def split: option.splits)

lemma mset_remove_nth: "i < length xs \<Longrightarrow> mset xs = add_mset (xs ! i) (mset (take i xs @ drop (Suc i) xs))"
  by (metis id_take_nth_drop mset.simps(2) mset_append union_mset_add_mset_right)

lemma MetricPool_Get_cases:
  assumes "MetricPool_Get pick ps = (s, ps')"
  shows "(s = nil_slice \<and> ps' = ps) \<or> mset (ps_pool ps) = add_mset s (mset (ps_pool ps'))"
  using assms mset_remove_nth [of _ "ps_pool ps"]
  by (auto simp: MetricPool_Get_def split: option.splits if_splits)

lemma MetricPool_Get_separate:
  assumes "separate (ps_store ps) (S + mset (ps_pool ps))" and "MetricPool_Get pick ps = (s, ps')"
  shows "separate (ps_store ps') (add_mset s (S + mset (ps_pool ps'))) \<and> set (ps_pool ps') \<subseteq> set (ps_pool ps)"
proof -
  have store: "ps_store ps' = ps_store ps" using MetricPool_Get_store [of pick ps] assms(2) by simp
  from MetricPool_Get_cases [OF assms(2)] show ?thesis
  proof
    assume "s = nil_slice \<and> ps' = ps"
    then show ?thesis using assms(1) separate_nil by simp
  next
    assume pool: "mset (ps_pool ps) = add_mset s (mset (ps_pool ps'))"
    then have "set (ps_pool ps') \<subseteq> set (ps_pool ps)"
      by (metis set_mset_mset set_mset_add_mset_insert subset_insertI)
    then show ?thesis using assms(1) by (simp add: store pool)
  qed
qed

section \<open>The batch of an OpenTSDB request\<close>

text \<open>The metric an entry stands for.\<close>

definition opentsdb_metric :: "int \<Rightarrow> OpenTSDBMetric \<Rightarrow> MetricData" where
  "opentsdb_metric org ts =
     SetId ((gauge org (ot_Metric ts) (ot_Value ts) (ot_Timestamp ts))\<lparr>md_Tags := map tag_string (ot_Tags ts)\<rparr>)"

text \<open>Pooled metrics have no tags, and no two metrics of the pool and the batch share an array.\<close>

definition pool_ok :: "pool_state \<Rightarrow> pooled list \<Rightarrow> bool" where
  "pool_ok ps buf \<longleftrightarrow>
     separate (ps_store ps) (mset (map snd buf) + mset (ps_pool ps)) \<and> (\<forall>s \<in> set (ps_pool ps). sl_len s = 0)"

lemma opentsdb_one_tags:
  assumes "store_ok (ps_store ps)" and "MetricPool_Get pick ps = (old, ps1)" and "slice_ok (ps_store ps) old"
    and "opentsdb_one grow org pick ts ps = (m, ps')"
  shows "store_ok (ps_store ps') \<and> slice_ok (ps_store ps') (snd m) \<and> ps_pool ps' = ps_pool ps1 \<and>
    touches (ps_store ps) (sl_arr old) (ps_store ps') (sl_arr (snd m)) \<and>
    view (ps_store ps') m = SetId ((gauge org (ot_Metric ts) (ot_Value ts) (ot_Timestamp ts))
      \<lparr>md_Tags := slice_list (ps_store ps) old @ map tag_string (ot_Tags ts)\<rparr>)"
proof -
  have store: "ps_store ps1 = ps_store ps" using MetricPool_Get_store [of pick ps] assms(2) by simp
  obtain tags h where tags: "FormatTags grow (ot_Tags ts) (old, ps_store ps) = (tags, h)" by fastforce
  note t = FormatTags_spec [OF assms(1,3) tags]
  obtain m' h' where sid: "set_id (gauge org (ot_Metric ts) (ot_Value ts) (ot_Timestamp ts)) tags h = (m', h')"
    by fastforce
  have run: "m = m'" "ps' = ps1\<lparr>ps_store := h'\<rparr>"
    using assms(4) tags sid by (simp_all add: opentsdb_one_def assms(2) store)
  show ?thesis
    using set_id_spec [OF _ _ sid] t touches_trans [of "ps_store ps" "sl_arr old" h "sl_arr tags" h' "sl_arr tags"] run
    by auto
qed

lemma opentsdb_one_spec:
  assumes "pool_ok ps buf" and "opentsdb_one grow org pick ts ps = (m, ps')"
  shows "pool_ok ps' (buf @ [m]) \<and> view (ps_store ps') m = opentsdb_metric org ts \<and>
    map (view (ps_store ps')) buf = map (view (ps_store ps)) buf"
proof -
  obtain old ps1 where get: "MetricPool_Get pick ps = (old, ps1)" by fastforce
  have store: "ps_store ps1 = ps_store ps" using MetricPool_Get_store [of pick ps] get by simp
  let ?S = "mset (map snd buf) + mset (ps_pool ps1)"
  have sep: "separate (ps_store ps) (add_mset old ?S)" and sub: "set (ps_pool ps1) \<subseteq> set (ps_pool ps)"
    using MetricPool_Get_separate [OF _ get, of "mset (map snd buf)"] assms(1) by (simp_all add: pool_ok_def store)
  have old: "sl_len old = 0"
  proof (cases "old = nil_slice")
    case False
    then have "old \<in># mset (ps_pool ps)" using MetricPool_Get_cases [OF get] by (metis union_single_eq_member add_mset_add_single)
    then show ?thesis using assms(1) by (simp add: pool_ok_def)
  qed (simp add: nil_slice_def)
  note ok = separate_store_ok [OF sep] separate_slice_ok [OF sep, of old, simplified]
  note one = opentsdb_one_tags [OF ok(1) get ok(2) assms(2)]
  have sep': "separate (ps_store ps') (add_mset (snd m) ?S)"
    and kept: "\<forall>t \<in># ?S. slice_list (ps_store ps') t = slice_list (ps_store ps) t"
    using separate_replace [OF sep, of "ps_store ps'" "snd m"] one by auto
  have "pool_ok ps' (buf @ [m])"
    using sep' one sub assms(1) unfolding pool_ok_def by (auto simp: add_mset_commute)
  moreover have "map (view (ps_store ps')) buf = map (view (ps_store ps)) buf"
    using kept by (auto simp: view_def)
  ultimately show ?thesis using one old by (simp add: opentsdb_metric_def slice_list_def)
qed

lemma opentsdb_batch_spec:
  "pool_ok ps buf \<Longrightarrow> opentsdb_batch grow org picks req buf ps = (buf', ps') \<Longrightarrow>
   pool_ok ps' buf' \<and>
   map (view (ps_store ps')) buf' = map (view (ps_store ps)) buf @ map (opentsdb_metric org) req"
proof (induction req arbitrary: buf ps)
  case (Cons ts req)
  obtain m ps1 where one: "opentsdb_one grow org (picks (length buf)) ts ps = (m, ps1)" by fastforce
  note spec = opentsdb_one_spec [OF Cons.prems(1) one]
  have "opentsdb_batch grow org picks req (buf @ [m]) ps1 = (buf', ps')" using Cons.prems(2) one by simp
  then show ?case using Cons.IH [of ps1 "buf @ [m]"] spec by simp
qed simp

lemma put_back_truncated:
  "ps_pool (fold (\<lambda>m. MetricPool_Put ((snd m)\<lparr>sl_len := 0\<rparr>)) buf ps) =
     ps_pool ps @ map (\<lambda>m. (snd m)\<lparr>sl_len := 0\<rparr>) buf"
  "ps_store (fold (\<lambda>m. MetricPool_Put ((snd m)\<lparr>sl_len := 0\<rparr>)) buf ps) = ps_store ps"
  by (induction buf arbitrary: ps) (simp_all add: MetricPool_Put_def)

lemma put_back_whole:
  "ps_pool (fold (\<lambda>m. MetricPool_Put (snd m)) buf ps) = ps_pool ps @ map snd buf"
  "ps_store (fold (\<lambda>m. MetricPool_Put (snd m)) buf ps) = ps_store ps"
  by (induction buf arbitrary: ps) (simp_all add: MetricPool_Put_def)

lemma separate_truncated:
  assumes "separate h (image_mset snd B + P)"
  shows "separate h (image_mset (\<lambda>m. (snd m)\<lparr>sl_len := 0\<rparr>) B + P)"
proof -
  have "size (filter_mset (\<lambda>s. sl_arr s = a) (image_mset (\<lambda>m. (snd m)\<lparr>sl_len := 0\<rparr>) B)) =
      size (filter_mset (\<lambda>s. sl_arr s = a) (image_mset snd B))" for a
    by (induction B) simp_all
  moreover have "slice_ok h ((snd m)\<lparr>sl_len := 0\<rparr>)" if "m \<in># B" for m
    using assms that by (force simp: separate_def slice_ok_def)
  ultimately show ?thesis using assms by (auto simp: separate_def)
qed

section \<open>The batch of a Prometheus request\<close>

lemma SetId_tags_cong: "mset ts = mset ts' \<Longrightarrow> SetId (m\<lparr>md_Tags := ts\<rparr>) = SetId (m\<lparr>md_Tags := ts'\<rparr>)"
  using sort_cong_mset [of ts ts'] by (simp add: SetId_def id_buffer_def)

definition series_name :: "TimeSeries \<Rightarrow> string" where
  "series_name ts = last_name (se_Labels ts) []"

definition sample_gauge :: "int \<Rightarrow> string \<Rightarrow> string list \<Rightarrow> Sample \<Rightarrow> MetricData" where
  "sample_gauge org name tags sa = SetId ((gauge org name (sa_Value sa) (sa_Timestamp sa sdiv 1000))\<lparr>md_Tags := tags\<rparr>)"

definition prom_metrics :: "int \<Rightarrow> TimeSeries \<Rightarrow> MetricData list" where
  "prom_metrics org ts =
     map (sample_gauge org (series_name ts) (map tag_string (other_labels (se_Labels ts)))) (se_Samples ts)"

text \<open>
  The metrics of one series share their tag slice. A metric of the batch is safe from the next sort of
  \<open>tagSet\<close> when it is on that slice and the slice is sorted, or on another array.
\<close>

definition samples_ok :: "string store \<Rightarrow> slice \<Rightarrow> pooled list \<Rightarrow> bool" where
  "samples_ok h tagSet buf \<longleftrightarrow> store_ok h \<and> slice_ok h tagSet \<and>
     (\<forall>b \<in> set buf. slice_ok h (snd b) \<and>
        (snd b = tagSet \<and> sorted (slice_list h tagSet) \<or> sl_arr (snd b) \<noteq> sl_arr tagSet \<or> sl_arr (snd b) = 0))"

lemma samples_ok_set_id:
  assumes "samples_ok h tagSet buf" and "set_id md tagSet h = (m, h')"
  shows "samples_ok h' tagSet (buf @ [m]) \<and> map (view h') buf = map (view h) buf"
proof -
  have ok: "store_ok h" "slice_ok h tagSet" using assms(1) by (simp_all add: samples_ok_def)
  note sid = set_id_spec [OF ok assms(2)]
  have kept: "slice_ok h' (snd b) \<and> slice_list h' (snd b) = slice_list h (snd b)" if "b \<in> set buf" for b
  proof (cases "snd b = tagSet \<and> sorted (slice_list h tagSet)")
    case True
    then show ?thesis using sid by (simp add: sorted_sort_id)
  next
    case False
    then have "slice_ok h (snd b)" "sl_arr (snd b) \<noteq> sl_arr tagSet \<or> sl_arr (snd b) = 0"
      using assms(1) that by (auto simp: samples_ok_def)
    then show ?thesis using slice_kept sid ok by blast
  qed
  then have "samples_ok h' tagSet (buf @ [m])"
    using assms(1) sid unfolding samples_ok_def by auto
  moreover have "map (view h') buf = map (view h) buf" using kept by (simp add: view_def)
  ultimately show ?thesis by simp
qed

lemma add_samples_spec:
  "samples_ok (ps_store ps) tagSet buf \<Longrightarrow> mset (slice_list (ps_store ps) tagSet) = mset tags \<Longrightarrow>
   add_samples org picks name tagSet samples buf ps = (buf', ps') \<Longrightarrow>
   samples_ok (ps_store ps') tagSet buf' \<and>
   map (view (ps_store ps')) buf' = map (view (ps_store ps)) buf @ map (sample_gauge org name tags) samples"
proof (induction samples arbitrary: buf ps)
  case (Cons sa samples)
  obtain old ps1 where get: "MetricPool_Get (picks (length buf)) ps = (old, ps1)" by fastforce
  have store: "ps_store ps1 = ps_store ps" using MetricPool_Get_store [of "picks (length buf)" ps] get by simp
  let ?md = "gauge org name (sa_Value sa) (sa_Timestamp sa sdiv 1000)"
  obtain m h where sid: "set_id ?md tagSet (ps_store ps) = (m, h)" by fastforce
  have ok: "store_ok (ps_store ps)" "slice_ok (ps_store ps) tagSet" using Cons.prems(1) by (simp_all add: samples_ok_def)
  note spec = set_id_spec [OF ok sid] and keep = samples_ok_set_id [OF Cons.prems(1) sid]
  have "view h m = sample_gauge org name tags sa"
    using spec SetId_tags_cong [OF Cons.prems(2), of ?md] by (simp add: sample_gauge_def)
  moreover have "add_samples org picks name tagSet samples (buf @ [m]) (ps1\<lparr>ps_store := h\<rparr>) = (buf', ps')"
    using Cons.prems(3) get sid by (simp add: store)
  ultimately show ?case
    using Cons.IH [of "ps1\<lparr>ps_store := h\<rparr>" "buf @ [m]"] keep spec Cons.prems(2) by simp
qed simp

lemma series_start:
  assumes "store_ok h" and "\<forall>b \<in> set buf. slice_ok h (snd b)" and "FormatTags grow tvs (nil_slice, h) = (tagSet, h')"
  shows "samples_ok h' tagSet buf \<and> slice_list h' tagSet = map tag_string tvs \<and> map (view h') buf = map (view h) buf"
proof -
  note t = FormatTags_spec [OF assms(1) slice_ok_nil [OF assms(1)] assms(3)]
  have kept: "slice_ok h' (snd b) \<and> slice_list h' (snd b) = slice_list h (snd b) \<and>
      (sl_arr (snd b) \<noteq> sl_arr tagSet \<or> sl_arr (snd b) = 0)" if "b \<in> set buf" for b
  proof -
    have b: "slice_ok h (snd b)" using assms(2) that by blast
    have "sl_arr (snd b) \<noteq> sl_arr tagSet \<or> sl_arr (snd b) = 0"
      using t b by (auto simp: touches_def slice_ok_def nil_slice_def)
    then show ?thesis using slice_kept [of h "sl_arr nil_slice" h' "sl_arr tagSet" "snd b"] t b assms(1)
      by (auto simp: nil_slice_def)
  qed
  then show ?thesis using t by (auto simp: samples_ok_def view_def)
qed

lemma prom_batch_spec:
  "store_ok (ps_store ps) \<Longrightarrow> \<forall>b \<in> set buf. slice_ok (ps_store ps) (snd b) \<Longrightarrow>
   prom_batch grow org picks req buf ps = (res, ps') \<Longrightarrow>
   (case res of
      None \<Rightarrow> \<exists>ts \<in> set req. series_name ts = []
    | Some buf' \<Rightarrow> (\<forall>ts \<in> set req. series_name ts \<noteq> []) \<and> store_ok (ps_store ps') \<and>
        (\<forall>b \<in> set buf'. slice_ok (ps_store ps') (snd b)) \<and>
        map (view (ps_store ps')) buf' = map (view (ps_store ps)) buf @ concat (map (prom_metrics org) req))"
proof (induction req arbitrary: buf ps)
  case (Cons ts req)
  obtain tagSet h where tags: "FormatTags grow (other_labels (se_Labels ts)) (nil_slice, ps_store ps) = (tagSet, h)"
    by fastforce
  note start = series_start [OF Cons.prems(1,2) tags]
  show ?case
  proof (cases "series_name ts = []")
    case True
    then show ?thesis
      using Cons.prems(3) tags by (auto simp: read_labels_FormatTags series_name_def)
  next
    case False
    obtain buf1 ps1 where add: "add_samples org picks (series_name ts) tagSet (se_Samples ts) buf (ps\<lparr>ps_store := h\<rparr>) = (buf1, ps1)"
      by fastforce
    have spec: "samples_ok (ps_store ps1) tagSet buf1"
      "map (view (ps_store ps1)) buf1 = map (view (ps_store ps)) buf @ prom_metrics org ts"
      using add_samples_spec [OF _ _ add, of "map tag_string (other_labels (se_Labels ts))"] start
      by (simp_all add: prom_metrics_def)
    have "prom_batch grow org picks req buf1 ps1 = (res, ps')"
      using Cons.prems(3) tags add False by (simp add: read_labels_FormatTags series_name_def)
    then show ?thesis
      using Cons.IH [of ps1 buf1] spec False by (auto simp: samples_ok_def split: option.splits)
  qed
qed auto

lemma with_pool_Returns: "with_pool ps x = Returns (r, ps', w) \<Longrightarrow> ps' = ps"
  by (cases x) (auto simp: with_pool_def split: prod.splits)

lemma prom_served:
  assumes "store_ok (ps_store ps)" and "wr_hasBody rq"
    and "Option.bind (Option.bind (wr_read rq) unsnappy) unmarshal = Some req"
    and "\<forall>ts \<in> set req. series_name ts \<noteq> []"
  shows "\<exists>buf psb. PrometheusMTWrite pub orgs grow picks unsnappy unmarshal ctx rq ps w =
      with_pool (fold (\<lambda>m. MetricPool_Put (snd m)) buf psb)
        (write_reply pub orgs (concat (map (prom_metrics (cx_ID ctx)) req)) w) \<and>
    store_ok (ps_store psb) \<and> (\<forall>b \<in> set buf. slice_ok (ps_store psb) (snd b)) \<and>
    map (view (ps_store psb)) buf = concat (map (prom_metrics (cx_ID ctx)) req)"
proof -
  obtain res psb where batch: "prom_batch grow (cx_ID ctx) picks req [] ps = (res, psb)" by fastforce
  note spec = prom_batch_spec [OF assms(1) _ batch]
  show ?thesis
  proof (cases res)
    case None
    then show ?thesis using spec assms(4) by auto
  next
    case (Some buf)
    then have "PrometheusMTWrite pub orgs grow picks unsnappy unmarshal ctx rq ps w =
        with_pool (fold (\<lambda>m. MetricPool_Put (snd m)) buf psb)
          (write_reply pub orgs (concat (map (prom_metrics (cx_ID ctx)) req)) w)"
      using spec assms(2,3) batch by (simp add: PrometheusMTWrite_def)
    then show ?thesis using spec Some by auto
  qed
qed

section \<open>Properties\<close>

text \<open>
  C24. An OpenTSDB request whose body decodes publishes exactly its entries: when the pooled metrics have no
  tags and do not share arrays, as in an empty pool and after such requests, but not after a Prometheus request, the batch has one metric per entry, in order, with the organisation of the
  user, the entry's own tags and an identifier computed from them, whichever pooled metrics the request is
  given; and the pool is in that state again afterwards.
\<close>

theorem opentsdb_write_publishes_entries:
  assumes "pool_ok ps []" and "wr_hasBody rq"
    and "Option.bind (if wr_gzip rq then Option.bind (wr_read rq) gunzip else wr_read rq) unmarshal = Some req"
  shows "\<exists>ps'. OpenTSDBWrite pub orgs grow picks gunzip unmarshal ctx rq ps w =
      with_pool ps' (write_reply pub orgs (map (opentsdb_metric (cx_ID ctx)) req) w) \<and> pool_ok ps' []"
proof -
  obtain buf ps1 where batch: "opentsdb_batch grow (cx_ID ctx) picks req [] ps = (buf, ps1)" by fastforce
  note spec = opentsdb_batch_spec [OF assms(1) batch]
  let ?ps = "fold (\<lambda>m. MetricPool_Put ((snd m)\<lparr>sl_len := 0\<rparr>)) buf ps1"
  have "pool_ok ?ps []"
    using spec separate_truncated [of "ps_store ps1" "mset buf" "mset (ps_pool ps1)"]
    by (auto simp: pool_ok_def put_back_truncated add.commute)
  moreover have "OpenTSDBWrite pub orgs grow picks gunzip unmarshal ctx rq ps w =
      with_pool ?ps (write_reply pub orgs (map (opentsdb_metric (cx_ID ctx)) req) w)"
    using assms(2,3) batch spec by (auto simp: OpenTSDBWrite_def bind_eq_Some_conv)
  ultimately show ?thesis by blast
qed

definition sample_put :: OpenTSDBMetric where
  "sample_put = \<lparr>ot_Metric = ''m'', ot_Timestamp = 9, ot_Value = 1, ot_Tags = [(''host'', ''a'')]\<rparr>"

definition empty_pool :: pool_state where
  "empty_pool = \<lparr>ps_store = init_store, ps_pool = []\<rparr>"

lemma pool_ok_empty [simp]: "pool_ok empty_pool []"
  by (simp add: pool_ok_def empty_pool_def separate_def)

theorem opentsdb_write_publishes_entries_witness:
  "\<exists>ps'. OpenTSDBWrite nullPublisher_Publish (\<lambda>ms. [3]) (\<lambda>n. n) (\<lambda>i. None) (\<lambda>b. None) (\<lambda>b. Some [sample_put])
      \<lparr>cx_ID = 3, cx_IsAdmin = False\<rparr> \<lparr>wr_hasBody = True, wr_gzip = False, wr_read = Some []\<rparr> empty_pool sample_world =
      with_pool ps' (write_reply nullPublisher_Publish (\<lambda>ms. [3]) [opentsdb_metric 3 sample_put] sample_world) \<and>
    pool_ok ps' []"
  using opentsdb_write_publishes_entries [of empty_pool "\<lparr>wr_hasBody = True, wr_gzip = False, wr_read = Some []\<rparr>"
      "\<lambda>b. None" "\<lambda>b. Some [sample_put]" "[sample_put]" nullPublisher_Publish "\<lambda>ms. [3]" "\<lambda>n. n" "\<lambda>i. None"
      "\<lparr>cx_ID = 3, cx_IsAdmin = False\<rparr>" sample_world]
  by simp

text \<open>
  A Prometheus request whose body decodes: if a series has no name (the last \<^verbatim>\<open>__name__\<close> label is empty or
  missing) it is answered with 400 and nothing is published, whatever came before that series; otherwise
  the batch has one metric per sample, in order, with the organisation of the user, the other labels as
  tags, the time in seconds and an identifier computed from them. The metrics of a series share their
  tags, which are sorted once per sample.
\<close>

theorem prometheus_write_publishes_samples:
  assumes "store_ok (ps_store ps)" and "wr_hasBody rq"
    and "Option.bind (Option.bind (wr_read rq) unsnappy) unmarshal = Some req"
  shows "\<exists>ps'. PrometheusMTWrite pub orgs grow picks unsnappy unmarshal ctx rq ps w =
      (if \<exists>ts \<in> set req. series_name ts = []
       then Returns (\<lparr>rp_status = 400, rp_body = Text ''invalid metric received: __name__ label can not equal \"\"''\<rparr>, ps', w)
       else with_pool ps' (write_reply pub orgs (concat (map (prom_metrics (cx_ID ctx)) req)) w))"
proof (cases "\<exists>ts \<in> set req. series_name ts = []")
  case True
  obtain res ps1 where batch: "prom_batch grow (cx_ID ctx) picks req [] ps = (res, ps1)" by fastforce
  then have "res = None" using prom_batch_spec [OF assms(1) _ batch] True by (cases res) auto
  then show ?thesis using True assms(2,3) batch by (auto simp: PrometheusMTWrite_def)
next
  case False
  then show ?thesis using prom_served [OF assms, of pub orgs grow picks ctx w] by auto
qed

definition sample_series :: TimeSeries where
  "sample_series = \<lparr>se_Labels = [(''__name__'', ''up''), (''job'', ''x'')],
     se_Samples = [\<lparr>sa_Value = 1, sa_Timestamp = 5000\<rparr>]\<rparr>"

theorem prometheus_write_publishes_samples_witness:
  "\<exists>ps'. PrometheusMTWrite nullPublisher_Publish (\<lambda>ms. [3]) (\<lambda>n. n) (\<lambda>i. None) Some (\<lambda>b. Some [sample_series])
      \<lparr>cx_ID = 3, cx_IsAdmin = False\<rparr> \<lparr>wr_hasBody = True, wr_gzip = False, wr_read = Some []\<rparr> empty_pool sample_world =
      with_pool ps' (write_reply nullPublisher_Publish (\<lambda>ms. [3]) (prom_metrics 3 sample_series) sample_world)"
  using prometheus_write_publishes_samples [of empty_pool "\<lparr>wr_hasBody = True, wr_gzip = False, wr_read = Some []\<rparr>"
      Some "\<lambda>b. Some [sample_series]" "[sample_series]" nullPublisher_Publish "\<lambda>ms. [3]" "\<lambda>n. n" "\<lambda>i. None"
      "\<lparr>cx_ID = 3, cx_IsAdmin = False\<rparr>" sample_world]
  by (simp add: empty_pool_def sample_series_def series_name_def last_name_def)

text \<open>
  C25. Labels can cross tenants: a Prometheus request that has been served leaves its metrics in the pool with
  their labels. Whichever of its metrics an OpenTSDB request of one entry, of any other organisation, is then
  given by the pool, the metric that it publishes for that organisation carries all of those labels beside the tags of the entry.
\<close>

theorem prometheus_labels_reach_opentsdb:
  assumes "store_ok (ps_store ps)" and "wr_hasBody rq"
    and "Option.bind (Option.bind (wr_read rq) unsnappy) unmarshal = Some req"
    and "\<forall>ts \<in> set req. series_name ts \<noteq> []"
    and "PrometheusMTWrite pub orgs grow picks unsnappy unmarshal ctx rq ps w = Returns (r, ps1, w1)"
    and "m \<in> set (concat (map (prom_metrics (cx_ID ctx)) req))"
  shows "\<exists>i. \<forall>picks' gunzip unmarshal' ctx' rq' ts w'.
    picks' 0 = Some i \<and> wr_hasBody rq' \<and>
    Option.bind (if wr_gzip rq' then Option.bind (wr_read rq') gunzip else wr_read rq') unmarshal' = Some [ts] \<longrightarrow>
    (\<exists>md ps2. OpenTSDBWrite pub' orgs' grow picks' gunzip unmarshal' ctx' rq' ps1 w' = with_pool ps2 (write_reply pub' orgs' [md] w') \<and>
       md_OrgId md = cx_ID ctx' \<and> md_Name md = ot_Metric ts \<and>
       mset (md_Tags md) = mset (md_Tags m) + mset (map tag_string (ot_Tags ts)))"
proof -
  obtain buf psb where run: "PrometheusMTWrite pub orgs grow picks unsnappy unmarshal ctx rq ps w =
      with_pool (fold (\<lambda>m. MetricPool_Put (snd m)) buf psb)
        (write_reply pub orgs (concat (map (prom_metrics (cx_ID ctx)) req)) w)"
    and buf: "store_ok (ps_store psb)" "\<forall>b \<in> set buf. slice_ok (ps_store psb) (snd b)"
    "map (view (ps_store psb)) buf = concat (map (prom_metrics (cx_ID ctx)) req)"
    using prom_served [OF assms(1-4)] by blast
  have ps1: "ps1 = fold (\<lambda>m. MetricPool_Put (snd m)) buf psb"
    using with_pool_Returns [OF run [unfolded assms(5), symmetric]] .
  obtain j where j: "j < length buf" "m = view (ps_store psb) (buf ! j)"
    using assms(6) unfolding buf(3) [symmetric] by (auto simp: in_set_conv_nth)
  let ?i = "length (ps_pool psb) + j"
  have pool: "?i < length (ps_pool ps1)" "ps_pool ps1 ! ?i = snd (buf ! j)" "ps_store ps1 = ps_store psb"
    using j(1) by (simp_all add: ps1 put_back_whole)
  have tags: "slice_list (ps_store ps1) (snd (buf ! j)) = md_Tags m" by (simp add: j(2) view_def pool(3))
  obtain psg where get: "MetricPool_Get (Some ?i) ps1 = (snd (buf ! j), psg)"
    using pool by (simp add: MetricPool_Get_def)
  have ok: "store_ok (ps_store ps1)" "slice_ok (ps_store ps1) (snd (buf ! j))" using buf(1,2) j(1) pool(3) by simp_all
  have "\<exists>md ps2. OpenTSDBWrite pub' orgs' grow picks' gunzip unmarshal' ctx' rq' ps1 w' = with_pool ps2 (write_reply pub' orgs' [md] w') \<and>
       md_OrgId md = cx_ID ctx' \<and> md_Name md = ot_Metric ts \<and>
       mset (md_Tags md) = mset (md_Tags m) + mset (map tag_string (ot_Tags ts))"
    if "picks' 0 = Some ?i" "wr_hasBody rq'"
      "Option.bind (if wr_gzip rq' then Option.bind (wr_read rq') gunzip else wr_read rq') unmarshal' = Some [ts]"
    for picks' gunzip unmarshal' ctx' rq' ts w'
  proof -
    obtain x ps2 where one: "opentsdb_one grow (cx_ID ctx') (Some ?i) ts ps1 = (x, ps2)" by fastforce
    have view: "view (ps_store ps2) x = SetId ((gauge (cx_ID ctx') (ot_Metric ts) (ot_Value ts) (ot_Timestamp ts))
        \<lparr>md_Tags := md_Tags m @ map tag_string (ot_Tags ts)\<rparr>)"
      using opentsdb_one_tags [OF ok(1) get ok(2) one] by (simp add: tags)
    have "opentsdb_batch grow (cx_ID ctx') picks' [ts] [] ps1 = ([x], ps2)" by (simp add: that(1) one)
    then have "OpenTSDBWrite pub' orgs' grow picks' gunzip unmarshal' ctx' rq' ps1 w' =
        with_pool (MetricPool_Put ((snd x)\<lparr>sl_len := 0\<rparr>) ps2) (write_reply pub' orgs' [view (ps_store ps2) x] w')"
      using that(2,3) by (auto simp: OpenTSDBWrite_def bind_eq_Some_conv)
    then show ?thesis
      by (intro exI [of _ "view (ps_store ps2) x"] exI [of _ "MetricPool_Put ((snd x)\<lparr>sl_len := 0\<rparr>) ps2"]) (simp add: view gauge_def)
  qed
  then show ?thesis by blast
qed

theorem prometheus_labels_reach_opentsdb_witness:
  "\<exists>r ps1 w1 i md ps2. PrometheusMTWrite nullPublisher_Publish (\<lambda>ms. [3]) (\<lambda>n. n) (\<lambda>i. None) Some (\<lambda>b. Some [sample_series])
      \<lparr>cx_ID = 3, cx_IsAdmin = False\<rparr> \<lparr>wr_hasBody = True, wr_gzip = False, wr_read = Some []\<rparr> empty_pool sample_world =
      Returns (r, ps1, w1) \<and>
    OpenTSDBWrite nullPublisher_Publish (\<lambda>ms. [8]) (\<lambda>n. n) (\<lambda>_. Some i) Some (\<lambda>b. Some [sample_put])
      \<lparr>cx_ID = 8, cx_IsAdmin = False\<rparr> \<lparr>wr_hasBody = True, wr_gzip = False, wr_read = Some []\<rparr> ps1 w1 =
      with_pool ps2 (write_reply nullPublisher_Publish (\<lambda>ms. [8]) [md] w1) \<and>
    md_OrgId md = 8 \<and> mset (md_Tags md) = {#''job=x'', ''host=a''#}"
proof -
  let ?rq = "\<lparr>wr_hasBody = True, wr_gzip = False, wr_read = Some []\<rparr>"
  let ?run = "PrometheusMTWrite nullPublisher_Publish (\<lambda>ms. [3]) (\<lambda>n. n) (\<lambda>i. None) Some (\<lambda>b. Some [sample_series])
      \<lparr>cx_ID = 3, cx_IsAdmin = False\<rparr> ?rq empty_pool sample_world"
  let ?m = "sample_gauge 3 ''up'' [''job=x''] \<lparr>sa_Value = 1, sa_Timestamp = 5000\<rparr>"
  have one: "prom_metrics 3 sample_series = [?m]"
    by (simp add: prom_metrics_def sample_series_def series_name_def last_name_def other_labels_def tag_string_def)
  have named: "series_name sample_series \<noteq> []" by (simp add: sample_series_def series_name_def last_name_def)
  have store: "store_ok (ps_store empty_pool)" by (simp add: empty_pool_def)
  have reply: "write_reply nullPublisher_Publish (\<lambda>ms. [3]) [?m] sample_world =
      Returns (\<lparr>rp_status = 200, rp_body = Text ''ok''\<rparr>, sample_world\<lparr>wo_counters := (\<lambda>_. 0)(itoa 3 := 1)\<rparr>)"
    by (simp add: write_reply_def gate_Publish_def nullPublisher_Publish_def org_counts_def counter_add_def
        sample_gauge_def gauge_def sample_world_def int32_of_def)
  define w1 where "w1 = sample_world\<lparr>wo_counters := (\<lambda>_. 0)(itoa 3 := 1)\<rparr>"
  obtain ps1 where run: "?run = Returns (\<lparr>rp_status = 200, rp_body = Text ''ok''\<rparr>, ps1, w1)"
    using prom_served [OF store, of ?rq Some
        "\<lambda>b. Some [sample_series]" "[sample_series]" nullPublisher_Publish "\<lambda>ms. [3]" "\<lambda>n. n" "\<lambda>i. None"
        "\<lparr>cx_ID = 3, cx_IsAdmin = False\<rparr>" sample_world] named one reply
    by (auto simp: with_pool_def w1_def)
  obtain i where i: "\<forall>picks' gunzip unmarshal' ctx' rq' ts (w' :: unit world).
    picks' 0 = Some i \<and> wr_hasBody rq' \<and>
    Option.bind (if wr_gzip rq' then Option.bind (wr_read rq') gunzip else wr_read rq') unmarshal' = Some [ts] \<longrightarrow>
    (\<exists>md ps2. OpenTSDBWrite nullPublisher_Publish (\<lambda>ms. [8]) (\<lambda>n. n) picks' gunzip unmarshal' ctx' rq' ps1 w' =
         with_pool ps2 (write_reply nullPublisher_Publish (\<lambda>ms. [8]) [md] w') \<and>
       md_OrgId md = cx_ID ctx' \<and> md_Name md = ot_Metric ts \<and>
       mset (md_Tags md) = mset (md_Tags ?m) + mset (map tag_string (ot_Tags ts)))"
    using prometheus_labels_reach_opentsdb [OF store _ _ _ run, of "[sample_series]" ?m nullPublisher_Publish "\<lambda>ms. [8]"] named one by auto
  obtain md ps2 where "OpenTSDBWrite nullPublisher_Publish (\<lambda>ms. [8]) (\<lambda>n. n) (\<lambda>_. Some i) Some (\<lambda>b. Some [sample_put])
      \<lparr>cx_ID = 8, cx_IsAdmin = False\<rparr> ?rq ps1 w1 = with_pool ps2 (write_reply nullPublisher_Publish (\<lambda>ms. [8]) [md] w1)"
    "md_OrgId md = 8" "mset (md_Tags md) = mset (md_Tags ?m) + mset (map tag_string (ot_Tags sample_put))"
    using i [rule_format, of "\<lambda>_. Some i" ?rq Some "\<lambda>b. Some [sample_put]" sample_put "\<lparr>cx_ID = 8, cx_IsAdmin = False\<rparr>" w1] by auto
  moreover have "mset (md_Tags ?m) + mset (map tag_string (ot_Tags sample_put)) = {#''job=x'', ''host=a''#}"
    by (simp add: sample_put_def tag_string_def sample_gauge_def add_mset_commute)
  ultimately show ?thesis using run by metis
qed

end
