(* ===== verification/Carbon20.thy ===== *)
theory Carbon20
  imports GoNumeric
begin

text \<open>
  The validation of carbon lines in the vendored \<^verbatim>\<open>go-metrics20/carbon20\<close> (\<^verbatim>\<open>validate.go\<close>, \<^verbatim>\<open>version.go\<close>), which every line
  passes before its key is looked at.

  \<^item> The value of a line and its time are parsed as floats; the parser is an argument. The time is returned before
    its conversion to 32 bits.
  \<^item> An error of the functions is \<^term>\<open>Some\<close> error.
\<close>

section \<open>Characters\<close>

datatype packet_error =
  errWrongNumFields | errValNotNumber | errTsNotTs | errEmptyNode | errEmptyKey | errMixEqualsTypes | errNoUnit | errNoMType
  | errNotEnoughTags | errInvalidTagAppendix | errIllegalChar char | errNullAt | errNonAscii char

datatype ValidationLevelLegacy = StrictLegacy | MediumLegacy | NoneLegacy

datatype ValidationLevelM20 = StrictM20 | MediumM20 | NoneM20

text \<open>\<^verbatim>\<open>bytes.Contains\<close>.\<close>

fun bytes_contains :: "string \<Rightarrow> string \<Rightarrow> bool" where
  "bytes_contains p [] \<longleftrightarrow> p = []"
| "bytes_contains p (c # cs) \<longleftrightarrow> has_prefix p (c # cs) \<or> bytes_contains p cs"

definition sensible_char :: "char \<Rightarrow> bool" where
  "sensible_char c \<longleftrightarrow>
     (CHR ''a'' \<le> c \<and> c \<le> CHR ''z'') \<or> (CHR ''A'' \<le> c \<and> c \<le> CHR ''Z'') \<or> (CHR ''0'' \<le> c \<and> c \<le> CHR ''9'') \<or>
     c \<in> {CHR ''_'', CHR ''-'', CHR ''.''}"

definition validateSensibleCharsB :: "string \<Rightarrow> packet_error option" where
  "validateSensibleCharsB metric_id = map_option errIllegalChar (find (\<lambda>c. \<not> sensible_char c) metric_id)"

definition clean_char :: "char \<Rightarrow> bool" where
  "clean_char c \<longleftrightarrow> 0 < (of_char c :: nat) \<and> (of_char c :: nat) < 128"

definition validateNotNullAsciiChars :: "string \<Rightarrow> packet_error option" where
  "validateNotNullAsciiChars metric_id =
     map_option (\<lambda>c. if of_char c = (0 :: nat) then errNullAt else errNonAscii c) (find (\<lambda>c. \<not> clean_char c) metric_id)"

section \<open>Tags\<close>

text \<open>The loop: a semicolon, a key up to the equals sign, a value up to the next semicolon or the end.\<close>

abbreviation tag_key_char :: "char \<Rightarrow> bool" where
  "tag_key_char c \<equiv> c \<notin> {CHR ''='', CHR '';'', CHR ''!''}"

abbreviation tag_val_char :: "char \<Rightarrow> bool" where
  "tag_val_char c \<equiv> c \<notin> {CHR ''='', CHR '';''}"

function ValidateTagAppendixB :: "string \<Rightarrow> packet_error option" where
  "ValidateTagAppendixB tags =
     (if length tags < 4 \<or> tags ! 0 \<noteq> CHR '';'' \<or> tags ! 1 = CHR ''='' then Some errInvalidTagAppendix
      else
        let after_key = dropWhile tag_key_char (tl tags)
        in if after_key = [] \<or> hd after_key \<noteq> CHR ''='' then Some errInvalidTagAppendix
           else
             let val = tl after_key
             in if val = [] \<or> hd val = CHR '';'' then Some errInvalidTagAppendix
                else
                  let after_val = dropWhile tag_val_char val
                  in if after_val = [] then None
                     else if hd after_val = CHR ''='' then Some errInvalidTagAppendix
                     else ValidateTagAppendixB after_val)"
  by pat_completeness auto

termination
proof (relation "measure length", goal_cases)
  case (2 tags after_key val after_val)
  have "length after_val \<le> length val" "length after_key \<le> length (tl tags)"
    using 2 length_dropWhile_le by (auto simp del: length_tl)
  moreover have "length val < length after_key" using 2 by (cases after_key) auto
  moreover have "length (tl tags) \<le> length tags" by simp
  ultimately show ?case by simp
qed simp

declare ValidateTagAppendixB.simps [simp del]

section \<open>Keys\<close>

definition ValidateKeyLegacyB :: "string \<Rightarrow> ValidationLevelLegacy \<Rightarrow> packet_error option" where
  "ValidateKeyLegacyB metric_id level =
     (if level = NoneLegacy then None
      else
        let key = takeWhile (\<lambda>c. c \<noteq> CHR '';'') metric_id;
            appendix = dropWhile (\<lambda>c. c \<noteq> CHR '';'') metric_id
        in if appendix \<noteq> [] \<and> key = [] then Some errEmptyKey
           else
             case (if appendix = [] then None else ValidateTagAppendixB appendix) of
               Some e \<Rightarrow> Some e
             | None \<Rightarrow>
                 if level = StrictLegacy \<and> bytes_contains ''..'' key then Some errEmptyNode
                 else
                   case (if level = StrictLegacy then validateSensibleCharsB key else None) of
                     Some e \<Rightarrow> Some e
                   | None \<Rightarrow> validateNotNullAsciiChars metric_id)"

text \<open>The two metrics 2.0 validations, which differ in the separator of a tag.\<close>

definition validate_key_m20 :: "string \<Rightarrow> string \<Rightarrow> string \<Rightarrow> ValidationLevelM20 \<Rightarrow> packet_error option" where
  "validate_key_m20 other sep metric_id level =
     (if level = NoneM20 then None
      else if bytes_contains other metric_id then Some errMixEqualsTypes
      else if \<not> has_prefix (''unit'' @ sep) metric_id \<and> \<not> bytes_contains (''.unit'' @ sep) metric_id then Some errNoUnit
      else if \<not> has_prefix (''mtype'' @ sep) metric_id \<and> \<not> bytes_contains (''.mtype'' @ sep) metric_id then Some errNoMType
      else if count_list metric_id CHR ''.'' < 2 then Some errNotEnoughTags
      else None)"

definition ValidateKeyM20B :: "string \<Rightarrow> ValidationLevelM20 \<Rightarrow> packet_error option" where
  "ValidateKeyM20B = validate_key_m20 ''_is_'' ''=''"

definition ValidateKeyM20NoEqualsB :: "string \<Rightarrow> ValidationLevelM20 \<Rightarrow> packet_error option" where
  "ValidateKeyM20NoEqualsB = validate_key_m20 ''='' ''_is_''"

section \<open>Packets\<close>

datatype metricVersion = Legacy | M20 | M20NoEquals

fun GetVersionB :: "string \<Rightarrow> metricVersion" where
  "GetVersionB [] = Legacy"
| "GetVersionB (c # cs) =
     (if c = CHR ''='' then M20
      else if c = CHR ''_'' then (if has_prefix ''is_'' cs then M20NoEquals else GetVersionB cs)
      else if c = CHR ''.'' then Legacy
      else GetVersionB cs)"

definition ValidatePacket ::
  "(string \<Rightarrow> float64 option) \<Rightarrow> string \<Rightarrow> ValidationLevelLegacy \<Rightarrow> ValidationLevelM20
    \<Rightarrow> packet_error + string \<times> float64 \<times> float64" where
  "ValidatePacket parseFloat buf levelLegacy levelM20 =
     (let parts = GwPrelude.fields buf
      in if length parts \<noteq> 3 then Inl errWrongNumFields
         else
           let version = GetVersionB (parts ! 0);
               key = (if parts ! 0 \<noteq> [] \<and> hd (parts ! 0) = CHR ''.'' then tl (parts ! 0) else parts ! 0)
           in case (case version of
                      Legacy \<Rightarrow> ValidateKeyLegacyB key levelLegacy
                    | M20 \<Rightarrow> ValidateKeyM20B key levelM20
                    | M20NoEquals \<Rightarrow> ValidateKeyM20NoEqualsB key levelM20) of
                Some e \<Rightarrow> Inl e
              | None \<Rightarrow>
                  (case parseFloat (parts ! 1) of
                     None \<Rightarrow> Inl errValNotNumber
                   | Some val \<Rightarrow>
                       (case parseFloat (parts ! 2) of None \<Rightarrow> Inl errTsNotTs | Some ts \<Rightarrow> Inr (key, val, ts))))"

section \<open>What is validated\<close>

lemma ValidatePacket_fields: "ValidatePacket parseFloat buf l m = Inr r \<Longrightarrow> length (GwPrelude.fields buf) = 3"
  by (auto simp: ValidatePacket_def Let_def split: if_splits)

lemma find_None_all: "find P xs = None \<longleftrightarrow> list_all (\<lambda>x. \<not> P x) xs"
  by (auto simp: find_None_iff list_all_iff)

text \<open>A key that passes the medium level is clean, and its tags are well-formed.\<close>

lemma ValidateKeyLegacyB_clean:
  assumes "ValidateKeyLegacyB key MediumLegacy = None"
  shows "list_all clean_char key"
    and "CHR '';'' \<in> set key \<Longrightarrow> ValidateTagAppendixB (dropWhile (\<lambda>c. c \<noteq> CHR '';'') key) = None"
  using assms
  by (auto simp: ValidateKeyLegacyB_def Let_def validateNotNullAsciiChars_def find_None_all dropWhile_eq_Nil_conv
      split: if_splits option.splits)

text \<open>
  A key with an equals sign before its first dot, as the keys of grafana.com may have, is taken for a metrics 2.0 key;
  the level that the gateway asks for then checks nothing.
\<close>

lemma GetVersionB_equals:
  "CHR ''='' \<in> set key \<Longrightarrow> CHR ''.'' \<notin> set key \<Longrightarrow> GetVersionB (key @ rest) \<noteq> Legacy"
  by (induction key) auto

lemma equals_skips_validation:
  assumes "CHR ''='' \<in> set key" and "CHR ''.'' \<notin> set key" and "GwPrelude.fields buf = [key @ rest, v, t]"
    and "parseFloat v = Some val" and "parseFloat t = Some ts"
  shows "ValidatePacket parseFloat buf MediumLegacy NoneM20 = Inr (key @ rest, val, ts)"
proof -
  have "key @ rest \<noteq> [] \<and> hd (key @ rest) \<noteq> CHR ''.''" using assms(1,2) by (cases key) auto
  then show ?thesis
    using assms GetVersionB_equals [OF assms(1,2), of rest]
    by (cases "GetVersionB (key @ rest)")
      (simp_all add: ValidatePacket_def ValidateKeyM20B_def ValidateKeyM20NoEqualsB_def validate_key_m20_def)
qed

end
