(* ===== verification/AuthPlugins.thy ===== *)
theory AuthPlugins
  imports Gcom
begin

text \<open>
  The authentication plugins of \<^verbatim>\<open>auth/\<close>: the file plugin and the two grafana.com plugins behind the
  interface \<^verbatim>\<open>AuthPlugin\<close>.

  A plugin returns a pointer to a user, and its callers write through it. Users therefore live in an
  explicit store (\<open>us_heap\<close>); the file plugin keeps pointers in its map, pointer 0 is the package variable
  \<^verbatim>\<open>AdminUser\<close>, and the grafana.com plugins allocate a new user per call. The interface is the locale
  \<open>auth_plugin\<close>: a call leaves the users that exist as they are and returns a pointer that exists.
\<close>

section \<open>Users\<close>

record User =
  us_ID :: int
  us_IsAdmin :: bool
  us_Role :: RoleType

datatype auth_error = ErrInvalidCredentials | ErrInvalidOrgId | ErrInvalidInstanceID | ErrBackend gcom_error

record user_heap =
  hp_users :: "nat \<Rightarrow> User"
  hp_next :: nat

definition AdminUser :: User where
  "AdminUser = \<lparr>us_ID = 1, us_IsAdmin = True, us_Role = ROLE_ADMIN\<rparr>"

definition zero_user :: User where
  "zero_user = \<lparr>us_ID = 0, us_IsAdmin = False, us_Role = []\<rparr>"

definition init_heap :: user_heap where
  "init_heap = \<lparr>hp_users = (\<lambda>_. zero_user)(0 := AdminUser), hp_next = 1\<rparr>"

definition alloc :: "User \<Rightarrow> user_heap \<Rightarrow> nat \<times> user_heap" where
  "alloc u h = (hp_next h, h\<lparr>hp_users := (hp_users h)(hp_next h := u), hp_next := Suc (hp_next h)\<rparr>)"

section \<open>The file plugin\<close>

record FileAuth =
  fa_keys :: "string \<rightharpoonup> nat"
  fa_instanceMap :: "string \<rightharpoonup> int"

text \<open>
  A section of the file as the ini library presents it: its name, the value of a key if it has one, and
  the values of \<^verbatim>\<open>isadmin\<close> and \<^verbatim>\<open>instances\<close> converted by the library.
\<close>

record ini_section =
  sec_Name :: string
  sec_orgId :: "string option"
  sec_isadmin :: "bool option"
  sec_instances :: "string list option"

definition load_section :: "ini_section \<Rightarrow> FileAuth \<times> user_heap \<Rightarrow> FileAuth \<times> user_heap" where
  "load_section sec st =
     (let (a, h) = st
      in if sec_Name sec = [] \<or> sec_Name sec = ''DEFAULT'' then (a, h)
         else
           case sec_orgId sec of
             None \<Rightarrow> (a, h)
           | Some s \<Rightarrow>
               (case atoi s of
                  Inl e \<Rightarrow> (a, h)
                | Inr orgID \<Rightarrow>
                    let isAdmin = (case sec_isadmin sec of None \<Rightarrow> False | Some b \<Rightarrow> b);
                        (p, h) = alloc \<lparr>us_ID = orgID, us_IsAdmin = isAdmin, us_Role = ROLE_ADMIN\<rparr> h;
                        a = a\<lparr>fa_keys := (fa_keys a)(sec_Name sec \<mapsto> p)\<rparr>
                    in case sec_instances sec of
                         None \<Rightarrow> (a, h)
                       | Some instances \<Rightarrow>
                           (a\<lparr>fa_instanceMap := fold (\<lambda>i m. m(i \<mapsto> orgID)) instances (fa_instanceMap a)\<rparr>, h)))"

text \<open>\<^term>\<open>None\<close> is \<^verbatim>\<open>log.Fatalf\<close>: no credentials in the file.\<close>

definition NewFileAuth :: "ini_section list \<Rightarrow> user_heap \<Rightarrow> (FileAuth \<times> user_heap) option" where
  "NewFileAuth secs h =
     (let (a, h) = fold load_section secs (\<lparr>fa_keys = Map.empty, fa_instanceMap = Map.empty\<rparr>, h)
      in if fa_keys a = Map.empty then None else Some (a, h))"

definition FileAuth_Auth :: "string \<Rightarrow> FileAuth \<Rightarrow> string \<Rightarrow> string \<Rightarrow> user_heap \<Rightarrow> auth_error + nat" where
  "FileAuth_Auth adminKey a instanceID password h =
     (if password = adminKey then Inr 0
      else
        case fa_keys a password of
          None \<Rightarrow> Inl ErrInvalidCredentials
        | Some p \<Rightarrow>
            let user = hp_users h p
            in if us_IsAdmin user then Inr p
               else if instanceID \<noteq> ''api_key'' then
                 (case fa_instanceMap a instanceID of
                    None \<Rightarrow> Inl ErrInvalidInstanceID
                  | Some i \<Rightarrow> if i \<noteq> us_ID user then Inl ErrInvalidInstanceID else Inr p)
               else Inr p)"

section \<open>The grafana.com plugins\<close>

record auth_state =
  au_heap :: user_heap
  au_tokens :: TokenCache
  au_instances :: InstanceCache

definition gcom_failure :: "gcom_error \<Rightarrow> auth_error" where
  "gcom_failure e =
     (if e = GInvalidApiKey then ErrInvalidCredentials
      else if e = GInvalidOrgId then ErrInvalidOrgId
      else ErrBackend e)"

definition GrafanaComAuth_Auth ::
  "(string \<Rightarrow> gcom_error + SignedInUser) \<Rightarrow> int \<Rightarrow> string \<Rightarrow> string \<Rightarrow> string \<Rightarrow> auth_state
    \<Rightarrow> (auth_error + nat) \<times> auth_state" where
  "GrafanaComAuth_Auth askToken now adminKey username password s =
     (if username \<noteq> ''api_key'' then (Inl ErrInvalidCredentials, s)
      else
        case gcom_Auth askToken now adminKey password (au_tokens s) of
          (Inl e, c) \<Rightarrow> (Inl (gcom_failure e), s\<lparr>au_tokens := c\<rparr>)
        | (Inr u, c) \<Rightarrow>
            let (p, h) = alloc \<lparr>us_ID = si_OrgId u, us_IsAdmin = si_IsAdmin u, us_Role = si_Role u\<rparr> (au_heap s)
            in (Inr p, s\<lparr>au_tokens := c, au_heap := h\<rparr>))"

definition GrafanaComInstanceAuth_Auth ::
  "(string \<Rightarrow> gcom_error + SignedInUser) \<Rightarrow> (string \<Rightarrow> gcom_error option) \<Rightarrow> int \<Rightarrow> string \<Rightarrow> string \<Rightarrow> string
    \<Rightarrow> auth_state \<Rightarrow> (auth_error + nat) \<times> auth_state" where
  "GrafanaComInstanceAuth_Auth askToken askInstance now adminKey username password s =
     (case parse_int 64 username of
        Inl e \<Rightarrow> (Inl ErrInvalidCredentials, s)
      | Inr instanceID \<Rightarrow>
          (case gcom_Auth askToken now adminKey password (au_tokens s) of
             (Inl e, c) \<Rightarrow> (Inl (gcom_failure e), s\<lparr>au_tokens := c\<rparr>)
           | (Inr u, c) \<Rightarrow>
               let (err, ic) = (if password \<noteq> adminKey then CheckInstance askInstance now u username (au_instances s)
                                else (None, au_instances s));
                   s = s\<lparr>au_tokens := c, au_instances := ic\<rparr>
               in if err \<noteq> None then (Inl ErrInvalidCredentials, s)
                  else
                    let (p, h) = alloc \<lparr>us_ID = instanceID, us_IsAdmin = si_IsAdmin u, us_Role = si_Role u\<rparr> (au_heap s)
                    in (Inr p, s\<lparr>au_heap := h\<rparr>)))"

subsection \<open>Starting and stopping\<close>

text \<open>
  The package variables of \<^verbatim>\<open>gcom\<close>, as far as starting and stopping goes: \<^term>\<open>None\<close> for a nil cache,
  otherwise whether its stop channel is closed. Closing the channel of a nil cache, or a closed channel,
  panics: \<^term>\<open>None\<close>.
\<close>

record cache_vars =
  cv_token :: "bool option"
  cv_instance :: "bool option"

definition InitTokenCache :: "cache_vars \<Rightarrow> cache_vars" where
  "InitTokenCache v = (if cv_token v = None then v\<lparr>cv_token := Some False\<rparr> else v)"

definition InitInstanceCache :: "cache_vars \<Rightarrow> cache_vars" where
  "InitInstanceCache v = (if cv_instance v = None then v\<lparr>cv_instance := Some False\<rparr> else v)"

definition StopTokenCache :: "cache_vars \<Rightarrow> cache_vars option" where
  "StopTokenCache v = (if cv_token v = Some False then Some (v\<lparr>cv_token := Some True\<rparr>) else None)"

definition StopInstanceCache :: "cache_vars \<Rightarrow> cache_vars option" where
  "StopInstanceCache v = (if cv_instance v = Some False then Some (v\<lparr>cv_instance := Some True\<rparr>) else None)"

definition NewGrafanaComAuth :: "cache_vars \<Rightarrow> cache_vars" where
  "NewGrafanaComAuth v = InitTokenCache v"

definition NewGrafanaComInstanceAuth :: "cache_vars \<Rightarrow> cache_vars" where
  "NewGrafanaComInstanceAuth v = InitInstanceCache (InitTokenCache v)"

definition GrafanaComAuth_Stop :: "cache_vars \<Rightarrow> cache_vars option" where
  "GrafanaComAuth_Stop v = Option.bind (StopTokenCache v) StopInstanceCache"

definition GrafanaComInstanceAuth_Stop :: "cache_vars \<Rightarrow> cache_vars option" where
  "GrafanaComInstanceAuth_Stop v = Option.bind (StopTokenCache v) StopInstanceCache"

section \<open>The interface\<close>

text \<open>What the HTTP layer relies on; \<open>heap\<close> reads the users of a plugin's state.\<close>

locale auth_plugin =
  fixes authp :: "string \<Rightarrow> string \<Rightarrow> 's \<Rightarrow> (auth_error + nat) \<times> 's"
    and heap :: "'s \<Rightarrow> user_heap"
    and ready :: "'s \<Rightarrow> bool"
  assumes keeps_users: "p < hp_next (heap s) \<Longrightarrow> hp_users (heap (snd (authp u k s))) p = hp_users (heap s) p"
    and grows: "hp_next (heap s) \<le> hp_next (heap (snd (authp u k s)))"
    and returns_user: "ready s \<Longrightarrow> authp u k s = (Inr p, s') \<Longrightarrow> p < hp_next (heap s')"
    and stays_ready: "ready s \<Longrightarrow> ready (snd (authp u k s))"
begin

lemma keeps_users_many:
  "p < hp_next (heap s) \<Longrightarrow>
   hp_users (heap (fold (\<lambda>(u, k) s. snd (authp u k s)) cs s)) p = hp_users (heap s) p \<and>
   p < hp_next (heap (fold (\<lambda>(u, k) s. snd (authp u k s)) cs s))"
proof (induction cs arbitrary: s)
  case (Cons c cs)
  obtain u k where c: "c = (u, k)" by (cases c)
  have "p < hp_next (heap (snd (authp u k s)))"
    using Cons.prems grows [of s u k] by linarith
  then show ?case using Cons.IH [of "snd (authp u k s)"] keeps_users [OF Cons.prems] by (simp add: c)
qed simp

end

definition file_ready :: "FileAuth \<Rightarrow> user_heap \<Rightarrow> bool" where
  "file_ready a h \<longleftrightarrow> 0 < hp_next h \<and> (\<forall>k p. fa_keys a k = Some p \<longrightarrow> p < hp_next h)"

lemma FileAuth_returns:
  "file_ready a h \<Longrightarrow> FileAuth_Auth adminKey a u k h = Inr p \<Longrightarrow> p < hp_next h"
  by (auto simp: FileAuth_Auth_def file_ready_def Let_def split: if_splits option.splits)

interpretation file_plugin: auth_plugin
  "\<lambda>u k s. (FileAuth_Auth adminKey a u k (au_heap s), s)" au_heap "\<lambda>s. file_ready a (au_heap s)"
  for adminKey a
  by unfold_locales (auto simp: FileAuth_returns)

interpretation gcom_plain: auth_plugin
  "GrafanaComAuth_Auth askToken now adminKey" au_heap "\<lambda>s. True"
  for askToken now adminKey
  by unfold_locales
    (auto simp: GrafanaComAuth_Auth_def alloc_def Let_def split: sum.splits prod.splits if_splits)

interpretation gcom_instance: auth_plugin
  "GrafanaComInstanceAuth_Auth askToken askInstance now adminKey" au_heap "\<lambda>s. True"
  for askToken askInstance now adminKey
  by unfold_locales
    (auto simp: GrafanaComInstanceAuth_Auth_def alloc_def Let_def split: sum.splits prod.splits if_splits)

section \<open>Loading the file\<close>

lemma load_section_ready: "file_ready a h \<Longrightarrow> file_ready (fst (load_section sec (a, h))) (snd (load_section sec (a, h)))"
  by (auto simp: load_section_def file_ready_def alloc_def Let_def less_Suc_eq
      split: option.splits sum.splits if_splits)

lemma load_sections_ready:
  "file_ready (fst st) (snd st) \<Longrightarrow> file_ready (fst (fold load_section secs st)) (snd (fold load_section secs st))"
proof (induction secs arbitrary: st)
  case (Cons sec secs)
  then show ?case using load_section_ready [of "fst st" "snd st" sec] by simp
qed simp

lemma NewFileAuth_ready: "0 < hp_next h \<Longrightarrow> NewFileAuth secs h = Some (a, h') \<Longrightarrow> file_ready a h'"
  using load_sections_ready [of "(\<lparr>fa_keys = Map.empty, fa_instanceMap = Map.empty\<rparr>, h)" secs]
  by (auto simp: NewFileAuth_def file_ready_def Let_def split: prod.splits if_splits)

lemma file_auth_iff:
  "FileAuth_Auth adminKey a name password h = Inr p \<longleftrightarrow>
     (password = adminKey \<and> p = 0) \<or>
     (password \<noteq> adminKey \<and> fa_keys a password = Some p \<and>
      (us_IsAdmin (hp_users h p) \<or> name = ''api_key'' \<or> fa_instanceMap a name = Some (us_ID (hp_users h p))))"
  by (auto simp: FileAuth_Auth_def Let_def split: option.splits)

section \<open>Properties\<close>

text \<open>
  Who the file plugin lets in: the admin key is the admin user; any other password must be a key of the
  file, and for a user that is not an admin the user name must be \<^verbatim>\<open>api_key\<close> or an instance that the file
  maps to that user's organisation.
\<close>

theorem file_auth_decision:
  "FileAuth_Auth adminKey a name password h = Inr p \<longleftrightarrow>
     (password = adminKey \<and> p = 0) \<or>
     (password \<noteq> adminKey \<and> fa_keys a password = Some p \<and>
      (us_IsAdmin (hp_users h p) \<or> name = ''api_key'' \<or> fa_instanceMap a name = Some (us_ID (hp_users h p))))"
  by (rule file_auth_iff)

text \<open>
  What the instance plugin grants: with a password other than the admin key, it accepts a name only if it
  is a decimal number and both the token and the pair of instance and token were accepted; the user it
  returns is a new one, with that number as its ID and the role and admin flag of the token's user.
\<close>

theorem instance_auth_grants:
  assumes "GrafanaComInstanceAuth_Auth askToken askInstance now adminKey name password s = (Inr p, s')"
    and "password \<noteq> adminKey"
  shows "\<exists>i u c. parse_int 64 name = Inr i \<and> gcom_Auth askToken now adminKey password (au_tokens s) = (Inr u, c) \<and>
    fst (CheckInstance askInstance now u name (au_instances s)) = None \<and>
    hp_users (au_heap s') p = \<lparr>us_ID = i, us_IsAdmin = si_IsAdmin u, us_Role = si_Role u\<rparr> \<and>
    p = hp_next (au_heap s)"
  using assms
  by (auto simp: GrafanaComInstanceAuth_Auth_def alloc_def Let_def split: sum.splits prod.splits if_splits)

theorem instance_auth_grants_witness:
  "\<exists>p s'. GrafanaComInstanceAuth_Auth (\<lambda>k. Inr sample_user) (\<lambda>k. None) 0 ''admin'' ''12'' ''k''
      \<lparr>au_heap = init_heap, au_tokens = \<lparr>tc_items = Map.empty, tc_cacheTTL = 5\<rparr>,
       au_instances = \<lparr>ic_items = Map.empty, ic_cacheTTL = 5\<rparr>\<rparr> = (Inr p, s') \<and>
    hp_users (au_heap s') p = \<lparr>us_ID = 12, us_IsAdmin = False, us_Role = ROLE_EDITOR\<rparr>"
proof -
  let ?s = "\<lparr>au_heap = init_heap, au_tokens = \<lparr>tc_items = Map.empty, tc_cacheTTL = 5\<rparr>,
       au_instances = \<lparr>ic_items = Map.empty, ic_cacheTTL = 5\<rparr>\<rparr>"
  have num: "parse_int 64 ''12'' = Inr 12"
    by (simp add: parse_int_def parse_uint_def digit_val_def)
  obtain p s' where run: "GrafanaComInstanceAuth_Auth (\<lambda>k. Inr sample_user) (\<lambda>k. None) 0 ''admin'' ''12'' ''k'' ?s = (Inr p, s')"
    using num
    by (simp add: GrafanaComInstanceAuth_Auth_def gcom_Auth_def TokenCache_Get_def CheckInstance_def
        InstanceCache_Get_def Let_def alloc_def)
  obtain i u c where "parse_int 64 ''12'' = Inr i"
    "gcom_Auth (\<lambda>k. Inr sample_user) 0 ''admin'' ''k'' (au_tokens ?s) = (Inr u, c)"
    "hp_users (au_heap s') p = \<lparr>us_ID = i, us_IsAdmin = si_IsAdmin u, us_Role = si_Role u\<rparr>"
    using instance_auth_grants [OF run] by auto
  then have "hp_users (au_heap s') p = \<lparr>us_ID = 12, us_IsAdmin = False, us_Role = ROLE_EDITOR\<rparr>"
    using num by (auto simp: gcom_Auth_def TokenCache_Get_def sample_user_def)
  with run show ?thesis by blast
qed

text \<open>
  Stopping the plain grafana.com plugin panics, because it stops the instance cache that only the instance
  plugin creates; the instance plugin stops cleanly.
\<close>

theorem plain_plugin_stop_panics:
  "GrafanaComAuth_Stop (NewGrafanaComAuth \<lparr>cv_token = None, cv_instance = None\<rparr>) = None \<and>
   GrafanaComInstanceAuth_Stop (NewGrafanaComInstanceAuth \<lparr>cv_token = None, cv_instance = None\<rparr>) =
     Some \<lparr>cv_token = Some True, cv_instance = Some True\<rparr>"
  by (simp add: GrafanaComAuth_Stop_def GrafanaComInstanceAuth_Stop_def NewGrafanaComAuth_def
      NewGrafanaComInstanceAuth_def InitTokenCache_def InitInstanceCache_def StopTokenCache_def
      StopInstanceCache_def)

end
