(* ===== verification/GoPath.thy ===== *)
theory GoPath
  imports GwPrelude
begin

text \<open>
  Paths and the two plain routers: \<^verbatim>\<open>path.Clean\<close> of the standard library, \<^verbatim>\<open>http.ServeMux\<close>, which the metrics
  server uses, and the vendored \<^verbatim>\<open>gorilla/mux\<close> for templates without variables, which the persister uses.
  Both routers send a client with an unclean path to the clean one.
\<close>

section \<open>Cleaning\<close>

text \<open>One element of a path; the stack holds the elements kept so far, the last one first.\<close>

definition clean_step :: "bool \<Rightarrow> string \<Rightarrow> string list \<Rightarrow> string list" where
  "clean_step rooted e st =
     (if e = [] \<or> e = ''.'' then st
      else if e = ''..'' then
        (case st of
           [] \<Rightarrow> if rooted then [] else [''..'']
         | x # xs \<Rightarrow> if x = ''..'' then ''..'' # st else xs)
      else e # st)"

definition clean_elems :: "bool \<Rightarrow> string list \<Rightarrow> string list" where
  "clean_elems rooted es = rev (fold (clean_step rooted) es [])"

definition path_Clean :: "string \<Rightarrow> string" where
  "path_Clean p =
     (if p = [] then ''.''
      else
        let rooted = (hd p = CHR ''/'');
            out = join_with CHR ''/'' (clean_elems rooted (split_on CHR ''/'' p))
        in if rooted then CHR ''/'' # out else if out = [] then ''.'' else out)"

text \<open>\<^verbatim>\<open>cleanPath\<close> of \<^verbatim>\<open>net/http\<close> and of \<^verbatim>\<open>gorilla/mux\<close>.\<close>

definition cleanPath :: "string \<Rightarrow> string" where
  "cleanPath p =
     (if p = [] then ''/''
      else
        let p = (if hd p \<noteq> CHR ''/'' then CHR ''/'' # p else p);
            np = path_Clean p
        in if last p = CHR ''/'' \<and> np \<noteq> ''/'' then np @ ''/'' else np)"

section \<open>Routers\<close>

datatype 'h mux_result = MuxRedirect string | MuxHandler 'h | MuxNotFound

text \<open>
  \<^verbatim>\<open>ServeMux\<close> with patterns that are paths: the pattern itself, or else the longest pattern that ends in a slash
  and starts the path. A path that only lacks the slash of a pattern is redirected.
\<close>

definition longest_prefix :: "(string \<times> 'h) list \<Rightarrow> string \<Rightarrow> (string \<times> 'h) option" where
  "longest_prefix ps p =
     fold (\<lambda>(q, h) best. if has_suffix ''/'' q \<and> has_prefix q p \<and>
             (case best of None \<Rightarrow> True | Some (b, _) \<Rightarrow> length b < length q) then Some (q, h) else best) ps None"

definition ServeMux_match :: "(string \<times> 'h) list \<Rightarrow> string \<Rightarrow> 'h mux_result" where
  "ServeMux_match ps p =
     (if cleanPath p \<noteq> p then MuxRedirect (cleanPath p)
      else
        case map_of ps p of
          Some h \<Rightarrow> MuxHandler h
        | None \<Rightarrow>
            if map_of ps (p @ ''/'') \<noteq> None then MuxRedirect (p @ ''/'')
            else case longest_prefix ps p of Some (q, h) \<Rightarrow> MuxHandler h | None \<Rightarrow> MuxNotFound)"

text \<open>\<^verbatim>\<open>Router.ServeHTTP\<close> of \<^verbatim>\<open>gorilla/mux\<close>: the routes in order, each matching its template alone.\<close>

definition gorilla_match :: "(string \<times> 'h) list \<Rightarrow> string \<Rightarrow> 'h mux_result" where
  "gorilla_match routes p =
     (if cleanPath p \<noteq> p then MuxRedirect (cleanPath p)
      else case find (\<lambda>(tpl, h). tpl = p) routes of Some (tpl, h) \<Rightarrow> MuxHandler h | None \<Rightarrow> MuxNotFound)"

section \<open>Clean paths\<close>

text \<open>An element that cleaning keeps.\<close>

definition plain_elem :: "string \<Rightarrow> bool" where
  "plain_elem e \<longleftrightarrow> e \<noteq> [] \<and> e \<noteq> ''.'' \<and> e \<noteq> ''..'' \<and> CHR ''/'' \<notin> set e"

lemma clean_step_plain: "plain_elem e \<Longrightarrow> clean_step rooted e st = e # st"
  by (simp add: clean_step_def plain_elem_def)

lemma clean_elems_plain: "\<forall>e \<in> set es. plain_elem e \<Longrightarrow> clean_elems rooted es = es"
proof -
  have "fold (clean_step rooted) es st = rev es @ st" if "\<forall>e \<in> set es. plain_elem e" for st
    using that by (induction es arbitrary: st) (simp_all add: clean_step_plain)
  then show "\<forall>e \<in> set es. plain_elem e \<Longrightarrow> ?thesis" by (simp add: clean_elems_def)
qed

lemma clean_step_rooted:
  "\<forall>x \<in> set st. plain_elem x \<Longrightarrow> CHR ''/'' \<notin> set e \<Longrightarrow> \<forall>x \<in> set (clean_step True e st). plain_elem x"
  unfolding clean_step_def by (cases st) (simp_all add: plain_elem_def)

lemma clean_elems_rooted:
  assumes "\<forall>e \<in> set es. CHR ''/'' \<notin> set e"
  shows "\<forall>e \<in> set (clean_elems True es). plain_elem e"
proof -
  have "\<forall>x \<in> set (fold (clean_step True) es st). plain_elem x" if "\<forall>x \<in> set st. plain_elem x" for st
    using that assms
  proof (induction es arbitrary: st)
    case (Cons e es)
    show ?case using Cons.IH [OF clean_step_rooted [OF Cons.prems(1), of e]] Cons.prems(2) by simp
  qed simp
  from this [of "[]"] show ?thesis by (simp add: clean_elems_def)
qed

text \<open>The rooted path of some elements.\<close>

definition rooted_path :: "string list \<Rightarrow> string" where
  "rooted_path es = CHR ''/'' # join_with CHR ''/'' es"

lemma path_Clean_rooted:
  "\<exists>es. (\<forall>e \<in> set es. plain_elem e) \<and> path_Clean (CHR ''/'' # p) = rooted_path es"
proof -
  have "\<forall>e \<in> set (clean_elems True (split_on CHR ''/'' (CHR ''/'' # p))). plain_elem e"
    by (rule clean_elems_rooted) (use split_on_no_sep in blast)
  then show ?thesis unfolding path_Clean_def rooted_path_def Let_def by (intro exI conjI) simp_all
qed

lemma path_Clean_rooted_path:
  assumes "\<forall>e \<in> set es. plain_elem e"
  shows "path_Clean (rooted_path es) = rooted_path es"
proof (cases "es = []")
  case False
  have "split_on CHR ''/'' (join_with CHR ''/'' es) = es"
    by (rule split_join [OF False]) (use assms in \<open>simp add: plain_elem_def\<close>)
  then have "clean_elems True (split_on CHR ''/'' (rooted_path es)) = clean_elems True ([] # es)"
    by (simp add: rooted_path_def)
  also have "\<dots> = es"
    using clean_elems_plain [OF assms, of True] by (simp add: clean_elems_def clean_step_def)
  finally show ?thesis by (simp add: path_Clean_def rooted_path_def)
qed (simp add: path_Clean_def rooted_path_def clean_elems_def clean_step_def)

text \<open>Cleaning a rooted path again changes nothing.\<close>

lemma path_Clean_idem: "path_Clean (path_Clean (CHR ''/'' # p)) = path_Clean (CHR ''/'' # p)"
  using path_Clean_rooted [of p] path_Clean_rooted_path by metis

end
