(* ===== verification/ApiChain.thy ===== *)
theory ApiChain
  imports AuthPlugins RateLimit GoPath
begin

text \<open>
  The middleware of \<^verbatim>\<open>api/middleware.go\<close>: reading the credentials, authentication with impersonation, the role
  and rate checks, and the order in which \<^verbatim>\<open>GenerateHandlers\<close> chains them.

  The router calls the handlers of a chain in order and stops as soon as one has written a response.
  \<open>run_chain\<close> does that for the handlers of this package: it ends in a reply, or reaches the handlers of
  the route with the pointer to the user they see. The plugin and its state are arguments, as in the
  locale \<open>auth_plugin\<close>; \<open>set_ID\<close> is the write through the pointer.
\<close>

section \<open>Credentials\<close>

record http_request =
  hq_BasicAuth :: "(string \<times> string) option"
  hq_Authorization :: string
  hq_DdApiKey :: string
  hq_XTsdbOrg :: string

definition getAuthCreds :: "http_request \<Rightarrow> string \<times> string" where
  "getAuthCreds req =
     (case hq_BasicAuth req of
        Some (username, key) \<Rightarrow> (username, key)
      | None \<Rightarrow>
          let parts = splitn2 CHR '' '' (hq_Authorization req)
          in if length parts = 2 \<and> parts ! 0 = ''Bearer'' then
               let keyParts = splitn2 CHR '':'' (parts ! 1)
               in if length keyParts < 2 then (''api_key'', keyParts ! 0) else (keyParts ! 0, keyParts ! 1)
             else ([], []))"

definition dd_creds :: "http_request \<Rightarrow> string \<times> string" where
  "dd_creds req =
     (let parts = splitn2 CHR '':'' (hq_DdApiKey req)
      in if length parts = 1 then (''api_key'', parts ! 0)
         else if length parts = 2 \<and> parts ! 1 = [] then (''api_key'', parts ! 1)
         else (parts ! 0, parts ! 1))"

section \<open>Handlers\<close>

datatype api_body = BodyText string | BodyAuthError auth_error

record api_reply =
  ar_status :: int
  ar_body :: api_body

type_synonym 's plugin = "string \<Rightarrow> string \<Rightarrow> 's \<Rightarrow> (auth_error + nat) \<times> 's"

definition set_ID :: "nat \<Rightarrow> int \<Rightarrow> auth_state \<Rightarrow> auth_state" where
  "set_ID p i s =
     s\<lparr>au_heap := (au_heap s)\<lparr>hp_users := (hp_users (au_heap s))(p := (hp_users (au_heap s) p)\<lparr>us_ID := i\<rparr>)\<rparr>\<rparr>"

text \<open>The organisation an admin asks to act for.\<close>

definition impersonate :: "http_request \<Rightarrow> nat \<Rightarrow> auth_state \<Rightarrow> auth_state" where
  "impersonate req p s =
     (if us_IsAdmin (hp_users (au_heap s) p) then
        (if hq_XTsdbOrg req \<noteq> [] then
           (case parse_int 64 (hq_XTsdbOrg req) of
              Inl e \<Rightarrow> s
            | Inr orgId \<Rightarrow> if orgId \<noteq> 0 then set_ID p orgId s else s)
         else s)
      else s)"

definition auth_failure :: "auth_error \<Rightarrow> api_reply" where
  "auth_failure e =
     (if e = ErrInvalidCredentials \<or> e = ErrInvalidOrgId \<or> e = ErrInvalidInstanceID
      then \<lparr>ar_status = 401, ar_body = BodyAuthError e\<rparr>
      else \<lparr>ar_status = 500, ar_body = BodyAuthError e\<rparr>)"

definition authenticate ::
  "auth_state plugin \<Rightarrow> http_request \<Rightarrow> string \<times> string \<Rightarrow> auth_state \<Rightarrow> (api_reply + nat) \<times> auth_state" where
  "authenticate authp req creds s =
     (let (username, key) = creds
      in if key = [] then (Inl \<lparr>ar_status = 401, ar_body = BodyText ''Unauthorized''\<rparr>, s)
         else
           case authp username key s of
             (Inl e, s) \<Rightarrow> (Inl (auth_failure e), s)
           | (Inr p, s) \<Rightarrow> (Inr p, impersonate req p s))"

definition Api_Auth :: "auth_state plugin \<Rightarrow> http_request \<Rightarrow> auth_state \<Rightarrow> (api_reply + nat) \<times> auth_state" where
  "Api_Auth authp req s = authenticate authp req (getAuthCreds req) s"

definition Api_DDAuth :: "auth_state plugin \<Rightarrow> http_request \<Rightarrow> auth_state \<Rightarrow> (api_reply + nat) \<times> auth_state" where
  "Api_DDAuth authp req s = authenticate authp req (dd_creds req) s"

definition RequireAdmin :: "User \<Rightarrow> api_reply option" where
  "RequireAdmin u = (if \<not> us_IsAdmin u then Some \<lparr>ar_status = 403, ar_body = BodyText ''Permision denied''\<rparr> else None)"

definition RequirePublisher :: "User \<Rightarrow> api_reply option" where
  "RequirePublisher u =
     (if \<not> IsPublisher (us_Role u) then Some \<lparr>ar_status = 401, ar_body = BodyText ''Unauthorized to publish''\<rparr> else None)"

definition RequireViewer :: "User \<Rightarrow> api_reply option" where
  "RequireViewer u =
     (if \<not> IsViewer (us_Role u) then Some \<lparr>ar_status = 403, ar_body = BodyText ''Unauthorized to view''\<rparr> else None)"

definition IngestRateLimiter :: "(Limiter \<Rightarrow> bool) \<Rightarrow> limiters \<Rightarrow> User \<Rightarrow> api_reply option" where
  "IngestRateLimiter allow rl u =
     (if \<not> IsRateBudgetAvailable allow rl (us_ID u)
      then Some \<lparr>ar_status = 429, ar_body = BodyText ''Rate limit is exhausted''\<rparr> else None)"

section \<open>Chains\<close>

datatype handler = HAuth | HDDAuth | HRequirePublisher | HRateLimiter

definition GenerateHandlers :: "limiters \<Rightarrow> string \<Rightarrow> bool \<Rightarrow> bool \<Rightarrow> bool \<Rightarrow> handler list" where
  "GenerateHandlers rl kind enforceRoles datadog rateLimited =
     (if kind = ''write'' then
        [if datadog then HDDAuth else HAuth] @ (if enforceRoles then [HRequirePublisher] else [])
      else [HAuth] @ (if enforceRoles then [HRequirePublisher] else [])) @
     (if UseRateLimit rl \<and> rateLimited then [HRateLimiter] else [])"

definition run_handler ::
  "auth_state plugin \<Rightarrow> (Limiter \<Rightarrow> bool) \<Rightarrow> limiters \<Rightarrow> http_request \<Rightarrow> handler \<Rightarrow> nat \<Rightarrow> auth_state
    \<Rightarrow> (api_reply + nat) \<times> auth_state" where
  "run_handler authp allow rl req h p s =
     (let user = hp_users (au_heap s) p
      in case h of
           HAuth \<Rightarrow> Api_Auth authp req s
         | HDDAuth \<Rightarrow> Api_DDAuth authp req s
         | HRequirePublisher \<Rightarrow> (case RequirePublisher user of None \<Rightarrow> Inr p | Some r \<Rightarrow> Inl r, s)
         | HRateLimiter \<Rightarrow> (case IngestRateLimiter allow rl user of None \<Rightarrow> Inr p | Some r \<Rightarrow> Inl r, s))"

fun run_chain ::
  "auth_state plugin \<Rightarrow> (Limiter \<Rightarrow> bool) \<Rightarrow> limiters \<Rightarrow> http_request \<Rightarrow> handler list \<Rightarrow> nat \<Rightarrow> auth_state
    \<Rightarrow> (api_reply + nat) \<times> auth_state" where
  "run_chain authp allow rl req [] p s = (Inr p, s)"
| "run_chain authp allow rl req (h # hs) p s =
     (case run_handler authp allow rl req h p s of
        (Inl r, s) \<Rightarrow> (Inl r, s)
      | (Inr p, s) \<Rightarrow> run_chain authp allow rl req hs p s)"

text \<open>\<^verbatim>\<open>GetContextHandler\<close> gives every request a new, empty user before the chain runs.\<close>

definition serve ::
  "auth_state plugin \<Rightarrow> (Limiter \<Rightarrow> bool) \<Rightarrow> limiters \<Rightarrow> http_request \<Rightarrow> handler list \<Rightarrow> auth_state
    \<Rightarrow> (api_reply + nat) \<times> auth_state" where
  "serve authp allow rl req hs s =
     (let (p, h) = alloc zero_user (au_heap s) in run_chain authp allow rl req hs p (s\<lparr>au_heap := h\<rparr>))"

section \<open>Paths\<close>

definition pathSlug :: "string \<Rightarrow> string" where
  "pathSlug p =
     (let slug = (if has_prefix ''/'' (path_Clean p) then drop 1 (path_Clean p) else path_Clean p);
          slug = (if slug = [] then ''root'' else slug)
      in replace_char CHR ''.'' CHR ''_'' (replace_char CHR ''/'' CHR ''_'' slug))"

section \<open>Reading credentials\<close>

lemma getAuthCreds_bearer:
  assumes "hq_BasicAuth req = None"
  shows "hq_Authorization req = ''Bearer '' @ name @ CHR '':'' # key \<Longrightarrow> CHR '':'' \<notin> set name \<Longrightarrow>
      getAuthCreds req = (name, key)"
    and "hq_Authorization req = ''Bearer '' @ key \<Longrightarrow> CHR '':'' \<notin> set key \<Longrightarrow>
      getAuthCreds req = (''api_key'', key)"
proof -
  have bearer: "splitn2 CHR '' '' (''Bearer '' @ s) = [''Bearer'', s]" for s
    using splitn2_append [of "CHR '' ''" "''Bearer''" s] by simp
  show "hq_Authorization req = ''Bearer '' @ name @ CHR '':'' # key \<Longrightarrow> CHR '':'' \<notin> set name \<Longrightarrow>
      getAuthCreds req = (name, key)"
    unfolding getAuthCreds_def using assms bearer [of "name @ CHR '':'' # key"] by simp
  show "hq_Authorization req = ''Bearer '' @ key \<Longrightarrow> CHR '':'' \<notin> set key \<Longrightarrow>
      getAuthCreds req = (''api_key'', key)"
    unfolding getAuthCreds_def using assms bearer [of key] by simp
qed

lemma dd_creds_key:
  "CHR '':'' \<notin> set key \<Longrightarrow> hq_DdApiKey req = key \<Longrightarrow> dd_creds req = (''api_key'', key)"
  "CHR '':'' \<notin> set name \<Longrightarrow> key \<noteq> [] \<Longrightarrow> hq_DdApiKey req = name @ CHR '':'' # key \<Longrightarrow> dd_creds req = (name, key)"
  "CHR '':'' \<notin> set key \<Longrightarrow> hq_DdApiKey req = key @ '':'' \<Longrightarrow> dd_creds req = (''api_key'', [])"
  by (simp_all add: dd_creds_def)

section \<open>What the chain decides\<close>

lemma impersonate_role [simp]:
  "us_Role (hp_users (au_heap (impersonate req p s)) q) = us_Role (hp_users (au_heap s) q)"
  "us_IsAdmin (hp_users (au_heap (impersonate req p s)) q) = us_IsAdmin (hp_users (au_heap s) q)"
  by (auto simp: impersonate_def set_ID_def split: sum.splits)

lemma impersonate_nonadmin:
  "\<not> us_IsAdmin (hp_users (au_heap s) p) \<Longrightarrow> impersonate req p s = s"
  by (simp add: impersonate_def)

definition chain_creds :: "string \<Rightarrow> bool \<Rightarrow> http_request \<Rightarrow> string \<times> string" where
  "chain_creds kind datadog req = (if kind = ''write'' \<and> datadog then dd_creds req else getAuthCreds req)"

lemma run_handler_checks:
  "run_handler authp allow rl req HRequirePublisher p s =
     (case RequirePublisher (hp_users (au_heap s) p) of None \<Rightarrow> Inr p | Some r \<Rightarrow> Inl r, s)"
  "run_handler authp allow rl req HRateLimiter p s =
     (case IngestRateLimiter allow rl (hp_users (au_heap s) p) of None \<Rightarrow> Inr p | Some r \<Rightarrow> Inl r, s)"
  by (simp_all add: run_handler_def Let_def)

lemma run_chain_generated:
  "run_chain authp allow rl req (GenerateHandlers rl kind enforceRoles datadog rateLimited) p0 s =
     (case authenticate authp req (chain_creds kind datadog req) s of
        (Inl r, s) \<Rightarrow> (Inl r, s)
      | (Inr p, s) \<Rightarrow>
          let user = hp_users (au_heap s) p
          in (case (if enforceRoles then RequirePublisher user else None) of
                Some r \<Rightarrow> Inl r
              | None \<Rightarrow>
                  (case (if UseRateLimit rl \<and> rateLimited then IngestRateLimiter allow rl user else None) of
                     Some r \<Rightarrow> Inl r
                   | None \<Rightarrow> Inr p), s))"
proof -
  define first where "first = (if kind = ''write'' \<and> datadog then HDDAuth else HAuth)"
  have hs: "GenerateHandlers rl kind enforceRoles datadog rateLimited =
      first # (if enforceRoles then [HRequirePublisher] else []) @
      (if UseRateLimit rl \<and> rateLimited then [HRateLimiter] else [])"
    by (simp add: GenerateHandlers_def first_def)
  have auth: "run_handler authp allow rl req first p0 s = authenticate authp req (chain_creds kind datadog req) s"
    by (simp add: run_handler_def Api_Auth_def Api_DDAuth_def chain_creds_def first_def Let_def)
  show ?thesis
    unfolding hs run_chain.simps auth
    by (auto simp: run_handler_checks Let_def split: sum.splits option.splits prod.splits)
qed

section \<open>What a request may change\<close>

text \<open>
  The chain over any plugin: the only write to an existing user is the organisation of the admin the plugin
  returned, and only when the header asks for one. \<open>fresh_plugin\<close> is a plugin that returns a new user on
  every call; then no request changes a user that existed before it.
\<close>

locale chain_plugin = auth_plugin authp au_heap ready
  for authp :: "auth_state plugin" and ready
begin

lemma authenticate_changes:
  assumes "authenticate authp req creds s = (res, s')" and "q < hp_next (au_heap s)"
    and "hp_users (au_heap s') q \<noteq> hp_users (au_heap s) q"
  shows "res = Inr q \<and> us_IsAdmin (hp_users (au_heap s) q) \<and>
    (\<exists>n. parse_int 64 (hq_XTsdbOrg req) = Inr n \<and> hp_users (au_heap s') q = (hp_users (au_heap s) q)\<lparr>us_ID := n\<rparr>)"
proof -
  obtain name key where creds: "creds = (name, key)" by (cases creds)
  obtain r s1 where run: "authp name key s = (r, s1)" by (cases "authp name key s")
  have kept: "hp_users (au_heap s1) q = hp_users (au_heap s) q"
    using keeps_users [OF assms(2), of name key] run by simp
  show ?thesis
    using assms kept
    by (auto simp: authenticate_def creds run impersonate_def set_ID_def split: sum.splits if_splits)
qed

lemma chain_changes:
  assumes "run_chain authp allow rl req (GenerateHandlers rl kind enforceRoles datadog rateLimited) p0 s = (res, s')"
    and "q < hp_next (au_heap s)" and "hp_users (au_heap s') q \<noteq> hp_users (au_heap s) q"
  shows "fst (authenticate authp req (chain_creds kind datadog req) s) = Inr q \<and>
    us_IsAdmin (hp_users (au_heap s) q) \<and>
    (\<exists>n. parse_int 64 (hq_XTsdbOrg req) = Inr n \<and> hp_users (au_heap s') q = (hp_users (au_heap s) q)\<lparr>us_ID := n\<rparr>)"
proof -
  obtain r s1 where auth: "authenticate authp req (chain_creds kind datadog req) s = (r, s1)"
    by (cases "authenticate authp req (chain_creds kind datadog req) s")
  have "s' = s1"
    using assms(1) unfolding run_chain_generated auth by (auto simp: Let_def split: sum.splits)
  then show ?thesis using authenticate_changes [OF auth assms(2)] assms(3) by (simp add: auth)
qed

end

locale fresh_plugin = chain_plugin +
  assumes returns_new: "authp u k s = (Inr p, s') \<Longrightarrow> hp_next (au_heap s) \<le> p"
begin

lemma authenticate_returns_new:
  "fst (authenticate authp req creds s) = Inr p \<Longrightarrow> hp_next (au_heap s) \<le> p"
  by (auto simp: authenticate_def dest: returns_new split: sum.splits prod.splits if_splits)

lemma serve_keeps_users:
  assumes "q < hp_next (au_heap s)"
  shows "hp_users (au_heap (snd (serve authp allow rl req (GenerateHandlers rl kind enforceRoles datadog rateLimited) s))) q =
    hp_users (au_heap s) q"
proof -
  define s0 where "s0 = s\<lparr>au_heap := snd (alloc zero_user (au_heap s))\<rparr>"
  have q: "q < hp_next (au_heap s0)" "hp_users (au_heap s0) q = hp_users (au_heap s) q"
    using assms by (simp_all add: s0_def alloc_def)
  obtain r s' where run: "run_chain authp allow rl req (GenerateHandlers rl kind enforceRoles datadog rateLimited)
      (hp_next (au_heap s)) s0 = (r, s')"
    by fastforce
  have "serve authp allow rl req (GenerateHandlers rl kind enforceRoles datadog rateLimited) s = (r, s')"
    using run by (simp add: serve_def alloc_def s0_def)
  moreover have "hp_users (au_heap s') q = hp_users (au_heap s0) q"
    using chain_changes [OF run q(1)] authenticate_returns_new q(1) by (meson not_less)
  ultimately show ?thesis using q(2) by simp
qed

end

interpretation file_chain: chain_plugin
  "\<lambda>u k s. (FileAuth_Auth adminKey a u k (au_heap s), s)" "\<lambda>s. file_ready a (au_heap s)"
  for adminKey a
  by unfold_locales

interpretation gcom_plain_chain: fresh_plugin "GrafanaComAuth_Auth askToken now adminKey" "\<lambda>s. True"
  for askToken now adminKey
  by unfold_locales
    (auto simp: GrafanaComAuth_Auth_def alloc_def Let_def split: sum.splits prod.splits if_splits)

interpretation gcom_instance_chain: fresh_plugin "GrafanaComInstanceAuth_Auth askToken askInstance now adminKey" "\<lambda>s. True"
  for askToken askInstance now adminKey
  by unfold_locales
    (auto simp: GrafanaComInstanceAuth_Auth_def alloc_def Let_def split: sum.splits prod.splits if_splits)

section \<open>Properties\<close>

text \<open>
  C10. The generated chain in full: the handlers of a route run exactly when a non-empty key came with the
  request, the plugin accepts it, with enforced roles the user's role may publish, and with rate limits on
  a limited route the user's organisation has budget left; they see the user the plugin returned.
  Otherwise the request is answered with 401, 429 or 500 and they do not run.
\<close>

theorem chain_admits_exactly:
  assumes "chain_creds kind datadog req = (name, key)" and "authp name key s = (res, s1)"
  shows "case run_chain authp allow rl req (GenerateHandlers rl kind enforceRoles datadog rateLimited) p0 s of
      (Inr p, s') \<Rightarrow> key \<noteq> [] \<and> res = Inr p \<and> s' = impersonate req p s1 \<and>
        (enforceRoles \<longrightarrow> IsPublisher (us_Role (hp_users (au_heap s') p))) \<and>
        (UseRateLimit rl \<and> rateLimited \<longrightarrow> IsRateBudgetAvailable allow rl (us_ID (hp_users (au_heap s') p)))
    | (Inl r, s') \<Rightarrow>
        (ar_status r = 401 \<and> (key = [] \<or> res \<in> {Inl ErrInvalidCredentials, Inl ErrInvalidOrgId, Inl ErrInvalidInstanceID} \<or>
           (\<exists>p. res = Inr p \<and> enforceRoles \<and> \<not> IsPublisher (us_Role (hp_users (au_heap s') p))))) \<or>
        (ar_status r = 500 \<and> (\<exists>e. res = Inl (ErrBackend e))) \<or>
        (ar_status r = 429 \<and> rateLimited \<and>
           (\<exists>p. res = Inr p \<and> \<not> IsRateBudgetAvailable allow rl (us_ID (hp_users (au_heap s') p))))"
proof (cases "key = []")
  case True
  then show ?thesis
    unfolding run_chain_generated using assms by (simp add: authenticate_def)
next
  case False
  then have auth: "authenticate authp req (chain_creds kind datadog req) s =
      (case res of Inl e \<Rightarrow> (Inl (auth_failure e), s1) | Inr p \<Rightarrow> (Inr p, impersonate req p s1))"
    using assms by (simp add: authenticate_def split: sum.splits)
  show ?thesis
  proof (cases res)
    case (Inl e)
    then show ?thesis
      unfolding run_chain_generated auth by (cases e) (simp_all add: auth_failure_def)
  next
    case (Inr p)
    then show ?thesis
      unfolding run_chain_generated auth
      using False by (auto simp: RequirePublisher_def IngestRateLimiter_def Let_def)
  qed
qed

definition sample_req :: http_request where
  "sample_req = \<lparr>hq_BasicAuth = Some (''api_key'', ''secret''), hq_Authorization = [], hq_DdApiKey = [], hq_XTsdbOrg = []\<rparr>"

definition sample_auth :: auth_state where
  "sample_auth = \<lparr>au_heap = init_heap, au_tokens = \<lparr>tc_items = Map.empty, tc_cacheTTL = 5\<rparr>,
     au_instances = \<lparr>ic_items = Map.empty, ic_cacheTTL = 5\<rparr>\<rparr>"

definition sample_file :: FileAuth where
  "sample_file = \<lparr>fa_keys = Map.empty, fa_instanceMap = Map.empty\<rparr>"

theorem chain_admits_exactly_witness:
  "\<exists>p s'. run_chain (\<lambda>u k s. (FileAuth_Auth ''secret'' sample_file u k (au_heap s), s)) (\<lambda>l. True) Map.empty sample_req
      (GenerateHandlers Map.empty ''write'' True False True) 0 sample_auth = (Inr p, s') \<and>
    IsPublisher (us_Role (hp_users (au_heap s') p))"
proof -
  let ?run = "run_chain (\<lambda>u k s. (FileAuth_Auth ''secret'' sample_file u k (au_heap s), s)) (\<lambda>l. True) Map.empty sample_req
      (GenerateHandlers Map.empty ''write'' True False True) 0 sample_auth"
  have "chain_creds ''write'' False sample_req = (''api_key'', ''secret'')"
    by (simp add: chain_creds_def getAuthCreds_def sample_req_def)
  moreover have "(\<lambda>u k s. (FileAuth_Auth ''secret'' sample_file u k (au_heap s), s)) ''api_key'' ''secret'' sample_auth =
      (Inr 0, sample_auth)"
    by (simp add: FileAuth_Auth_def)
  ultimately have *: "case ?run of (Inr p, s') \<Rightarrow> IsPublisher (us_Role (hp_users (au_heap s') p))
    | (Inl r, s') \<Rightarrow> \<not> IsPublisher (us_Role (hp_users (au_heap s') 0)) \<or> ar_status r = 429"
    using chain_admits_exactly [of "''write''" False sample_req "''api_key''" "''secret''"
        "\<lambda>u k s. (FileAuth_Auth ''secret'' sample_file u k (au_heap s), s)" sample_auth "Inr 0" sample_auth,
        where allow = "\<lambda>l. True" and rl = Map.empty and enforceRoles = True and rateLimited = True and ?p0.0 = 0]
    by (auto split: sum.splits prod.splits)
  have "\<exists>p s'. ?run = (Inr p, s')"
    by (simp add: GenerateHandlers_def run_handler_def Api_Auth_def authenticate_def getAuthCreds_def sample_req_def
        FileAuth_Auth_def impersonate_def RequirePublisher_def sample_auth_def init_heap_def AdminUser_def
        IsPublisher_def role_defs UseRateLimit_def)
  then show ?thesis using * by auto
qed

text \<open>
  With the grafana.com plugins a request cannot change the user of another: whatever headers it carries,
  every user object that existed before it keeps its organisation, admin flag and role.
\<close>

theorem gcom_requests_isolated:
  assumes "q < hp_next (au_heap s)"
    and "authp = GrafanaComAuth_Auth askToken now adminKey \<or>
      authp = GrafanaComInstanceAuth_Auth askToken askInstance now adminKey"
  shows "hp_users (au_heap (snd (serve authp allow rl req
      (GenerateHandlers rl kind enforceRoles datadog rateLimited) s))) q = hp_users (au_heap s) q"
  using assms(2)
  by (auto simp: gcom_plain_chain.serve_keeps_users [OF assms(1)] gcom_instance_chain.serve_keeps_users [OF assms(1)])

theorem gcom_requests_isolated_witness:
  "hp_users (au_heap (snd (serve (GrafanaComInstanceAuth_Auth (\<lambda>k. Inr sample_user) (\<lambda>k. None) 0 ''admin'')
      (\<lambda>l. True) Map.empty (sample_req\<lparr>hq_XTsdbOrg := ''7''\<rparr>)
      (GenerateHandlers Map.empty ''write'' True False True) sample_auth))) 0 = AdminUser"
  using gcom_requests_isolated [of 0 sample_auth
      "GrafanaComInstanceAuth_Auth (\<lambda>k. Inr sample_user) (\<lambda>k. None) 0 ''admin''" "\<lambda>k. Inr sample_user" 0 "''admin''"
      "\<lambda>k. None" "\<lambda>l. True" Map.empty "sample_req\<lparr>hq_XTsdbOrg := ''7''\<rparr>" "''write''" True False True]
  by (simp add: sample_auth_def init_heap_def)

text \<open>
  C23. With the file plugin an impersonation outlives its request: after a request with an admin's key and the
  header for organisation \<open>n\<close> has been admitted, a later request with the same key and no header is admitted
  as organisation \<open>n\<close>, whatever organisation the key stands for.
\<close>

theorem impersonation_outlives_request:
  assumes "FileAuth_Auth adminKey a name key (au_heap s) = Inr p" and "p < hp_next (au_heap s)"
    and "us_IsAdmin (hp_users (au_heap s) p)" and "key \<noteq> []"
    and "getAuthCreds req1 = (name, key)" and "getAuthCreds req2 = (name, key)"
    and "parse_int 64 (hq_XTsdbOrg req1) = Inr n" and "n \<noteq> 0" and "hq_XTsdbOrg req1 \<noteq> []" and "hq_XTsdbOrg req2 = []"
  shows "let plugin = \<lambda>u k s. (FileAuth_Auth adminKey a u k (au_heap s), s);
             hs = GenerateHandlers Map.empty ''write'' False False True;
             (r1, s1) = serve plugin allow Map.empty req1 hs s;
             (r2, s2) = serve plugin allow Map.empty req2 hs s1
         in r1 = Inr p \<and> r2 = Inr p \<and> us_ID (hp_users (au_heap s2) p) = n"
proof -
  let ?plugin = "\<lambda>u k s. (FileAuth_Auth adminKey a u k (au_heap s), s)"
  let ?hs = "GenerateHandlers Map.empty ''write'' False False True"
  have grant: "FileAuth_Auth adminKey a name key (au_heap s') = Inr p"
    if "us_IsAdmin (hp_users (au_heap s') p)" for s'
    using assms(1) that by (auto simp: file_auth_iff)
  have one: "serve ?plugin allow Map.empty req ?hs s' = (Inr p, impersonate req p (s'\<lparr>au_heap := snd (alloc zero_user (au_heap s'))\<rparr>))"
    if "us_IsAdmin (hp_users (au_heap s') p)" and "p < hp_next (au_heap s')" and "getAuthCreds req = (name, key)" for s' req
  proof -
    have "us_IsAdmin (hp_users (snd (alloc zero_user (au_heap s'))) p)"
      using that by (simp add: alloc_def)
    then show ?thesis
      using that assms(4) grant [of "s'\<lparr>au_heap := snd (alloc zero_user (au_heap s'))\<rparr>"]
      unfolding serve_def run_chain_generated
      by (simp add: alloc_def authenticate_def chain_creds_def UseRateLimit_def)
  qed
  define s1 where "s1 = impersonate req1 p (s\<lparr>au_heap := snd (alloc zero_user (au_heap s))\<rparr>)"
  have s1: "us_IsAdmin (hp_users (au_heap s1) p)" "p < hp_next (au_heap s1)" "us_ID (hp_users (au_heap s1) p) = n"
    using assms by (simp_all add: s1_def impersonate_def alloc_def set_ID_def)
  have "serve ?plugin allow Map.empty req1 ?hs s = (Inr p, s1)"
    using one [OF assms(3) assms(2) assms(5)] by (simp add: s1_def)
  moreover have "serve ?plugin allow Map.empty req2 ?hs s1 =
      (Inr p, impersonate req2 p (s1\<lparr>au_heap := snd (alloc zero_user (au_heap s1))\<rparr>))"
    using one [OF s1(1,2) assms(6)] .
  moreover have "us_ID (hp_users (au_heap (impersonate req2 p (s1\<lparr>au_heap := snd (alloc zero_user (au_heap s1))\<rparr>))) p) = n"
    using s1 assms(10) by (simp add: impersonate_def alloc_def)
  ultimately show ?thesis by (simp add: Let_def)
qed

theorem impersonation_outlives_request_witness:
  "us_ID (hp_users (au_heap sample_auth) 0) = 1 \<and>
   (let plugin = \<lambda>u k s. (FileAuth_Auth ''secret'' sample_file u k (au_heap s), s);
        hs = GenerateHandlers Map.empty ''write'' False False True;
        (r1, s1) = serve plugin (\<lambda>l. True) Map.empty (sample_req\<lparr>hq_XTsdbOrg := ''7''\<rparr>) hs sample_auth;
        (r2, s2) = serve plugin (\<lambda>l. True) Map.empty sample_req hs s1
    in r1 = Inr 0 \<and> r2 = Inr 0 \<and> us_ID (hp_users (au_heap s2) 0) = 7)"
proof -
  have "parse_int 64 ''7'' = Inr 7"
    by (simp add: parse_int_def parse_uint_def digit_val_def)
  then show ?thesis
    using impersonation_outlives_request [of "''secret''" sample_file "''api_key''" "''secret''" sample_auth 0
        "sample_req\<lparr>hq_XTsdbOrg := ''7''\<rparr>" sample_req 7 "\<lambda>l. True"]
    by (simp add: FileAuth_Auth_def sample_auth_def init_heap_def AdminUser_def sample_req_def getAuthCreds_def)
qed

text \<open>
  Which credentials a request carries: without basic authentication, \<^verbatim>\<open>Bearer name:key\<close> gives the name and the
  key up to and after the first colon, and \<^verbatim>\<open>Bearer key\<close> the name \<^verbatim>\<open>api_key\<close>. The datadog header is read the same way,
  except that \<^verbatim>\<open>key:\<close>, with nothing after the colon, loses its key: the request is answered with 401 and the plugin is
  not asked.
\<close>

theorem credentials_read:
  assumes "CHR '':'' \<notin> set name" and "key \<noteq> []"
  shows "getAuthCreds (r\<lparr>hq_BasicAuth := None, hq_Authorization := ''Bearer '' @ name @ CHR '':'' # key\<rparr>) = (name, key) \<and>
    getAuthCreds (r\<lparr>hq_BasicAuth := None, hq_Authorization := ''Bearer '' @ name\<rparr>) = (''api_key'', name) \<and>
    dd_creds (r\<lparr>hq_DdApiKey := name @ CHR '':'' # key\<rparr>) = (name, key) \<and>
    dd_creds (r\<lparr>hq_DdApiKey := name\<rparr>) = (''api_key'', name) \<and>
    Api_DDAuth authp (r\<lparr>hq_DdApiKey := name @ '':''\<rparr>) s =
      (Inl \<lparr>ar_status = 401, ar_body = BodyText ''Unauthorized''\<rparr>, s)"
  using assms by (simp_all add: getAuthCreds_bearer dd_creds_key Api_DDAuth_def authenticate_def)

theorem credentials_read_witness:
  "getAuthCreds (sample_req\<lparr>hq_BasicAuth := None, hq_Authorization := ''Bearer 12:se:cret''\<rparr>) = (''12'', ''se:cret'') \<and>
   dd_creds (sample_req\<lparr>hq_DdApiKey := ''12:se:cret''\<rparr>) = (''12'', ''se:cret'')"
  using credentials_read [of "''12''" "''se:cret''" sample_req] by simp

end
