(* ===== verification/Carbon.thy ===== *)
theory Carbon
  imports Carbon20 Ingest ApiChain Transitions
begin

text \<open>
  Carbon ingestion (\<^verbatim>\<open>ingest/carbon/\<close>): parsing a line, and the machine of connections, the channel of lines
  and the flushers that parse and publish them.

  A state holds what each connection is about to put on the channel, the channel, the batch each flusher
  has collected, and the counters. The steps are the points at which the goroutines meet: a connection
  counts a line, puts it on the channel or drops it; a flusher takes a line or publishes on its tick; the
  channel is closed once the listener has stopped; a flusher returns when the channel is closed and empty.
  A panic ends the process, so it has no step. The channel has a capacity of at least one.

  The float parser, the authentication plugin and the publisher are parameters.
\<close>

section \<open>Parsing a line\<close>

datatype parse_error = err3Fields | errBadTag | ErrValue | ErrTimestamp num_error

definition bad_tag :: "string \<Rightarrow> bool" where
  "bad_tag v \<longleftrightarrow> v = [] \<or> CHR ''='' \<notin> set v \<or> hd v = CHR ''=''"

definition parseMetric :: "(string \<Rightarrow> float64 option) \<Rightarrow> string \<Rightarrow> int \<Rightarrow> parse_error + MetricData" where
  "parseMetric parseFloat buf orgId =
     (let msg = trim_space buf;
          elements = GwPrelude.fields msg
      in if length elements \<noteq> 3 then Inl err3Fields
         else
           let metric = split_on CHR '';'' (elements ! 0);
               name = metric ! 0;
               tags = drop 1 metric
           in if list_ex bad_tag tags then Inl errBadTag
              else
                case parseFloat (elements ! 1) of
                  None \<Rightarrow> Inl ErrValue
                | Some val \<Rightarrow>
                    (case parse_uint 32 (elements ! 2) of
                       Inl e \<Rightarrow> Inl (ErrTimestamp e)
                     | Inr timestamp \<Rightarrow>
                         Inr (SetId \<lparr>md_Id = [], md_OrgId = orgId, md_Name = name, md_Interval = 0, md_Value = val,
                                md_Unit = ''unknown'', md_Time = int timestamp, md_Mtype = ''gauge'', md_Tags = tags\<rparr>)))"

section \<open>The machine\<close>

record 's carbon_env =
  ce_bufferSize :: nat
  ce_nonBlocking :: bool
  ce_requirePublisher :: bool
  ce_plugins :: "auth_state plugin set"
  ce_parseFloat :: "string \<Rightarrow> float64 option"
  ce_pub :: "'s publish_fun"
  ce_orgs :: "MetricData list \<Rightarrow> int list"

record 's carbon =
  cb_pending :: "string option list"
  cb_buf :: "string list"
  cb_closed :: bool
  cb_flushers :: "MetricData list option list"
  cb_received :: uint32
  cb_valid :: uint32
  cb_rejected :: uint32
  cb_failed :: uint32
  cb_droppedFull :: uint32
  cb_droppedAuth :: uint32
  cb_timestamps :: "int \<rightharpoonup> Range32"
  cb_auth :: auth_state
  cb_pub :: 's
  cb_counters :: counter_vec

definition carbon_TimestampStat :: "int \<Rightarrow> (int \<rightharpoonup> Range32) \<Rightarrow> (int \<rightharpoonup> Range32)" where
  "carbon_TimestampStat org ts = (case ts org of None \<Rightarrow> ts(org \<mapsto> NewRange32) | Some r \<Rightarrow> ts)"

text \<open>What a flusher does with a line: the metric it appends, if any.\<close>

definition carbon_line ::
  "('s, 'z) carbon_env_scheme \<Rightarrow> auth_state plugin \<Rightarrow> string \<Rightarrow> 's carbon \<Rightarrow> (MetricData option \<times> 's carbon) run" where
  "carbon_line env authp b s =
     (case ValidatePacket (ce_parseFloat env) b MediumLegacy NoneM20 of
        Inl e \<Rightarrow> Returns (None, s\<lparr>cb_rejected := cb_rejected s + 1\<rparr>)
      | Inr _ \<Rightarrow>
        let parts = splitn2 CHR ''.'' b
        in case authp ''api_key'' (parts ! 0) (cb_auth s) of
             (Inl e, au) \<Rightarrow> Returns (None, s\<lparr>cb_auth := au, cb_droppedAuth := cb_droppedAuth s + 1\<rparr>)
           | (Inr p, au) \<Rightarrow>
               let user = hp_users (au_heap au) p;
                   s = s\<lparr>cb_auth := au\<rparr>
               in if ce_requirePublisher env \<and> \<not> IsPublisher (us_Role user)
                    then Returns (None, s\<lparr>cb_droppedAuth := cb_droppedAuth s + 1\<rparr>)
                  else if length parts < 2 then Panics
                  else
                    case parseMetric (ce_parseFloat env) (parts ! 1) (us_ID user) of
                      Inl e \<Rightarrow> Returns (None, s\<lparr>cb_rejected := cb_rejected s + 1\<rparr>)
                    | Inr md \<Rightarrow>
                        let ts = carbon_TimestampStat (us_ID user) (cb_timestamps s)
                        in Returns (Some md,
                             s\<lparr>cb_timestamps := ts(us_ID user := map_option (ValueUint32 (uint32_of (md_Time md))) (ts (us_ID user)))\<rparr>))"

text \<open>
  What a flusher does on its tick, with the batch it holds: the error of the gate, if any, and the batch it holds then.
\<close>

definition carbon_tick ::
  "('s, 'z) carbon_env_scheme \<Rightarrow> MetricData list \<Rightarrow> 's carbon \<Rightarrow> (publish_error option \<times> MetricData list \<times> 's carbon) run" where
  "carbon_tick env buf s =
     (case gate_Publish (ce_pub env) (ce_orgs env buf) buf (cb_pub s) (cb_counters s) of
        None \<Rightarrow> Loops
      | Some (Some (AccountError e), ms, p, cv) \<Rightarrow> Panics
      | Some (Some (PublisherError e), ms, p, cv) \<Rightarrow>
          if is_panic e then Panics
          else Returns (Some e, ms, s\<lparr>cb_pub := p, cb_counters := cv, cb_failed := cb_failed s + of_nat (length ms)\<rparr>)
      | Some (None, ms, p, cv) \<Rightarrow>
          Returns (None, [], s\<lparr>cb_pub := p, cb_counters := cv, cb_valid := cb_valid s + of_nat (length ms)\<rparr>))"

text \<open>The events of a run, with the lines and the metrics they are about.\<close>

datatype carbon_event =
  Dispatched string | Enqueued string | DroppedFull string | Taken string "MetricData option"
  | Ticked "MetricData list" "publish_error option" | ChannelClosed | FlusherReturned "MetricData list"

inductive carbon_step :: "('s, 'z) carbon_env_scheme \<Rightarrow> 's carbon \<Rightarrow> carbon_event \<Rightarrow> 's carbon \<Rightarrow> bool" for env where
  dispatch: "\<not> cb_closed s \<Longrightarrow> c < length (cb_pending s) \<Longrightarrow> cb_pending s ! c = None \<Longrightarrow> b \<noteq> [] \<Longrightarrow>
    carbon_step env s (Dispatched b) (s\<lparr>cb_received := cb_received s + 1, cb_pending := (cb_pending s)[c := Some b]\<rparr>)"
| enqueue: "c < length (cb_pending s) \<Longrightarrow> cb_pending s ! c = Some b \<Longrightarrow> length (cb_buf s) < ce_bufferSize env \<Longrightarrow>
    carbon_step env s (Enqueued b) (s\<lparr>cb_buf := cb_buf s @ [b], cb_pending := (cb_pending s)[c := None]\<rparr>)"
| dropFull: "c < length (cb_pending s) \<Longrightarrow> cb_pending s ! c = Some b \<Longrightarrow> ce_nonBlocking env \<Longrightarrow>
    \<not> length (cb_buf s) < ce_bufferSize env \<Longrightarrow>
    carbon_step env s (DroppedFull b) (s\<lparr>cb_droppedFull := cb_droppedFull s + 1, cb_pending := (cb_pending s)[c := None]\<rparr>)"
| recv: "f < length (cb_flushers s) \<Longrightarrow> cb_flushers s ! f = Some buf \<Longrightarrow> cb_buf s = b # rest \<Longrightarrow>
    authp \<in> ce_plugins env \<Longrightarrow> carbon_line env authp b (s\<lparr>cb_buf := rest\<rparr>) = Returns (md, s') \<Longrightarrow>
    carbon_step env s (Taken b md)
      (s'\<lparr>cb_flushers := (cb_flushers s')[f := Some (buf @ (case md of None \<Rightarrow> [] | Some m \<Rightarrow> [m]))]\<rparr>)"
| tick: "f < length (cb_flushers s) \<Longrightarrow> cb_flushers s ! f = Some buf \<Longrightarrow>
    carbon_tick env buf s = Returns (e, buf', s') \<Longrightarrow>
    carbon_step env s (Ticked buf e) (s'\<lparr>cb_flushers := (cb_flushers s')[f := Some buf']\<rparr>)"
| close: "\<not> cb_closed s \<Longrightarrow> \<forall>p \<in> set (cb_pending s). p = None \<Longrightarrow>
    carbon_step env s ChannelClosed (s\<lparr>cb_closed := True\<rparr>)"
| finish: "cb_closed s \<Longrightarrow> cb_buf s = [] \<Longrightarrow> f < length (cb_flushers s) \<Longrightarrow> cb_flushers s ! f = Some buf \<Longrightarrow>
    carbon_step env s (FlusherReturned buf) (s\<lparr>cb_flushers := (cb_flushers s)[f := None]\<rparr>)"

inductive_cases carbon_takeE: "carbon_step env s (Taken b md) s'"

definition init_carbon :: "nat \<Rightarrow> nat \<Rightarrow> auth_state \<Rightarrow> 's \<Rightarrow> 's carbon" where
  "init_carbon connections concurrency au p =
     \<lparr>cb_pending = replicate connections None, cb_buf = [], cb_closed = False,
      cb_flushers = replicate concurrency (Some []), cb_received = 0, cb_valid = 0, cb_rejected = 0, cb_failed = 0,
      cb_droppedFull = 0, cb_droppedAuth = 0, cb_timestamps = Map.empty, cb_auth = au, cb_pub = p,
      cb_counters = (\<lambda>_. 0)\<rparr>"

inductive carbon_run :: "('s, 'z) carbon_env_scheme \<Rightarrow> 's carbon \<Rightarrow> carbon_event list \<Rightarrow> 's carbon \<Rightarrow> bool" for env s where
  nil: "carbon_run env s [] s"
| snoc: "carbon_run env s es s' \<Longrightarrow> carbon_step env s' e s'' \<Longrightarrow> carbon_run env s (es @ [e]) s''"

inductive_simps carbon_run_Nil: "carbon_run env s [] s'"
inductive_simps carbon_run_snoc: "carbon_run env s (es @ [e]) s'"

interpretation carbon_runs: event_system "carbon_step env" "carbon_run env"
  for env
  by unfold_locales (auto simp: carbon_run_Nil carbon_run_snoc)

section \<open>Lines and fields\<close>

lemma fields_three:
  assumes "a \<noteq> []" and "b \<noteq> []" and "c \<noteq> []" and "\<forall>x \<in> set (a @ b @ c). no_space x"
  shows "GwPrelude.fields (a @ CHR '' '' # b @ CHR '' '' # c) = [a, b, c]"
  using assms fields_from_token [of c "[]" "[]"]
  by (simp add: GwPrelude.fields_def fields_from_token fields_from_blank fields_from.simps [of _ "[]"])

lemma trim_line:
  assumes "a \<noteq> []" and "c \<noteq> []" and "\<forall>x \<in> set (a @ c). no_space x"
  shows "trim_space (a @ s @ c) = a @ s @ c"
  using assms by (intro trim_space_id) auto

text \<open>What \<^verbatim>\<open>parseMetric\<close> makes of a line with three fields, the last of which is a number.\<close>

lemma parseMetric_line:
  assumes "name \<noteq> []" and "val \<noteq> []" and "\<forall>x \<in> set (name @ concat tags @ val @ ts). no_space x"
    and "CHR '';'' \<notin> set name" and "\<forall>t \<in> set tags. CHR '';'' \<notin> set t \<and> \<not> bad_tag t"
    and "parseFloat val = Some v" and "ts \<noteq> []" and "parse_uint 32 ts = Inr n"
  shows "parseMetric parseFloat (join_with CHR '';'' (name # tags) @ CHR '' '' # val @ CHR '' '' # ts) org =
    Inr (SetId \<lparr>md_Id = [], md_OrgId = org, md_Name = name, md_Interval = 0, md_Value = v,
      md_Unit = ''unknown'', md_Time = int n, md_Mtype = ''gauge'', md_Tags = tags\<rparr>)"
proof -
  let ?m = "join_with CHR '';'' (name # tags)"
  have semi: "no_space CHR '';''" by (simp add: no_space_def space_runes_def)
  have "set (join_with CHR '';'' ts) \<subseteq> insert CHR '';'' (set (concat ts))" for ts
    by (induction "CHR '';''" ts rule: join_with.induct) auto
  from this [of "name # tags"] have chars: "\<forall>x \<in> set ?m. no_space x" using assms(3) semi by auto
  have m: "?m \<noteq> []" using assms(1) by (cases tags) auto
  have fields: "GwPrelude.fields (?m @ CHR '' '' # val @ CHR '' '' # ts) = [?m, val, ts]"
    using chars assms(3) by (intro fields_three m assms(2,7)) auto
  have trim: "trim_space (?m @ CHR '' '' # val @ CHR '' '' # ts) = ?m @ CHR '' '' # val @ CHR '' '' # ts"
    using trim_line [OF m assms(7), of "CHR '' '' # val @ '' ''"] chars assms(3) by auto
  have split: "split_on CHR '';'' ?m = name # tags"
    using split_join [of "name # tags" "CHR '';''"] assms(4,5) by simp
  have "\<not> list_ex bad_tag tags" using assms(5) by (auto simp: list_ex_iff)
  then show ?thesis
    using assms(6,8) unfolding parseMetric_def trim Let_def fields by (simp add: split)
qed

section \<open>Lines and metrics in events and states\<close>

text \<open>The lines that came in, that were dropped and that were taken from the channel, as multisets.\<close>

fun ev_in :: "carbon_event \<Rightarrow> string multiset" where
  "ev_in (Dispatched b) = {#b#}" | "ev_in _ = {#}"

fun ev_dropped :: "carbon_event \<Rightarrow> string multiset" where
  "ev_dropped (DroppedFull b) = {#b#}" | "ev_dropped _ = {#}"

fun ev_taken :: "carbon_event \<Rightarrow> string multiset" where
  "ev_taken (Taken b md) = {#b#}" | "ev_taken _ = {#}"

fun ev_refused :: "carbon_event \<Rightarrow> string multiset" where
  "ev_refused (Taken b None) = {#b#}" | "ev_refused _ = {#}"

text \<open>The metrics that lines became, that were published, and that a flusher held when it returned.\<close>

fun ev_parsed :: "carbon_event \<Rightarrow> MetricData multiset" where
  "ev_parsed (Taken b (Some m)) = {#m#}" | "ev_parsed _ = {#}"

fun ev_published :: "carbon_event \<Rightarrow> MetricData multiset" where
  "ev_published (Ticked buf None) = mset buf" | "ev_published _ = {#}"

fun ev_lost :: "carbon_event \<Rightarrow> MetricData multiset" where
  "ev_lost (FlusherReturned buf) = mset buf" | "ev_lost _ = {#}"

definition in_events :: "(carbon_event \<Rightarrow> 'a multiset) \<Rightarrow> carbon_event list \<Rightarrow> 'a multiset" where
  "in_events f es = (\<Sum>e \<leftarrow> es. f e)"

lemma in_events_simps [simp]: "in_events f [] = {#}" "in_events f [e] = f e" "in_events f (es @ [e]) = in_events f es + f e"
  by (simp_all add: in_events_def)

text \<open>The lines between a connection and a flusher, and the metrics in the batches of the flushers.\<close>

definition held_lines :: "'s carbon \<Rightarrow> string multiset" where
  "held_lines s = (\<Sum>p \<leftarrow> cb_pending s. mset_set (set_option p)) + mset (cb_buf s)"

fun batch_of :: "MetricData list option \<Rightarrow> MetricData multiset" where
  "batch_of None = {#}" | "batch_of (Some ms) = mset ms"

definition held_metrics :: "'s carbon \<Rightarrow> MetricData multiset" where
  "held_metrics s = (\<Sum>f \<leftarrow> cb_flushers s. batch_of f)"

lemma sum_list_map_update:
  fixes f :: "'a \<Rightarrow> 'b :: comm_monoid_add"
  shows "i < length xs \<Longrightarrow> sum_list (map f (xs[i := v])) + f (xs ! i) = sum_list (map f xs) + f v"
proof (induction xs arbitrary: i)
  case (Cons x xs)
  then show ?case by (cases i) (simp_all add: ac_simps)
qed simp

lemma held_metrics_update:
  assumes "f < length (cb_flushers s)" and "cb_flushers s ! f = Some buf" and "cb_flushers s1 = cb_flushers s"
  shows "held_metrics (s1\<lparr>cb_flushers := (cb_flushers s1)[f := v]\<rparr>) + mset buf = held_metrics s + batch_of v"
  using sum_list_map_update [OF assms(1), of batch_of v] assms(2,3) by (simp add: held_metrics_def)

lemma carbon_line_kept:
  assumes "carbon_line env authp b s = Returns (md, s')"
  shows "cb_pending s' = cb_pending s \<and> cb_buf s' = cb_buf s \<and> cb_flushers s' = cb_flushers s \<and>
    cb_received s' = cb_received s \<and> cb_droppedFull s' = cb_droppedFull s \<and> cb_valid s' = cb_valid s \<and>
    cb_rejected s' + cb_droppedAuth s' = cb_rejected s + cb_droppedAuth s + of_bool (md = None)"
  using assms
  by (auto simp: carbon_line_def Let_def split: if_splits sum.splits prod.splits)

lemma carbon_tick_kept:
  assumes "carbon_tick env buf s = Returns (e, buf', s')"
  shows "cb_pending s' = cb_pending s \<and> cb_buf s' = cb_buf s \<and> cb_flushers s' = cb_flushers s \<and>
    cb_received s' = cb_received s \<and> cb_droppedFull s' = cb_droppedFull s \<and>
    cb_rejected s' = cb_rejected s \<and> cb_droppedAuth s' = cb_droppedAuth s"
  using assms unfolding carbon_tick_def
  by (auto split: option.splits prod.splits gate_error.splits if_splits)

section \<open>No line is lost or duplicated before a flusher takes it\<close>

lemma held_lines_pending:
  assumes "c < length (cb_pending s)"
  shows "held_lines (s\<lparr>cb_pending := (cb_pending s)[c := v]\<rparr>) + mset_set (set_option (cb_pending s ! c)) =
    held_lines s + mset_set (set_option v)"
  using sum_list_map_update [OF assms, of "\<lambda>p. mset_set (set_option p)" v] by (simp add: held_lines_def ac_simps)

lemma held_lines_cong: "cb_pending s' = cb_pending s \<Longrightarrow> cb_buf s' = cb_buf s \<Longrightarrow> held_lines s' = held_lines s"
  by (simp add: held_lines_def)

lemma carbon_step_lines:
  assumes "carbon_step env s e s'"
  shows "held_lines s' + ev_dropped e + ev_taken e = held_lines s + ev_in e"
  using assms
proof (cases rule: carbon_step.cases)
  case (dispatch c b)
  then show ?thesis using held_lines_pending [of c s "Some b"] by (simp add: held_lines_def)
next
  case (enqueue c b)
  then show ?thesis using held_lines_pending [of c s None] by (simp add: held_lines_def ac_simps)
next
  case (dropFull c b)
  then show ?thesis using held_lines_pending [of c s None] by (simp add: held_lines_def)
next
  case (recv f buf b rest authp md s1)
  then show ?thesis using carbon_line_kept [OF recv(7)] by (simp add: held_lines_def)
next
  case (tick f buf err buf' s1)
  then show ?thesis using carbon_tick_kept [OF tick(5)] by (simp add: held_lines_def)
qed (simp_all add: held_lines_def)

lemma carbon_run_lines:
  "carbon_run env s es s' \<Longrightarrow> in_events ev_in es + held_lines s = in_events ev_dropped es + in_events ev_taken es + held_lines s'"
proof (induction rule: carbon_runs.trace_induct)
  case (event es s' e s'')
  have "in_events ev_in (es @ [e]) + held_lines s = in_events ev_dropped es + in_events ev_taken es + (held_lines s' + ev_in e)"
    using event.IH by (simp add: ac_simps)
  then show ?case unfolding carbon_step_lines [OF event.hyps(2), symmetric] by (simp add: ac_simps)
qed simp

lemma sum_list_replicate_empty [simp]: "sum_list (replicate n {#}) = {#}"
  by (induction n) simp_all

lemma held_lines_init: "held_lines (init_carbon connections concurrency au p) = {#}"
  by (simp add: held_lines_def init_carbon_def)

lemma held_metrics_init: "held_metrics (init_carbon connections concurrency au p) = {#}"
  by (simp add: held_metrics_def init_carbon_def)

lemma taken_split: "size (in_events ev_taken es) = size (in_events ev_refused es) + size (in_events ev_parsed es)"
proof -
  have "size (ev_taken e) = size (ev_refused e) + size (ev_parsed e)" for e
    by (cases e rule: ev_parsed.cases) auto
  then show ?thesis by (induction es) (auto simp: in_events_def)
qed

section \<open>The counters count events\<close>

definition counted :: "'s carbon \<Rightarrow> carbon_event list \<Rightarrow> 's carbon \<Rightarrow> bool" where
  "counted s es s' \<longleftrightarrow>
     cb_received s' = cb_received s + of_nat (size (in_events ev_in es)) \<and>
     cb_droppedFull s' = cb_droppedFull s + of_nat (size (in_events ev_dropped es)) \<and>
     cb_rejected s' + cb_droppedAuth s' = cb_rejected s + cb_droppedAuth s + of_nat (size (in_events ev_refused es)) \<and>
     cb_valid s' = cb_valid s + of_nat (size (in_events ev_published es))"

lemma counted_snoc: "counted s es s' \<Longrightarrow> counted s' [e] s'' \<Longrightarrow> counted s (es @ [e]) s''"
  by (simp add: counted_def ac_simps)

context publisher
begin

lemma gate_length: "gate_Publish pub orgs ms s cv = Some (None, ms', s', cv') \<Longrightarrow> length ms' = length ms"
  by (auto simp: gate_Publish_def dest: count_org_kept(3) split: if_splits option.splits prod.splits sum.splits)

end

text \<open>Runs in which no call of the publisher fails in a way that is not \<open>fine\<close>.\<close>

fun fine_event :: "(publish_error option \<Rightarrow> bool) \<Rightarrow> carbon_event \<Rightarrow> bool" where
  "fine_event fine (Ticked buf e) = fine e" | "fine_event fine _ = True"

lemma fine_event_any [simp]: "fine_event (\<lambda>e. True) x"
  by (cases x) simp_all

text \<open>A publisher that gives back what \<open>kept\<close> sees of its metrics, unless it fails in a way that is not \<open>fine\<close>.\<close>

locale keeping_publisher = publisher pub
  for pub :: "'s publish_fun" +
  fixes kept :: "MetricData \<Rightarrow> 'k"
    and fine :: "publish_error option \<Rightarrow> bool"
  assumes keeps: "pub ms s = Some (e, ms', s') \<Longrightarrow> fine e \<Longrightarrow> map kept ms' = map kept ms"
begin

lemma carbon_step_counted:
  assumes "carbon_step env s e s'" and "ce_pub env = pub"
  shows "counted s [e] s'"
  using assms(1)
proof (cases rule: carbon_step.cases)
  case (recv f buf b rest authp md s1)
  then show ?thesis using carbon_line_kept [OF recv(7)] by (cases md) (simp_all add: counted_def in_events_def)
next
  case (tick f buf err buf' s1)
  have "cb_valid s1 = cb_valid s + of_nat (size (ev_published (Ticked buf err)))"
    using tick(5) unfolding carbon_tick_def assms(2)
    by (auto dest!: gate_length split: option.splits prod.splits gate_error.splits if_splits)
  then show ?thesis using tick carbon_tick_kept [OF tick(5)] by (simp add: counted_def in_events_def)
qed (simp_all add: counted_def in_events_def)

lemma carbon_run_counted: "carbon_run env s es s' \<Longrightarrow> ce_pub env = pub \<Longrightarrow> counted s es s'"
proof (induction rule: carbon_runs.trace_induct)
  case (event es s' e s'')
  then show ?case using counted_snoc carbon_step_counted by blast
qed (simp add: counted_def)

lemma carbon_tick_metrics:
  assumes "carbon_tick env buf s = Returns (e, buf', s')" and "ce_pub env = pub" and "fine e"
  shows "image_mset kept (mset buf' + ev_published (Ticked buf e)) = image_mset kept (mset buf)"
proof (cases e)
  case None
  then show ?thesis using assms(1) unfolding carbon_tick_def
    by (auto split: option.splits prod.splits gate_error.splits if_splits)
next
  case (Some err)
  then have "\<exists>p s1. pub buf p = Some (Some err, buf', s1)"
    using assms(1,2) unfolding carbon_tick_def gate_Publish_def
    by (auto split: option.splits prod.splits gate_error.splits if_splits sum.splits)
  then have "map kept buf' = map kept buf" using keeps assms(3) Some by blast
  then show ?thesis using Some by (simp flip: mset_map)
qed

lemma carbon_step_metrics:
  assumes "carbon_step env s e s'" and "ce_pub env = pub" and "fine_event fine e"
  shows "image_mset kept (held_metrics s' + ev_published e + ev_lost e) = image_mset kept (held_metrics s + ev_parsed e)"
  using assms(1)
proof (cases rule: carbon_step.cases)
  case (recv f buf b rest authp md s1)
  have "held_metrics s' + mset buf = held_metrics s + mset buf + ev_parsed e"
    using held_metrics_update [of f s buf s1] recv carbon_line_kept [OF recv(7)] by (cases md) (simp_all add: ac_simps)
  then show ?thesis using recv by (cases md) simp_all
next
  case (tick f buf err buf' s1)
  have "held_metrics s' + mset buf = held_metrics s + mset buf'"
    using held_metrics_update [of f s buf s1] tick carbon_tick_kept [OF tick(5)] by simp
  then have "image_mset kept (held_metrics s') + image_mset kept (mset buf) = image_mset kept (held_metrics s) + image_mset kept (mset buf')"
    by (metis image_mset_union)
  moreover have "image_mset kept (mset buf) = image_mset kept (mset buf') + image_mset kept (ev_published e)"
    using carbon_tick_metrics [OF tick(5) assms(2)] assms(3) tick by simp
  ultimately have "image_mset kept (held_metrics s' + ev_published e) + image_mset kept (mset buf') =
      image_mset kept (held_metrics s) + image_mset kept (mset buf')"
    by (simp add: ac_simps)
  then show ?thesis using tick by simp
next
  case (finish f buf)
  then show ?thesis using held_metrics_update [of f s buf s None] by simp
qed (simp_all add: held_metrics_def)

lemma carbon_run_metrics:
  "carbon_run env s es s' \<Longrightarrow> ce_pub env = pub \<Longrightarrow> list_all (fine_event fine) es \<Longrightarrow>
   image_mset kept (in_events ev_parsed es + held_metrics s) =
   image_mset kept (in_events ev_published es + in_events ev_lost es + held_metrics s')"
proof (induction rule: carbon_runs.trace_induct)
  case (event es s' e s'')
  then show ?case using carbon_step_metrics [OF event.hyps(2)] by (simp add: ac_simps)
qed simp

end

lemma publish_metrics_length:
  "publish_metrics fl mm jh mp xs b = Some (e, ms, b') \<Longrightarrow> length ms = length xs"
proof (induction xs arbitrary: b ms)
  case (Cons x xs)
  then show ?case by (auto split: option.splits sum.splits prod.splits)
qed simp

lemma Publish_length: "Publish fl mm jh send producer mp ms ks = Some (e, ms', ks') \<Longrightarrow> length ms' = length ms"
  by (auto simp: Publish_def Let_def dest: publish_metrics_length split: if_splits option.splits prod.splits)

text \<open>Kafka gives back as many metrics as it was given, and their points unless it fails before sending.\<close>

interpretation null_points: keeping_publisher nullPublisher_Publish metric_point "\<lambda>e. True"
  by unfold_locales (simp add: nullPublisher_Publish_def)

interpretation kafka_number: keeping_publisher "\<lambda>ms ks. Publish fl mm jh send producer mp ms ks" "\<lambda>m. ()" "\<lambda>e. True"
  for fl mm jh send producer mp
  by unfold_locales (auto dest!: Publish_length intro: map_equality_iff [THEN iffD2])

interpretation kafka_points: keeping_publisher "\<lambda>ms ks. Publish fl mm jh send producer mp ms ks" metric_point sent_or_not
  for fl mm jh send producer mp
  by unfold_locales (rule Publish_points)

section \<open>Where the metrics come from\<close>

text \<open>
  The metric of a line, with the file plugin: the key in front of the first dot is that of a user who may publish, and
  the rest of the line is parsed for the user's organisation.
\<close>

abbreviation file_auth :: "string \<Rightarrow> FileAuth \<Rightarrow> auth_state plugin" where
  "file_auth adminKey a \<equiv> \<lambda>u k s. (FileAuth_Auth adminKey a u k (au_heap s), s)"

definition metric_of_line :: "('s, 'z) carbon_env_scheme \<Rightarrow> string \<Rightarrow> FileAuth \<Rightarrow> user_heap \<Rightarrow> string \<Rightarrow> MetricData \<Rightarrow> bool" where
  "metric_of_line env adminKey a h b m \<longleftrightarrow>
     (\<exists>p. FileAuth_Auth adminKey a ''api_key'' (splitn2 CHR ''.'' b ! 0) h = Inr p \<and>
       (ce_requirePublisher env \<longrightarrow> IsPublisher (us_Role (hp_users h p))) \<and>
       parseMetric (ce_parseFloat env) (splitn2 CHR ''.'' b ! 1) (us_ID (hp_users h p)) = Inr m)"

lemma carbon_line_file:
  assumes "carbon_line env (file_auth adminKey a) b s = Returns (md, s')"
  shows "cb_auth s' = cb_auth s" and "md = Some m \<Longrightarrow> metric_of_line env adminKey a (au_heap (cb_auth s)) b m"
  using assms
  by (auto simp: carbon_line_def metric_of_line_def Let_def split: if_splits sum.splits)

lemma carbon_step_file:
  assumes "carbon_step env s e s'" and "ce_plugins env = {file_auth adminKey a}"
  shows "cb_auth s' = cb_auth s" and "e = Taken b (Some m) \<Longrightarrow> metric_of_line env adminKey a (au_heap (cb_auth s)) b m"
proof -
  show "cb_auth s' = cb_auth s"
    using assms(1)
  proof (cases rule: carbon_step.cases)
    case (recv f buf b rest authp md s1)
    then show ?thesis using carbon_line_file(1) [of env adminKey a b] assms(2) by fastforce
  next
    case (tick f buf err buf' s1)
    then show ?thesis unfolding carbon_tick_def
      by (auto split: option.splits prod.splits gate_error.splits if_splits)
  qed simp_all
  show "metric_of_line env adminKey a (au_heap (cb_auth s)) b m" if "e = Taken b (Some m)"
    using assms(1) unfolding that
    by (rule carbon_takeE) (use assms(2) carbon_line_file(2) in fastforce)
qed

lemma carbon_run_file:
  "carbon_run env s es s' \<Longrightarrow> ce_plugins env = {file_auth adminKey a} \<Longrightarrow>
   cb_auth s' = cb_auth s \<and> (\<forall>b m. Taken b (Some m) \<in> set es \<longrightarrow> metric_of_line env adminKey a (au_heap (cb_auth s)) b m)"
proof (induction rule: carbon_runs.trace_induct)
  case (event es s' e s'')
  then show ?case using carbon_step_file [OF event.hyps(2)] by auto
qed simp

text \<open>
  With the file plugin, and a publisher that fails only in sending if at all, every metric that a flusher published, holds
  or lost is that of a line that was taken, each line once, for the organisation of the line's key.
\<close>

lemma carbon_points_of_their_key:
  assumes "carbon_run env (init_carbon connections concurrency au ks) es s"
    and "ce_pub env = (\<lambda>ms ks. Publish fl marshalMsg jumpHash send producer mp ms ks)"
    and "ce_plugins env = {file_auth adminKey a}" and "list_all (fine_event sent_or_not) es"
  shows "image_mset metric_point (in_events ev_parsed es) =
      image_mset metric_point (in_events ev_published es + in_events ev_lost es + held_metrics s) \<and>
    (\<forall>b m. Taken b (Some m) \<in> set es \<longrightarrow> metric_of_line env adminKey a (au_heap au) b m)"
proof -
  have "cb_auth (init_carbon connections concurrency au ks) = au" by (simp add: init_carbon_def)
  then show ?thesis
    using kafka_points.carbon_run_metrics [OF assms(1,2,4)] carbon_run_file [OF assms(1,3)] by (simp add: held_metrics_init)
qed

section \<open>Properties\<close>

text \<open>
  A carbon line is read back as it was written: from a name without semicolon, tags that contain an equals
  sign but not in front, a value and a 32 bit timestamp, written as \<^verbatim>\<open>name;tag;...;tag value timestamp\<close> with
  no white space inside the parts, \<^verbatim>\<open>parseMetric\<close> gives the metric with that name, value and time, those
  tags, the organisation it is told, no interval, and an identifier computed from them.
\<close>

theorem carbon_line_read_back:
  assumes "name \<noteq> []" and "val \<noteq> []" and "\<forall>x \<in> set (name @ concat tags @ val). no_space x"
    and "CHR '';'' \<notin> set name" and "\<forall>t \<in> set tags. CHR '';'' \<notin> set t \<and> \<not> bad_tag t"
    and "parseFloat val = Some v" and "n < 2 ^ 32"
  shows "parseMetric parseFloat (join_with CHR '';'' (name # tags) @ CHR '' '' # val @ CHR '' '' # nat_digits n) org =
    Inr (SetId \<lparr>md_Id = [], md_OrgId = org, md_Name = name, md_Interval = 0, md_Value = v,
      md_Unit = ''unknown'', md_Time = int n, md_Mtype = ''gauge'', md_Tags = tags\<rparr>)"
  using assms nat_digits_no_space parse_uint_nat_digits [OF assms(7)] by (intro parseMetric_line) auto

theorem carbon_line_read_back_witness:
  "parseMetric (\<lambda>s. if s = ''1.5'' then Some 7 else None) ''a.b;x=1 1.5 10'' 3 =
    Inr (SetId \<lparr>md_Id = [], md_OrgId = 3, md_Name = ''a.b'', md_Interval = 0, md_Value = 7,
      md_Unit = ''unknown'', md_Time = 10, md_Mtype = ''gauge'', md_Tags = [''x=1'']\<rparr>)"
proof -
  have "nat_digits 10 = ''10''"
    by (simp add: nat_digits.simps digit_char_def char_of_def bit_iff_odd)
  then show ?thesis
    using carbon_line_read_back [of "''a.b''" "''1.5''" "[''x=1'']" "\<lambda>s. if s = ''1.5'' then Some 7 else None" 7 10 3]
    by (simp add: no_space_def space_runes_def bad_tag_def)
qed

text \<open>
  C28. Every line is accounted for, in every interleaving of connections, flushers, ticks and shutdown, with
  Kafka behind the gate. As multisets, the lines that came in are those dropped for a full buffer, those the
  flushers took, and those on their way in a connection or on the channel: none is lost or taken twice.
  Of the lines taken, each was refused, or its metric was published once, or is in the batch of a flusher, or was in
  the batch of a flusher that has returned, which is then never published. The counters count just these
  events, modulo 2 to the 32.
\<close>

theorem carbon_accounts_for_every_line:
  assumes "carbon_run env (init_carbon connections concurrency au ks) es s"
    and "ce_pub env = (\<lambda>ms ks. Publish fl marshalMsg jumpHash send producer mp ms ks)"
  shows "in_events ev_in es = in_events ev_dropped es + in_events ev_taken es + held_lines s \<and>
    size (in_events ev_taken es) = size (in_events ev_refused es) + size (in_events ev_published es) +
      size (in_events ev_lost es) + size (held_metrics s) \<and>
    cb_received s = of_nat (size (in_events ev_in es)) \<and> cb_droppedFull s = of_nat (size (in_events ev_dropped es)) \<and>
    cb_rejected s + cb_droppedAuth s = of_nat (size (in_events ev_refused es)) \<and>
    cb_valid s = of_nat (size (in_events ev_published es))"
proof -
  have "list_all (fine_event (\<lambda>e. True)) es" by (simp add: list_all_iff)
  from kafka_number.carbon_run_metrics [OF assms this]
  have "size (in_events ev_parsed es + held_metrics (init_carbon connections concurrency au ks)) =
      size (in_events ev_published es + in_events ev_lost es + held_metrics s)"
    by (metis size_image_mset)
  then have "size (in_events ev_parsed es) = size (in_events ev_published es) + size (in_events ev_lost es) + size (held_metrics s)"
    by (simp add: held_metrics_init)
  moreover have "size (in_events ev_taken es) = size (in_events ev_refused es) + size (in_events ev_parsed es)"
    by (rule taken_split)
  moreover have "counted (init_carbon connections concurrency au ks) es s"
    by (rule kafka_number.carbon_run_counted [OF assms])
  moreover have "in_events ev_in es = in_events ev_dropped es + in_events ev_taken es + held_lines s"
    using carbon_run_lines [OF assms(1)] by (simp add: held_lines_init)
  ultimately show ?thesis unfolding counted_def init_carbon_def by auto
qed

text \<open>One line is dispatched, put on the channel and taken by the flusher.\<close>

definition sample_env :: "kstate carbon_env" where
  "sample_env = \<lparr>ce_bufferSize = 10, ce_nonBlocking = True, ce_requirePublisher = True,
     ce_plugins = {file_auth ''secret'' \<lparr>fa_keys = [''k'' \<mapsto> 1], fa_instanceMap = Map.empty\<rparr>},
     ce_parseFloat = (\<lambda>_. Some 0),
     ce_pub = (\<lambda>ms ks. Publish sample_flags (\<lambda>m. Some []) (\<lambda>s n. 0) (\<lambda>msgs. None) True sample_publisher ms ks),
     ce_orgs = (\<lambda>ms. remdups (map md_OrgId ms))\<rparr>"

definition one_user :: auth_state where
  "one_user = sample_auth\<lparr>au_heap := snd (alloc \<lparr>us_ID = 9, us_IsAdmin = False, us_Role = ROLE_EDITOR\<rparr> init_heap)\<rparr>"

lemma sample_line:
  "\<exists>s. carbon_run sample_env (init_carbon 1 1 one_user sample_kstate)
      [Dispatched ''k.m 1 1'', Enqueued ''k.m 1 1'', Taken ''k.m 1 1'' (Some (SetId \<lparr>md_Id = [], md_OrgId = 9, md_Name = ''m'',
         md_Interval = 0, md_Value = 0, md_Unit = ''unknown'', md_Time = 1, md_Mtype = ''gauge'', md_Tags = []\<rparr>))] s \<and>
    cb_flushers s = [Some [SetId \<lparr>md_Id = [], md_OrgId = 9, md_Name = ''m'', md_Interval = 0, md_Value = 0, md_Unit = ''unknown'',
         md_Time = 1, md_Mtype = ''gauge'', md_Tags = []\<rparr>]] \<and> cb_pub s = sample_kstate"
  (is "\<exists>s. carbon_run _ ?s0 [_, _, Taken _ (Some ?m)] s \<and> _")
proof -
  let ?b = "''k.m 1 1''"
  let ?s1 = "?s0\<lparr>cb_received := cb_received ?s0 + 1, cb_pending := (cb_pending ?s0)[0 := Some ?b]\<rparr>"
  let ?s2 = "?s1\<lparr>cb_buf := cb_buf ?s1 @ [?b], cb_pending := (cb_pending ?s1)[0 := None]\<rparr>"
  have 1: "carbon_step sample_env ?s0 (Dispatched ?b) ?s1" by (rule carbon_step.dispatch) (simp_all add: init_carbon_def)
  have 2: "carbon_step sample_env ?s1 (Enqueued ?b) ?s2" by (rule carbon_step.enqueue) (simp_all add: init_carbon_def sample_env_def)
  have "parse_uint 32 ''1'' = Inr 1" by (simp add: parse_uint_def digit_val_def)
  then have "parseMetric (\<lambda>_. Some 0) ''m 1 1'' 9 = Inr ?m"
    using parseMetric_line [of "''m''" "''1''" "[]" "''1''" "\<lambda>_. Some 0" 0 1 9] by (simp add: no_space_def space_runes_def)
  moreover have "splitn2 CHR ''.'' ?b = [''k'', ''m 1 1'']" "ValidatePacket (\<lambda>_. Some 0) ?b MediumLegacy NoneM20 = Inr (''k.m'', 0, 0)" by code_simp+
  ultimately obtain s3 where line: "carbon_line sample_env (file_auth ''secret'' \<lparr>fa_keys = [''k'' \<mapsto> 1], fa_instanceMap = Map.empty\<rparr>)
      ?b (?s2\<lparr>cb_buf := []\<rparr>) = Returns (Some ?m, s3)" and s3: "cb_flushers s3 = [Some []]" "cb_pub s3 = sample_kstate"
    by (simp add: carbon_line_def sample_env_def init_carbon_def one_user_def alloc_def init_heap_def FileAuth_Auth_def IsPublisher_def Let_def)
  have "carbon_step sample_env ?s2 (Taken ?b (Some ?m)) (s3\<lparr>cb_flushers := [Some [?m]]\<rparr>)"
    using carbon_step.recv [of 0 ?s2 "[]" ?b "[]" _ sample_env "Some ?m" s3] line s3 by (simp add: init_carbon_def sample_env_def)
  with 1 2 have "carbon_run sample_env ?s0 [Dispatched ?b, Enqueued ?b, Taken ?b (Some ?m)] (s3\<lparr>cb_flushers := [Some [?m]]\<rparr>)"
    unfolding carbon_runs.trace_Cons carbon_runs.trace_Nil by blast
  then show ?thesis using s3 by auto
qed

theorem carbon_accounts_for_every_line_witness:
  "\<exists>es s. carbon_run sample_env (init_carbon 1 1 one_user sample_kstate) es s \<and> in_events ev_in es = {#''k.m 1 1''#} \<and>
    in_events ev_in es = in_events ev_dropped es + in_events ev_taken es + held_lines s \<and> cb_received s = 1 \<and>
    size (in_events ev_taken es) = size (in_events ev_refused es) + size (in_events ev_published es) +
      size (in_events ev_lost es) + size (held_metrics s)"
proof -
  obtain s m where run: "carbon_run sample_env (init_carbon 1 1 one_user sample_kstate)
      [Dispatched ''k.m 1 1'', Enqueued ''k.m 1 1'', Taken ''k.m 1 1'' (Some m)] s"
    using sample_line by blast
  have pub: "ce_pub sample_env =
      (\<lambda>ms ks. Publish sample_flags (\<lambda>m. Some []) (\<lambda>s n. 0) (\<lambda>msgs. None) True sample_publisher ms ks)"
    by (simp add: sample_env_def)
  show ?thesis
    using carbon_accounts_for_every_line [OF run pub] run by (intro exI conjI) (auto simp: in_events_def)
qed

end
