(* ===== verification/CarbonInput.thy ===== *)
theory CarbonInput
  imports Carbon
begin

text \<open>
  Where the lines of the carbon input come from: \<^verbatim>\<open>ingest/carbon/listener.go\<close> and the handler of the vendored
  \<^verbatim>\<open>carbon-relay-ng/input/plain.go\<close>, which reads a connection or a packet with a \<^verbatim>\<open>bufio.Scanner\<close> and dispatches
  what it scans.

  \<^item> A connection is what could be read of it, and the error that ended the reading, if it was not the end of
    the stream. However the bytes arrive, the scanner makes the same lines of them.
  \<^item> A line and its newline have to fit into the buffer of the scanner, which grows to 64 KiB.
  \<^item> What is left when the reading ends, for whatever reason, is the last line.
\<close>

section \<open>Scanning\<close>

definition maxTokenSize :: nat where
  "maxTokenSize = 64 * 1024"

definition newline :: char where
  "newline = CHR 0x0A"

definition dropCR :: "string \<Rightarrow> string" where
  "dropCR s = (if s \<noteq> [] \<and> last s = CHR 0x0D then butlast s else s)"

text \<open>The lines, and whether the scanner stopped at one that is too long.\<close>

function scan_lines :: "string \<Rightarrow> string list \<times> bool" where
  "scan_lines s =
     (if s = [] then ([], False)
      else
        let l = takeWhile (\<lambda>c. c \<noteq> newline) s
        in if maxTokenSize \<le> length l then ([], True)
           else if newline \<notin> set s then ([dropCR l], False)
           else
             let (ls, long) = scan_lines (drop (Suc (length l)) s)
             in (dropCR l # ls, long))"
  by pat_completeness auto

termination
  by (relation "measure length") auto

declare scan_lines.simps [simp del]

datatype scan_error = ErrTooLong | ErrRead

text \<open>\<^verbatim>\<open>Plain.Handle\<close>: the lines it dispatches, in order, and the error it returns.\<close>

definition plain_Handle :: "string \<times> bool \<Rightarrow> string list \<times> scan_error option" where
  "plain_Handle c =
     (let (data, failed) = c;
          (ls, long) = scan_lines data
      in (ls, if long then Some ErrTooLong else if failed then Some ErrRead else None))"

text \<open>
  \<^verbatim>\<open>Dispatch\<close> leaves out empty lines. \<^verbatim>\<open>handleConn\<close> counts the connection while it is handled: the gauge that each line
  sees, the lines, and the gauge afterwards.
\<close>

definition dispatched :: "string \<times> bool \<Rightarrow> string list" where
  "dispatched c = filter (\<lambda>l. l \<noteq> []) (fst (plain_Handle c))"

definition handleConn :: "string \<times> bool \<Rightarrow> uint32 \<Rightarrow> (uint32 \<times> string) list \<times> uint32" where
  "handleConn c carbonConnections =
     (let carbonConnections = carbonConnections + 1;
          seen = map (\<lambda>l. (carbonConnections, l)) (dispatched c)
      in (seen, carbonConnections - 1))"

section \<open>Lines\<close>

lemma scan_line:
  assumes "newline \<notin> set l" and "length l < maxTokenSize"
  shows "scan_lines (l @ newline # s) = (dropCR l # fst (scan_lines s), snd (scan_lines s))"
    and "l \<noteq> [] \<Longrightarrow> scan_lines l = ([dropCR l], False)"
proof -
  have "takeWhile (\<lambda>c. c \<noteq> newline) (l @ newline # s) = l" using assms(1) by (simp add: takeWhile_append2)
  then show "scan_lines (l @ newline # s) = (dropCR l # fst (scan_lines s), snd (scan_lines s))"
    using assms(2) by (subst scan_lines.simps) (simp add: Let_def split: prod.split)
  have all: "takeWhile (\<lambda>c. c \<noteq> newline) l = l" using assms(1) by (auto simp: takeWhile_eq_all_conv)
  show "l \<noteq> [] \<Longrightarrow> scan_lines l = ([dropCR l], False)"
    using assms by (simp add: scan_lines.simps [of l] all)
qed

lemma scan_complete:
  assumes "\<forall>l \<in> set ls. newline \<notin> set l \<and> length l < maxTokenSize"
  shows "scan_lines (concat (map (\<lambda>l. l @ [newline]) ls) @ s) = (map dropCR ls @ fst (scan_lines s), snd (scan_lines s))"
  using assms by (induction ls) (simp_all add: scan_line(1))

text \<open>Cutting digits off a number is dividing it by a power of ten.\<close>

lemma take_nat_digits:
  "10 ^ m \<le> n \<Longrightarrow> \<exists>ds. nat_digits n = nat_digits (n div 10 ^ m) @ ds \<and> length ds = m"
proof (induction m arbitrary: n)
  case (Suc m)
  have "10 ^ m \<le> n div 10" using Suc.prems by (simp add: less_eq_div_iff_mult_less_eq mult.commute)
  from Suc.IH [OF this] obtain ds where ds: "nat_digits (n div 10) = nat_digits (n div 10 div 10 ^ m) @ ds" "length ds = m" by blast
  have "10 \<le> n" using Suc.prems order.trans [of 10 "10 ^ Suc m" n] by simp
  then have "nat_digits n = nat_digits (n div 10) @ [digit_char (n mod 10)]" by (subst nat_digits.simps) simp
  then have "nat_digits n = nat_digits (n div 10 ^ Suc m) @ (ds @ [digit_char (n mod 10)])"
    using ds(1) by (simp add: div_mult2_eq)
  then show ?case using ds(2) by (metis length_append_singleton)
qed simp

section \<open>Points on a connection\<close>

text \<open>A line as clients send it: the key, the name with its tags, the value, and the digits of the time.\<close>

definition point_line :: "string \<Rightarrow> string \<Rightarrow> string list \<Rightarrow> string \<Rightarrow> string \<Rightarrow> string" where
  "point_line key name tags val ts = key @ CHR ''.'' # join_with CHR '';'' (name # tags) @ CHR '' '' # val @ CHR '' '' # ts"

definition plain_point :: "string \<Rightarrow> string \<Rightarrow> string list \<Rightarrow> string \<Rightarrow> bool" where
  "plain_point key name tags val \<longleftrightarrow>
     name \<noteq> [] \<and> val \<noteq> [] \<and> (\<forall>x \<in> set (key @ name @ concat tags @ val). no_space x) \<and> CHR ''.'' \<notin> set key \<and>
     CHR '';'' \<notin> set name \<and> (\<forall>t \<in> set tags. CHR '';'' \<notin> set t \<and> \<not> bad_tag t)"

lemma point_line_append: "point_line key name tags val (ts @ us) = point_line key name tags val ts @ us"
  by (simp add: point_line_def)

lemma no_space_newline: "\<not> no_space newline"
  by (simp add: no_space_def space_runes_def newline_def)

lemma point_line_clean:
  assumes "plain_point key name tags val" and "\<forall>x \<in> set ts. no_space x" and "ts \<noteq> []"
  shows "newline \<notin> set (point_line key name tags val ts)" and "dropCR (point_line key name tags val ts) = point_line key name tags val ts"
    and "point_line key name tags val ts \<noteq> []"
proof -
  have "set (join_with CHR '';'' (name # tags)) \<subseteq> insert CHR '';'' (set (name @ concat tags))"
    by (induction "CHR '';''" "name # tags" arbitrary: name tags rule: join_with.induct) auto
  then have "newline \<notin> set (join_with CHR '';'' (name # tags))"
    using assms(1) no_space_newline by (auto simp: plain_point_def newline_def)
  then show "newline \<notin> set (point_line key name tags val ts)"
    using assms no_space_newline by (auto simp: point_line_def plain_point_def newline_def)
  have "no_space (last ts)" using assms(2,3) by simp
  then have "last ts \<noteq> CHR 0x0D" by (auto simp: no_space_def space_runes_def)
  then show "dropCR (point_line key name tags val ts) = point_line key name tags val ts"
    using assms(3) by (simp add: dropCR_def point_line_def)
qed (simp add: point_line_def)

section \<open>Properties\<close>

text \<open>
  C26. A connection that breaks off ingests a wrong point: when the sender of complete lines and one more is cut off
  inside the time of the last line, the lines before it are dispatched, and so is the rest of the last line, which
  parses, with the same key, as the same metric at the time that its first digits are.
\<close>

theorem truncated_line_is_ingested:
  assumes "plain_point key name tags val" and "parseFloat val = Some v" and "10 ^ m \<le> n" and "n < 2 ^ 32"
    and "length (point_line key name tags val (nat_digits n)) < maxTokenSize"
    and "\<forall>l \<in> set ls. l \<noteq> [] \<and> newline \<notin> set l \<and> length l < maxTokenSize \<and> last l \<noteq> CHR 0x0D"
  shows "\<exists>l. dispatched (concat (map (\<lambda>l. l @ [newline]) ls) @
        take (length (point_line key name tags val (nat_digits n)) - m) (point_line key name tags val (nat_digits n)), True) = ls @ [l] \<and>
    splitn2 CHR ''.'' l ! 0 = key \<and>
    parseMetric parseFloat (splitn2 CHR ''.'' l ! 1) org =
      Inr (SetId \<lparr>md_Id = [], md_OrgId = org, md_Name = name, md_Interval = 0, md_Value = v,
        md_Unit = ''unknown'', md_Time = int (n div 10 ^ m), md_Mtype = ''gauge'', md_Tags = tags\<rparr>)"
proof -
  let ?ts = "nat_digits (n div 10 ^ m)"
  let ?l = "point_line key name tags val ?ts"
  obtain ds where ds: "nat_digits n = ?ts @ ds" "length ds = m" using take_nat_digits [OF assms(3)] by blast
  have cut: "take (length (point_line key name tags val (nat_digits n)) - m) (point_line key name tags val (nat_digits n)) = ?l"
    unfolding ds(1) point_line_append by (simp flip: ds(2))
  have digits: "\<forall>x \<in> set ?ts. no_space x" using nat_digits_no_space by blast
  note clean = point_line_clean [OF assms(1) digits nat_digits_not_Nil]
  have "length ?l < maxTokenSize" using assms(5) unfolding ds(1) point_line_append by simp
  then have last: "scan_lines ?l = ([?l], False)" using scan_line(2) [OF clean(1) _ clean(3)] clean(2) by simp
  have "map dropCR ls = ls" using assms(6) by (auto simp: dropCR_def intro!: map_idI)
  then have "dispatched (concat (map (\<lambda>l. l @ [newline]) ls) @ ?l, True) = ls @ [?l]"
    using scan_complete [of ls ?l] assms(6) last clean(3) by (simp add: dispatched_def plain_Handle_def filter_id_conv)
  moreover have "splitn2 CHR ''.'' ?l = [key, join_with CHR '';'' (name # tags) @ CHR '' '' # val @ CHR '' '' # ?ts]"
    using assms(1) unfolding point_line_def plain_point_def by (intro splitn2_append) simp
  moreover have "n div 10 ^ m < 2 ^ 32" using assms(4) div_le_dividend order.strict_trans1 by blast
  from parse_uint_nat_digits [OF this]
  have "parseMetric parseFloat (join_with CHR '';'' (name # tags) @ CHR '' '' # val @ CHR '' '' # ?ts) org =
      Inr (SetId \<lparr>md_Id = [], md_OrgId = org, md_Name = name, md_Interval = 0, md_Value = v,
        md_Unit = ''unknown'', md_Time = int (n div 10 ^ m), md_Mtype = ''gauge'', md_Tags = tags\<rparr>)"
    using assms(1,2) digits by (intro parseMetric_line) (auto simp: plain_point_def)
  ultimately show ?thesis unfolding cut by auto
qed

theorem truncated_line_is_ingested_witness:
  "\<exists>l. dispatched (''k.a 1 2'' @ [newline] @ ''k.a 1 15'', True) = [''k.a 1 2'', l] \<and>
    parseMetric (\<lambda>s. Some 7) (splitn2 CHR ''.'' l ! 1) 3 =
      Inr (SetId \<lparr>md_Id = [], md_OrgId = 3, md_Name = ''a'', md_Interval = 0, md_Value = 7,
        md_Unit = ''unknown'', md_Time = 15, md_Mtype = ''gauge'', md_Tags = []\<rparr>)"
proof -
  have n: "nat_digits 1500 = ''1500''" by (simp add: nat_digits.simps digit_char_def char_of_def bit_iff_odd)
  have "plain_point ''k'' ''a'' [] ''1''" by (simp add: plain_point_def no_space_def space_runes_def)
  note truncated = truncated_line_is_ingested [OF this, of "\<lambda>s. Some 7" 7 2 1500 "[''k.a 1 2'']" 3]
  have line: "point_line ''k'' ''a'' [] ''1'' (nat_digits 1500) = ''k.a 1 1500''" by (simp add: n point_line_def)
  have "take (length ''k.a 1 1500'' - 2) ''k.a 1 1500'' = ''k.a 1 15''" by simp
  with truncated [unfolded line] show ?thesis by (auto simp: maxTokenSize_def newline_def)
qed

text \<open>The gauge of connections is as before when a connection has been handled, and the lines of complete streams are dispatched as sent.\<close>

lemma handleConn_lines:
  assumes "\<forall>l \<in> set ls. l \<noteq> [] \<and> newline \<notin> set l \<and> length l < maxTokenSize \<and> last l \<noteq> CHR 0x0D"
  shows "handleConn (concat (map (\<lambda>l. l @ [newline]) ls), failed) conns = (map (\<lambda>l. (conns + 1, l)) ls, conns)"
proof -
  have "map dropCR ls = ls" using assms by (auto simp: dropCR_def intro!: map_idI)
  then show ?thesis
    using scan_complete [of ls "[]"] assms
    by (simp add: handleConn_def dispatched_def plain_Handle_def scan_lines.simps [of "[]"] filter_id_conv Let_def)
qed

end
