(* ===== verification/CarbonKafka.thy ===== *)
theory CarbonKafka
  imports Carbon
begin

text \<open>
  The carbon input with the Kafka publisher behind it: the batches of the flushers are always such that \<^verbatim>\<open>Publish\<close> can
  encode and place them, so a tick hands Kafka one message per metric and topic, and fails only when sending does.
\<close>

section \<open>A publisher that takes carbon metrics\<close>

text \<open>
  Topics are set up, intervals are deduced from schemas with valid retentions, and the encoder never fails.
\<close>

definition takes_carbon ::
  "(MetricData \<Rightarrow> gobyte list option) \<Rightarrow> (string \<Rightarrow> int \<Rightarrow> int) \<Rightarrow> mtPublisher \<Rightarrow> StorageSchema list \<Rightarrow> bool" where
  "takes_carbon marshalMsg jumpHash mp raw \<longleftrightarrow>
     mt_topics mp \<noteq> [] \<and>
     (\<forall>t \<in> set (mt_topics mp). topic_ready jumpHash t \<and> 0 \<le> ts_rewrite_target t \<and> ts_rewrite_target t < 2 ^ 32) \<and>
     (\<forall>m. marshalMsg m \<noteq> None) \<and> mt_autoInterval mp \<and> mt_schemas mp = Some (NewSchemas raw) \<and>
     (\<forall>s \<in> set raw. Retentions_Validate (sch_Retentions s) = None)"

definition orgs_fit :: "user_heap \<Rightarrow> bool" where
  "orgs_fit h \<longleftrightarrow> (\<forall>p. 0 \<le> us_ID (hp_users h p) \<and> us_ID (hp_users h p) < 2 ^ 32)"

text \<open>A metric as carbon makes it, or as a publisher gives it back.\<close>

definition carbon_metric :: "MetricData \<Rightarrow> bool" where
  "carbon_metric m \<longleftrightarrow> normal m \<and> 0 \<le> md_OrgId m \<and> md_OrgId m < 2 ^ 32"

lemma deduced_carbon: "carbon_metric m \<Longrightarrow> carbon_metric (deduced raw m)"
  by (simp add: carbon_metric_def deduced_def)

lemma parseMetric_carbon:
  assumes "parseMetric parseFloat buf org = Inr m" and "0 \<le> org" and "org < 2 ^ 32"
  shows "carbon_metric m"
proof -
  obtain m0 where "m = SetId m0" and "md_OrgId m0 = org"
    using assms(1) by (auto simp: parseMetric_def Let_def split: if_splits option.splits sum.splits)
  then show ?thesis using assms(2,3) by (simp add: carbon_metric_def)
qed

lemma carbon_batch_ready:
  assumes "takes_carbon marshalMsg jumpHash mp raw" and "list_all carbon_metric buf" and "buf \<noteq> []" and "cache_ready fl (ks_keyCache ks)"
  shows "batch_ready fl marshalMsg jumpHash mp raw buf ks"
proof -
  have "interval_ready mp raw m \<and> metric_ready marshalMsg (mt_topics mp) (deduced raw m)" if "m \<in> set buf" for m
  proof -
    have "carbon_metric (deduced raw m)" using that assms(2) by (simp add: list_all_iff deduced_carbon)
    then show ?thesis
      using assms(1) by (auto simp: interval_ready_def metric_ready_def takes_carbon_def carbon_metric_def dest_org_def)
  qed
  then show ?thesis using assms by (simp add: batch_ready_def takes_carbon_def)
qed

section \<open>Ticks\<close>

text \<open>What a tick with a batch hands to the producer, and how it ends.\<close>

definition delivered ::
  "flags \<Rightarrow> (MetricData \<Rightarrow> gobyte list option) \<Rightarrow> (string \<Rightarrow> int \<Rightarrow> int) \<Rightarrow> (ProducerMessage list \<Rightarrow> send_error option)
    \<Rightarrow> mtPublisher \<Rightarrow> StorageSchema list \<Rightarrow> MetricData list \<Rightarrow> publish_error option \<Rightarrow> bool" where
  "delivered fl marshalMsg jumpHash send mp raw buf e \<longleftrightarrow>
     (\<exists>msgs. list_all2 (\<lambda>(m, t) msg. message_for fl marshalMsg jumpHash m t msg)
        (deliveries (mt_topics mp) (map (deduced raw) buf)) msgs \<and> e = map_option ErrSend (send msgs))"

lemma carbon_tick_delivers:
  assumes "carbon_tick env buf s = Returns (e, buf', s')"
    and "ce_pub env = (\<lambda>ms ks. Publish fl marshalMsg jumpHash send True mp ms ks)"
    and "takes_carbon marshalMsg jumpHash mp raw" and "list_all carbon_metric buf" and "cache_ready fl (ks_keyCache (cb_pub s))"
  shows "(if buf = [] then e = None else delivered fl marshalMsg jumpHash send mp raw buf e) \<and>
    list_all carbon_metric buf' \<and> cache_ready fl (ks_keyCache (cb_pub s'))"
proof (cases "buf = []")
  case True
  then show ?thesis using assms(1,5) by (auto simp: carbon_tick_def gate_Publish_def)
next
  case False
  obtain msgs ks' where msgs: "list_all2 (\<lambda>(m, t) msg. message_for fl marshalMsg jumpHash m t msg)
      (deliveries (mt_topics mp) (map (deduced raw) buf)) msgs"
    and pub: "Publish fl marshalMsg jumpHash send True mp buf (cb_pub s) =
      Some (map_option ErrSend (send msgs), map (deduced raw) buf, ks')" and kc: "cache_ready fl (ks_keyCache ks')"
    using Publish_batch_ready [OF carbon_batch_ready [OF assms(3,4) False assms(5)]] by blast
  have "e = map_option ErrSend (send msgs) \<and> buf' \<in> {[], map (deduced raw) buf} \<and> cb_pub s' = ks'"
    using assms(1) pub False unfolding carbon_tick_def gate_Publish_def assms(2)
    by (cases "send msgs") (auto split: sum.splits)
  moreover have "list_all carbon_metric (map (deduced raw) buf)"
    using assms(4) by (auto simp: list_all_iff deduced_carbon)
  ultimately show ?thesis using msgs kc False by (auto simp: delivered_def)
qed

section \<open>Runs\<close>

definition carbon_inv :: "flags \<Rightarrow> auth_state \<Rightarrow> kstate carbon \<Rightarrow> bool" where
  "carbon_inv fl au s \<longleftrightarrow>
     cache_ready fl (ks_keyCache (cb_pub s)) \<and> cb_auth s = au \<and>
     (\<forall>buf. Some buf \<in> set (cb_flushers s) \<longrightarrow> list_all carbon_metric buf)"

lemma carbon_inv_flusher:
  assumes "carbon_inv fl au s" and "cb_flushers s1 = cb_flushers s" and "cb_auth s1 = au"
    and "cache_ready fl (ks_keyCache (cb_pub s1))" and "\<And>buf. v = Some buf \<Longrightarrow> list_all carbon_metric buf"
  shows "carbon_inv fl au (s1\<lparr>cb_flushers := (cb_flushers s1)[f := v]\<rparr>)"
  using assms set_update_subset_insert [of "cb_flushers s" f v] by (auto simp: carbon_inv_def)

fun tick_delivers :: "(MetricData list \<Rightarrow> publish_error option \<Rightarrow> bool) \<Rightarrow> carbon_event \<Rightarrow> bool" where
  "tick_delivers d (Ticked buf e) \<longleftrightarrow> (if buf = [] then e = None else d buf e)"
| "tick_delivers d _ \<longleftrightarrow> True"

lemma carbon_step_delivers:
  assumes "carbon_step env s e s'" and "carbon_inv fl au s"
    and "ce_pub env = (\<lambda>ms ks. Publish fl marshalMsg jumpHash send True mp ms ks)" and "ce_plugins env = {file_auth adminKey a}"
    and "takes_carbon marshalMsg jumpHash mp raw" and "orgs_fit (au_heap au)"
  shows "carbon_inv fl au s' \<and> tick_delivers (delivered fl marshalMsg jumpHash send mp raw) e"
  using assms(1)
proof (cases rule: carbon_step.cases)
  case (recv f buf b rest authp md s1)
  have auth: "cb_auth s1 = au" "md = Some m \<Longrightarrow> metric_of_line env adminKey a (au_heap au) b m" for m
    using carbon_line_file [of env adminKey a b] recv assms(2,4) by (fastforce simp: carbon_inv_def)+
  have "carbon_metric m" if "md = Some m" for m
    using auth(2) [OF that] assms(6) parseMetric_carbon by (auto simp: metric_of_line_def orgs_fit_def)
  moreover have "list_all carbon_metric buf" using recv(3,4) assms(2) nth_mem by (fastforce simp: carbon_inv_def)
  ultimately have batch: "list_all carbon_metric (buf @ (case md of None \<Rightarrow> [] | Some m \<Rightarrow> [m]))" by (auto split: option.split)
  have kept: "cb_flushers s1 = cb_flushers s" "cb_pub s1 = cb_pub s"
    using recv(7) by (auto simp: carbon_line_def Let_def split: if_splits sum.splits prod.splits)
  have "cache_ready fl (ks_keyCache (cb_pub s1))" using kept(2) assms(2) by (simp add: carbon_inv_def)
  then have "carbon_inv fl au (s1\<lparr>cb_flushers := (cb_flushers s1)[f := Some (buf @ (case md of None \<Rightarrow> [] | Some m \<Rightarrow> [m]))]\<rparr>)"
    by (rule carbon_inv_flusher [OF assms(2) kept(1) auth(1)]) (use batch in blast)
  then show ?thesis using recv by simp
next
  case (tick f buf err buf' s1)
  have "list_all carbon_metric buf" using tick(3,4) assms(2) nth_mem by (fastforce simp: carbon_inv_def)
  moreover have "cache_ready fl (ks_keyCache (cb_pub s))" using assms(2) by (simp add: carbon_inv_def)
  ultimately have out: "(if buf = [] then err = None else delivered fl marshalMsg jumpHash send mp raw buf err) \<and>
      list_all carbon_metric buf' \<and> cache_ready fl (ks_keyCache (cb_pub s1))"
    by (rule carbon_tick_delivers [OF tick(5) assms(3,5)])
  have "cb_auth s1 = au"
    using carbon_step_file(1) [OF assms(1,4)] assms(2) tick by (simp add: carbon_inv_def)
  with out show ?thesis
    using carbon_inv_flusher [OF assms(2), of s1 "Some buf'" f] carbon_tick_kept [OF tick(5)] tick by auto
next
  case (finish f buf)
  then show ?thesis using carbon_inv_flusher [OF assms(2), of s None f] assms(2) by (simp add: carbon_inv_def)
qed (use assms(2) in \<open>simp_all add: carbon_inv_def\<close>)

lemma carbon_run_delivers:
  assumes "carbon_run env s es s'" and "carbon_inv fl au s"
    and "ce_pub env = (\<lambda>ms ks. Publish fl marshalMsg jumpHash send True mp ms ks)" and "ce_plugins env = {file_auth adminKey a}"
    and "takes_carbon marshalMsg jumpHash mp raw" and "orgs_fit (au_heap au)"
  shows "carbon_inv fl au s' \<and> list_all (tick_delivers (delivered fl marshalMsg jumpHash send mp raw)) es"
  using assms(1)
proof (induction rule: carbon_runs.trace_induct)
  case (event es s' e s'')
  then show ?case using carbon_step_delivers [OF event.hyps(2) _ assms(3-6)] by simp
qed (simp add: assms(2))

lemma delivers_fine: "tick_delivers (delivered fl marshalMsg jumpHash send mp raw) e \<Longrightarrow> fine_event sent_or_not e"
proof (cases e)
  case (Ticked buf err)
  moreover assume "tick_delivers (delivered fl marshalMsg jumpHash send mp raw) e"
  ultimately have "err = None \<or> (\<exists>x. err = Some (ErrSend x))" by (auto simp: delivered_def split: if_splits)
  then show ?thesis using Ticked by auto
qed simp_all

section \<open>Properties\<close>

text \<open>
  C27. Carbon points reach Kafka under the organisation of their key. In every interleaving of connections, flushers,
  ticks and shutdown, with the file plugin and a publisher that is set up: every tick of a flusher hands the producer
  exactly one message per metric of its batch and topic that accepts it, with the interval from the schemas, and it
  fails only if sending does, in which case the flusher keeps the batch. Every metric published, held or lost is
  that of a line that was taken, each line once, with its name, value, time and tags, and for the organisation of
  the user whose key is in front of it, who may publish if roles are enforced.
\<close>

theorem carbon_reaches_kafka:
  assumes "carbon_run env (init_carbon connections concurrency au ks) es s"
    and "ce_pub env = (\<lambda>ms ks. Publish fl marshalMsg jumpHash send True mp ms ks)" and "ce_plugins env = {file_auth adminKey a}"
    and "takes_carbon marshalMsg jumpHash mp raw" and "orgs_fit (au_heap au)" and "cache_ready fl (ks_keyCache ks)"
  shows "list_all (tick_delivers (delivered fl marshalMsg jumpHash send mp raw)) es \<and>
    image_mset metric_point (in_events ev_parsed es) =
      image_mset metric_point (in_events ev_published es + in_events ev_lost es + held_metrics s) \<and>
    (\<forall>b m. Taken b (Some m) \<in> set es \<longrightarrow> metric_of_line env adminKey a (au_heap au) b m)"
proof -
  have "carbon_inv fl au (init_carbon connections concurrency au ks)"
    using assms(6) by (auto simp: carbon_inv_def init_carbon_def)
  from carbon_run_delivers [OF assms(1) this assms(2-5)]
  have ticks: "list_all (tick_delivers (delivered fl marshalMsg jumpHash send mp raw)) es" by simp
  then have "list_all (fine_event sent_or_not) es" by (auto simp: list_all_iff intro: delivers_fine)
  from carbon_points_of_their_key [OF assms(1-3) this] ticks show ?thesis by blast
qed

abbreviation sample_point :: MetricData where
  "sample_point \<equiv> SetId \<lparr>md_Id = [], md_OrgId = 9, md_Name = ''m'', md_Interval = 0, md_Value = 0, md_Unit = ''unknown'',
     md_Time = 1, md_Mtype = ''gauge'', md_Tags = []\<rparr>"

lemma sample_takes_carbon: "takes_carbon (\<lambda>m. Some []) (\<lambda>s n. 0) sample_publisher []" "orgs_fit (au_heap one_user)"
  "cache_ready sample_flags (ks_keyCache sample_kstate)"
  by (auto simp: takes_carbon_def sample_publisher_def sample_topic_def topic_ready_def orgs_fit_def one_user_def alloc_def init_heap_def
      AdminUser_def zero_user_def cache_ready_def sample_kstate_def)

lemma sample_tick:
  assumes "cb_flushers s = [Some [sample_point]]" and "cb_pub s = sample_kstate"
  shows "\<exists>s'. carbon_step sample_env s (Ticked [sample_point] None) s'"
proof -
  let ?pub = "\<lambda>ms ks. Publish sample_flags (\<lambda>m. Some []) (\<lambda>s n. 0) (\<lambda>msgs. None) True sample_publisher ms ks"
  have "list_all carbon_metric [sample_point]" by (simp add: carbon_metric_def)
  then have "batch_ready sample_flags (\<lambda>m. Some []) (\<lambda>s n. 0) sample_publisher [] [sample_point] sample_kstate"
    using carbon_batch_ready sample_takes_carbon by blast
  from Publish_batch_ready [OF this, of "\<lambda>msgs. None"]
  obtain ks' where "?pub [sample_point] sample_kstate = Some (None, map (deduced []) [sample_point], ks')" by auto
  from kafka.accounts_samples [OF this, of "[9]" "cb_counters s"]
  obtain cv where "gate_Publish ?pub [9] [sample_point] sample_kstate (cb_counters s) = Some (None, map (deduced []) [sample_point], ks', cv)"
    by auto
  then have "\<exists>s'. carbon_tick sample_env [sample_point] s = Returns (None, [], s')"
    using assms(2) by (auto simp: carbon_tick_def sample_env_def)
  then show ?thesis using carbon_step.tick [of 0 s "[sample_point]" sample_env None "[]"] assms(1) by auto
qed

theorem carbon_reaches_kafka_witness:
  "\<exists>es s. carbon_run sample_env (init_carbon 1 1 one_user sample_kstate) es s \<and> in_events ev_published es = {#sample_point#} \<and>
    delivered sample_flags (\<lambda>m. Some []) (\<lambda>s n. 0) (\<lambda>msgs. None) sample_publisher [] [sample_point] None \<and>
    metric_of_line sample_env ''secret'' \<lparr>fa_keys = [''k'' \<mapsto> 1], fa_instanceMap = Map.empty\<rparr> (au_heap one_user) ''k.m 1 1'' sample_point"
proof -
  let ?es = "[Dispatched ''k.m 1 1'', Enqueued ''k.m 1 1'', Taken ''k.m 1 1'' (Some sample_point)]"
  obtain s where run: "carbon_run sample_env (init_carbon 1 1 one_user sample_kstate) ?es s"
    and s: "cb_flushers s = [Some [sample_point]]" "cb_pub s = sample_kstate"
    using sample_line by blast
  from sample_tick [OF s] obtain s' where "carbon_step sample_env s (Ticked [sample_point] None) s'" by blast
  with run have run: "carbon_run sample_env (init_carbon 1 1 one_user sample_kstate) (?es @ [Ticked [sample_point] None]) s'"
    by (rule carbon_run.snoc)
  have pub: "ce_pub sample_env =
      (\<lambda>ms ks. Publish sample_flags (\<lambda>m. Some []) (\<lambda>s n. 0) (\<lambda>msgs. None) True sample_publisher ms ks)"
    and plugins: "ce_plugins sample_env = {file_auth ''secret'' \<lparr>fa_keys = [''k'' \<mapsto> 1], fa_instanceMap = Map.empty\<rparr>}"
    by (simp_all add: sample_env_def)
  from carbon_reaches_kafka [OF run pub plugins sample_takes_carbon] run show ?thesis
    by (intro exI [of _ "?es @ [Ticked [sample_point] None]"] exI [of _ s']) (simp add: in_events_def)
qed

end
