(* ===== verification/CarbonStop.thy ===== *)
theory CarbonStop
  imports Carbon
begin

text \<open>
  Stopping the carbon input (\<^verbatim>\<open>Carbon.Stop\<close>): the channel is closed when the connections are done, the flushers take what
  is left on it and return, and \<^verbatim>\<open>flushWg.Wait\<close> ends. A flusher that returns does not publish its batch.
\<close>

section \<open>Lines do not panic\<close>

text \<open>No key that the file plugin accepts has white space in it.\<close>

definition plain_keys :: "string \<Rightarrow> FileAuth \<Rightarrow> bool" where
  "plain_keys adminKey a \<longleftrightarrow> (\<forall>k \<in> insert adminKey (dom (fa_keys a)). \<forall>c \<in> set k. no_space c)"

lemma fields_plain: "\<forall>c \<in> set k. no_space c \<Longrightarrow> length (GwPrelude.fields k) \<le> 1"
  using fields_from_token [of k "[]" "[]"] by (simp add: GwPrelude.fields_def fields_from.simps [of _ "[]"])

text \<open>
  A line without a dot is its own key. It has three fields, or it would not have been validated, so it is no key the
  plugin accepts.
\<close>

lemma carbon_line_returns:
  assumes "plain_keys adminKey a"
  shows "\<exists>md s'. carbon_line env (file_auth adminKey a) b s = Returns (md, s')"
proof (cases "ValidatePacket (ce_parseFloat env) b MediumLegacy NoneM20")
  case (Inr r)
  have "length (splitn2 CHR ''.'' b) \<ge> 2" if accepted: "FileAuth_Auth adminKey a ''api_key'' (splitn2 CHR ''.'' b ! 0) h = Inr p" for h p
  proof (rule ccontr)
    assume "\<not> length (splitn2 CHR ''.'' b) \<ge> 2"
    then have "splitn2 CHR ''.'' b ! 0 = b" by (auto simp: splitn2_def Let_def split: if_splits)
    then have "b \<in> insert adminKey (dom (fa_keys a))"
      using accepted by (auto simp: FileAuth_Auth_def Let_def split: if_splits option.splits)
    then show False using assms fields_plain [of b] ValidatePacket_fields [OF Inr] by (auto simp: plain_keys_def)
  qed
  then show ?thesis
    using Inr by (auto simp: carbon_line_def Let_def split: sum.splits)
qed (simp add: carbon_line_def)

section \<open>Draining the channel\<close>

fun drains :: "carbon_event \<Rightarrow> bool" where
  "drains (Taken b md) = True" | "drains (FlusherReturned buf) = True" | "drains _ = False"

definition drain :: "('s, 'z) carbon_env_scheme \<Rightarrow> 's carbon \<Rightarrow> 's carbon \<Rightarrow> bool" where
  "drain env s s' \<longleftrightarrow> (\<exists>e. carbon_step env s e s' \<and> drains e)"

definition active :: "'s carbon \<Rightarrow> nat" where
  "active s = length (filter (\<lambda>f. f \<noteq> None) (cb_flushers s))"

definition all_returned :: "'s carbon \<Rightarrow> bool" where
  "all_returned s \<longleftrightarrow> (\<forall>f \<in> set (cb_flushers s). f = None)"

definition drainable :: "('s, 'z) carbon_env_scheme \<Rightarrow> 's carbon \<Rightarrow> bool" where
  "drainable env s \<longleftrightarrow>
     cb_closed s \<and> (\<exists>authp. authp \<in> ce_plugins env) \<and>
     (\<forall>authp \<in> ce_plugins env. \<forall>b s. \<exists>md s'. carbon_line env authp b s = Returns (md, s'))"

lemma active_update:
  "f < length (cb_flushers s) \<Longrightarrow> cb_flushers s ! f \<noteq> None \<Longrightarrow> cb_flushers s' = (cb_flushers s)[f := v] \<Longrightarrow>
   active s' + of_bool (v = None) = active s"
proof -
  assume f: "f < length (cb_flushers s)" "cb_flushers s ! f \<noteq> None" and s': "cb_flushers s' = (cb_flushers s)[f := v]"
  have "cb_flushers s = take f (cb_flushers s) @ cb_flushers s ! f # drop (Suc f) (cb_flushers s)"
    using f(1) by (simp add: id_take_nth_drop [symmetric])
  then have "active s = length (filter (\<lambda>f. f \<noteq> None) (take f (cb_flushers s) @ cb_flushers s ! f # drop (Suc f) (cb_flushers s)))"
    unfolding active_def by simp
  then show ?thesis using f s' by (simp add: active_def upd_conv_take_nth_drop)
qed

lemma drain_step:
  assumes "drain env s s'" and "drainable env s"
  shows "drainable env s'" and "length (cb_buf s') + active s' < length (cb_buf s) + active s"
proof -
  obtain e where step: "carbon_step env s e s'" "drains e" using assms(1) by (auto simp: drain_def)
  from step(1) show "drainable env s'"
  proof (cases rule: carbon_step.cases)
    case (recv f buf b rest authp md s1)
    then have "cb_closed s1 = cb_closed s"
      by (auto simp: carbon_line_def Let_def split: if_splits sum.splits prod.splits)
    then show ?thesis using assms(2) recv by (simp add: drainable_def)
  qed (use assms(2) step(2) in \<open>auto simp: drainable_def\<close>)
  from step(1) show "length (cb_buf s') + active s' < length (cb_buf s) + active s"
  proof (cases rule: carbon_step.cases)
    case (recv f buf b rest authp md s1)
    then show ?thesis
      using carbon_line_kept [OF recv(7)] active_update [of f s s' "Some (buf @ (case md of None \<Rightarrow> [] | Some m \<Rightarrow> [m]))"] by simp
  next
    case (finish f buf)
    then show ?thesis using active_update [of f s s' None] by simp
  qed (use step(2) in simp_all)
qed

lemma drain_progress:
  assumes "drainable env s" and "\<not> all_returned s"
  shows "\<exists>s'. drain env s s'"
proof -
  obtain f buf where f: "f < length (cb_flushers s)" "cb_flushers s ! f = Some buf"
    using assms(2) by (auto simp: all_returned_def in_set_conv_nth)
  show ?thesis
  proof (cases "cb_buf s")
    case Nil
    then show ?thesis using carbon_step.finish [of s f buf env] f assms(1) unfolding drain_def drainable_def by (metis drains.simps(2))
  next
    case (Cons b rest)
    obtain authp md s1 where "authp \<in> ce_plugins env" "carbon_line env authp b (s\<lparr>cb_buf := rest\<rparr>) = Returns (md, s1)"
      using assms(1) unfolding drainable_def by metis
    then show ?thesis using carbon_step.recv [OF f Cons, of authp env md s1] unfolding drain_def by (metis drains.simps(1))
  qed
qed

interpretation draining: terminating_system "drain env" "drainable env" "\<lambda>s. length (cb_buf s) + active s" all_returned
  for env
  by unfold_locales (auto intro: drain_step drain_progress)

lemma drain_run: "(drain env ^^ n) s s' \<longleftrightarrow> (\<exists>es. carbon_run env s es s' \<and> list_all drains es \<and> length es = n)"
proof (induction n arbitrary: s')
  case (Suc n)
  show ?case
  proof
    assume "(drain env ^^ Suc n) s s'"
    then obtain s1 where "(drain env ^^ n) s s1" and "drain env s1 s'" by auto
    then obtain es e where "carbon_run env s es s1" "list_all drains es" "length es = n" "carbon_step env s1 e s'" "drains e"
      unfolding Suc.IH drain_def by blast
    then show "\<exists>es. carbon_run env s es s' \<and> list_all drains es \<and> length es = Suc n"
      by (intro exI [of _ "es @ [e]"]) (auto intro: carbon_run.snoc)
  next
    assume "\<exists>es. carbon_run env s es s' \<and> list_all drains es \<and> length es = Suc n"
    then obtain es0 where es0: "carbon_run env s es0 s'" "list_all drains es0" "length es0 = Suc n" by blast
    then obtain es e where "es0 = es @ [e]" by (cases es0 rule: rev_cases) auto
    with es0 have "carbon_run env s (es @ [e]) s'" "list_all drains es" "drains e" "length es = n" by auto
    then show "(drain env ^^ Suc n) s s'"
      unfolding relpowp.simps relcompp_apply Suc.IH carbon_runs.trace_snoc drain_def by blast
  qed
qed (auto simp: carbon_runs.trace_Nil)

text \<open>While the channel is drained, nothing is published: what the flushers hold and take is held on or lost.\<close>

interpretation kafka_exact: keeping_publisher "\<lambda>ms ks. Publish fl mm jh send producer mp ms ks" "\<lambda>m. m" "\<lambda>e. False"
  for fl mm jh send producer mp
  by unfold_locales simp

lemma drains_fine: "drains e \<Longrightarrow> fine_event (\<lambda>e. False) e \<and> ev_published e = {#}"
  by (cases e) simp_all

lemma drained_nothing_published: "list_all drains es \<Longrightarrow> in_events ev_published es = {#}"
  by (induction es) (simp_all add: in_events_def drains_fine)

lemma no_batches: "\<forall>f \<in> set fs. f = None \<Longrightarrow> (\<Sum>f \<leftarrow> fs. batch_of f) = {#}"
  by (induction fs) auto

text \<open>
  After the channel has been closed, with no connection left, the flushers only take lines, tick and return; a tick
  neither adds to what is left to do nor takes from it.
\<close>

definition stopping :: "'s carbon \<Rightarrow> bool" where
  "stopping s \<longleftrightarrow> cb_closed s \<and> (\<forall>p \<in> set (cb_pending s). p = None)"

lemma stopping_step:
  assumes "carbon_step env s e s'" and "stopping s"
  shows "stopping s'" and "drains e \<or> (\<exists>buf err. e = Ticked buf err)"
    and "length (cb_buf s') + active s' + of_bool (drains e) \<le> length (cb_buf s) + active s"
proof -
  have "stopping s' \<and> (drains e \<or> (\<exists>buf err. e = Ticked buf err)) \<and>
      length (cb_buf s') + active s' + of_bool (drains e) \<le> length (cb_buf s) + active s"
    using assms(1)
  proof (cases rule: carbon_step.cases)
    case (recv f buf b rest authp md s1)
    then have "cb_closed s1 = cb_closed s" "cb_pending s1 = cb_pending s"
      by (auto simp: carbon_line_def Let_def split: if_splits sum.splits prod.splits)
    then show ?thesis
      using assms(2) recv carbon_line_kept [OF recv(7)] active_update [of f s s' "Some (buf @ (case md of None \<Rightarrow> [] | Some m \<Rightarrow> [m]))"]
      by (simp add: stopping_def)
  next
    case (tick f buf err buf' s1)
    then have "cb_closed s1 = cb_closed s" "cb_pending s1 = cb_pending s" "cb_buf s1 = cb_buf s" "cb_flushers s1 = cb_flushers s"
      by (auto simp: carbon_tick_def split: if_splits option.splits gate_error.splits prod.splits)
    then show ?thesis
      using assms(2) tick active_update [of f s s' "Some buf'"] by (simp add: stopping_def)
  next
    case (finish f buf)
    then show ?thesis using assms(2) active_update [of f s s' None] by (simp add: stopping_def)
  qed (use assms(2) in \<open>auto simp: stopping_def dest!: nth_mem\<close>)
  then show "stopping s'" "drains e \<or> (\<exists>buf err. e = Ticked buf err)"
    "length (cb_buf s') + active s' + of_bool (drains e) \<le> length (cb_buf s) + active s" by blast+
qed

lemma stopping_run:
  "carbon_run env s es s' \<Longrightarrow> stopping s \<Longrightarrow>
   stopping s' \<and> (\<forall>e \<in> set es. drains e \<or> (\<exists>buf err. e = Ticked buf err)) \<and>
   length (filter drains es) + length (cb_buf s') + active s' \<le> length (cb_buf s) + active s"
proof (induction rule: carbon_runs.trace_induct)
  case (event es s' e s'')
  then have IH: "stopping s'" "\<forall>e \<in> set es. drains e \<or> (\<exists>buf err. e = Ticked buf err)"
    "length (filter drains es) + length (cb_buf s') + active s' \<le> length (cb_buf s) + active s" by blast+
  from stopping_step [OF event.hyps(2) IH(1)] IH show ?case by auto
qed simp

section \<open>Properties\<close>

text \<open>
  C29. The carbon input stops, and loses what its flushers hold. When the channel has been closed, no connection is left,
  and the keys of the file plugin have no white space, the flushers only take what is left on the channel, tick and
  return, and apart from ticks these are at most as many steps as there are lines and flushers. At any time they
  can go on to the end without a tick: no line panics, and the wait of \<^verbatim>\<open>Stop\<close> ends. What a tick publishes is
  published; every other metric in a batch at the time of closing, and every one taken after, is lost when its
  flusher returns. If no tick comes in between, that is all of them.
\<close>

theorem carbon_stop_ends:
  assumes "stopping s" and "ce_plugins env = {file_auth adminKey a}" and "plain_keys adminKey a"
    and "ce_pub env = (\<lambda>ms ks. Publish fl marshalMsg jumpHash send producer mp ms ks)" and "carbon_run env s es s'"
  shows "(\<forall>e \<in> set es. drains e \<or> (\<exists>buf err. e = Ticked buf err)) \<and>
    length (filter drains es) \<le> length (cb_buf s) + active s \<and>
    (\<exists>es' s''. carbon_run env s' es' s'' \<and> list_all drains es' \<and> all_returned s'') \<and>
    size (in_events ev_published es) + size (in_events ev_lost es) + size (held_metrics s') =
      size (held_metrics s) + size (in_events ev_parsed es) \<and>
    (all_returned s' \<longrightarrow> held_metrics s' = {#}) \<and>
    (list_all drains es \<longrightarrow> in_events ev_published es = {#} \<and>
      in_events ev_lost es + held_metrics s' = held_metrics s + in_events ev_parsed es)"
proof (intro conjI impI)
  note run = stopping_run [OF assms(5,1)]
  then show "\<forall>e \<in> set es. drains e \<or> (\<exists>buf err. e = Ticked buf err)" "length (filter drains es) \<le> length (cb_buf s) + active s"
    by auto
  have "drainable env s'" using run assms(2,3) carbon_line_returns by (auto simp: drainable_def stopping_def)
  from draining.final_reached [OF this] obtain s'' n where "(drain env ^^ n) s' s''" and "all_returned s''"
    using rtranclp_imp_relpowp by metis
  then show "\<exists>es' s''. carbon_run env s' es' s'' \<and> list_all drains es' \<and> all_returned s''" unfolding drain_run by blast
  have "list_all (fine_event (\<lambda>e. True)) es" by (simp add: list_all_iff)
  from kafka_number.carbon_run_metrics [OF assms(5,4) this]
  have "size (in_events ev_parsed es + held_metrics s) = size (in_events ev_published es + in_events ev_lost es + held_metrics s')"
    by (metis size_image_mset)
  then show "size (in_events ev_published es) + size (in_events ev_lost es) + size (held_metrics s') =
      size (held_metrics s) + size (in_events ev_parsed es)" by simp
  show "held_metrics s' = {#}" if "all_returned s'"
    using that no_batches by (simp add: all_returned_def held_metrics_def)
  assume drains: "list_all drains es"
  then show "in_events ev_published es = {#}" by (rule drained_nothing_published)
  have "list_all (fine_event (\<lambda>e. False)) es" using drains drains_fine by (auto simp: list_all_iff)
  from kafka_exact.carbon_run_metrics [OF assms(5,4) this]
  show "in_events ev_lost es + held_metrics s' = held_metrics s + in_events ev_parsed es"
    by (simp add: drained_nothing_published [OF drains] ac_simps)
qed

text \<open>A flusher that holds a metric when the channel is closed, with a line left to take.\<close>

theorem carbon_stop_ends_witness:
  "\<exists>es s'. carbon_run sample_env
      ((init_carbon 1 1 one_user sample_kstate)\<lparr>cb_closed := True, cb_buf := [''k.m 1 1''], cb_flushers := [Some [sample_metric]]\<rparr>) es s' \<and>
    all_returned s' \<and> length es \<le> 2 \<and> in_events ev_published es = {#} \<and> sample_metric \<in># in_events ev_lost es"
  (is "\<exists>es s'. carbon_run _ ?s es s' \<and> _")
proof -
  have keys: "plain_keys ''secret'' \<lparr>fa_keys = [''k'' \<mapsto> 1], fa_instanceMap = Map.empty\<rparr>"
    by (simp add: plain_keys_def no_space_def space_runes_def)
  have pub: "ce_pub sample_env =
      (\<lambda>ms ks. Publish sample_flags (\<lambda>m. Some []) (\<lambda>s n. 0) (\<lambda>msgs. None) True sample_publisher ms ks)"
    and plugins: "ce_plugins sample_env = {file_auth ''secret'' \<lparr>fa_keys = [''k'' \<mapsto> 1], fa_instanceMap = Map.empty\<rparr>}"
    by (simp_all add: sample_env_def)
  have stop: "stopping ?s" by (simp add: stopping_def init_carbon_def)
  note ends = carbon_stop_ends [OF stop plugins keys pub]
  obtain es s' where run: "carbon_run sample_env ?s es s'" "list_all drains es" "all_returned s'"
    using ends [OF carbon_run.nil] by blast
  from ends [OF run(1)] have "length (filter drains es) \<le> length (cb_buf ?s) + active ?s" "held_metrics s' = {#}"
      "in_events ev_published es = {#}" "in_events ev_lost es + held_metrics s' = held_metrics ?s + in_events ev_parsed es"
    using run(2,3) by blast+
  moreover have "filter drains es = es" using run(2) by (simp add: list_all_iff)
  ultimately have "length es \<le> 2" "in_events ev_published es = {#}" "in_events ev_lost es = held_metrics ?s + in_events ev_parsed es"
    by (simp_all add: active_def)
  then show ?thesis using run by (intro exI [of _ es] exI [of _ s']) (simp add: held_metrics_def)
qed

end
