(* ===== verification/Datadog.thy ===== *)
theory Datadog
  imports Writers
begin

text \<open>
  Datadog ingestion (\<^verbatim>\<open>ingest/datadog/\<close>): the handlers for series, checks and the agent's intake, and the
  metrics that the persister makes of an intake payload (\<^verbatim>\<open>ingest/datadog/payloads/intake.go\<close>).

  The handlers take metrics from the pool of the theory \<^verbatim>\<open>Writers\<close> and put none back: the deferred loop runs
  over the slice as it was when the function was deferred, which is empty. The tags of a metric are a
  list here, since they never get into the pool.

  A handler may write more than one answer; the client sees the status of the first. The JSON decoder
  reports an error and, beside it, what it has decoded.
\<close>

section \<open>Helpers\<close>

text \<open>A datadog tag \<^verbatim>\<open>key:value\<close> becomes \<^verbatim>\<open>key=value\<close>; without a value it stays as its key.\<close>

definition colon_tag :: "string \<Rightarrow> string" where
  "colon_tag t =
     (let tSplit = splitn2 CHR '':'' t
      in if length tSplit = 1 then tSplit ! 0
         else if tSplit ! 1 = [] then tSplit ! 0
         else tSplit ! 0 @ CHR ''='' # tSplit ! 1)"

definition createTagSet :: "string \<Rightarrow> string \<Rightarrow> string list \<Rightarrow> string list" where
  "createTagSet host device ctags =
     (let tags = (if device \<noteq> [] then [''device='' @ device] else []);
          tags = tags @ [''host='' @ host];
          tags = fold (\<lambda>t tags. tags @ [colon_tag t]) ctags tags
      in sort tags)"

text \<open>
  Reading a body gives the bytes up to its end or to the first error, and whether it came to its end;
  \<open>inflate\<close> says what reading it through zlib gives.
\<close>

type_synonym body_read = "gobyte list \<times> bool"

definition decodeJSON :: "(body_read \<Rightarrow> body_read) \<Rightarrow> body_read \<Rightarrow> bool \<Rightarrow> body_read" where
  "decodeJSON inflate body encoded = (if encoded then inflate body else body)"

text \<open>
  The conversion \<^verbatim>\<open>int64(x)\<close> of a float64: truncation toward zero. For a value that does not fit, an
  infinity or not a number the language leaves the result open; it is the one of amd64 here.
\<close>

definition int64_of_float :: "float64 \<Rightarrow> int" where
  "int64_of_float w =
     (let e = uint w div 2 ^ 52 mod 2 ^ 11;
          mant = 2 ^ 52 + uint w mod 2 ^ 52;
          n = (if e < 1023 then 0
               else if 1075 \<le> e then mant * 2 ^ nat (e - 1075)
               else mant div 2 ^ nat (1075 - e))
      in if 1023 + 63 \<le> e then - (2 ^ 63)
         else if bit w 63 then - n else n)"

section \<open>Series\<close>

record DataDogSerie =
  dd_Name :: string
  dd_Points :: "(float64 \<times> float64) list"
  dd_Tags :: "string list"
  dd_Host :: string
  dd_Mtype :: string
  dd_Device :: string

definition dd_metric :: "int \<Rightarrow> string \<Rightarrow> float64 \<Rightarrow> int \<Rightarrow> string \<Rightarrow> string list \<Rightarrow> MetricData" where
  "dd_metric org name v t mtype tags =
     SetId \<lparr>md_Id = [], md_OrgId = org, md_Name = name, md_Interval = 0, md_Value = v, md_Unit = ''unknown'',
            md_Time = t, md_Mtype = mtype, md_Tags = tags\<rparr>"

fun series_points ::
  "int \<Rightarrow> (nat \<Rightarrow> nat option) \<Rightarrow> DataDogSerie \<Rightarrow> string list \<Rightarrow> (float64 \<times> float64) list \<Rightarrow> MetricData list \<Rightarrow> pool_state
    \<Rightarrow> MetricData list \<times> pool_state" where
  "series_points org picks ts tagSet [] buf ps = (buf, ps)"
| "series_points org picks ts tagSet (point # points) buf ps =
     (let (_, ps) = MetricPool_Get (picks (length buf)) ps;
          md = dd_metric org (dd_Name ts) (snd point) (int64_of_float (fst point)) (dd_Mtype ts) tagSet
      in series_points org picks ts tagSet points (buf @ [md]) ps)"

fun series_batch ::
  "int \<Rightarrow> (nat \<Rightarrow> nat option) \<Rightarrow> DataDogSerie list \<Rightarrow> MetricData list \<Rightarrow> pool_state \<Rightarrow> MetricData list \<times> pool_state" where
  "series_batch org picks [] buf ps = (buf, ps)"
| "series_batch org picks (ts # series) buf ps =
     (let tagSet = createTagSet (dd_Host ts) (dd_Device ts) (dd_Tags ts);
          (buf, ps) = series_points org picks ts tagSet (dd_Points ts) buf ps
      in series_batch org picks series buf ps)"

record dd_request =
  dr_hasBody :: bool
  dr_deflate :: bool
  dr_read :: body_read

definition add_reply ::
  "reply list \<Rightarrow> pool_state \<Rightarrow> (reply \<times> 's world) run \<Rightarrow> (reply list \<times> pool_state \<times> 's world) run" where
  "add_reply rs ps r =
     (case r of Returns (rp, w) \<Rightarrow> Returns (rs @ [rp], ps, w) | Panics \<Rightarrow> Panics | Loops \<Rightarrow> Loops)"

definition DataDogSeries ::
  "'s publish_fun \<Rightarrow> (MetricData list \<Rightarrow> int list) \<Rightarrow> (nat \<Rightarrow> nat option) \<Rightarrow> (body_read \<Rightarrow> body_read)
    \<Rightarrow> (gobyte list \<Rightarrow> bool \<times> DataDogSerie list) \<Rightarrow> Context \<Rightarrow> dd_request \<Rightarrow> pool_state \<Rightarrow> 's world
    \<Rightarrow> (reply list \<times> pool_state \<times> 's world) run" where
  "DataDogSeries pub orgs picks inflate unmarshal ctx rq ps w =
     (if \<not> dr_hasBody rq
        then Returns ([\<lparr>rp_status = 400, rp_body = Text ''no data included in request.''\<rparr>], ps, w)
      else
        case decodeJSON inflate (dr_read rq) (dr_deflate rq) of
          (data, False) \<Rightarrow> Returns ([\<lparr>rp_status = 400, rp_body = Text ''unable to decode request, reason: ''\<rparr>], ps, w)
        | (data, True) \<Rightarrow>
            (case unmarshal data of
               (False, series) \<Rightarrow> Returns ([\<lparr>rp_status = 400, rp_body = Text ''unable to unmarshal request, reason: ''\<rparr>], ps, w)
             | (True, series) \<Rightarrow>
                 let (buf, ps) = series_batch (cx_ID ctx) picks series [] ps
                 in add_reply [] ps (write_reply pub orgs buf w)))"

section \<open>Checks\<close>

record DataDogCheckEntry =
  dc_Check :: string
  dc_Host :: string
  dc_Timestamp :: int
  dc_Status :: float64
  dc_Message :: string
  dc_Tags :: "string list"

definition check_of :: "int \<Rightarrow> DataDogCheckEntry \<Rightarrow> MetricData" where
  "check_of org check =
     dd_metric org (dc_Check check) (dc_Status check) (dc_Timestamp check) ''gauge''
       (createTagSet (dc_Host check) [] (dc_Tags check))"

fun check_batch ::
  "int \<Rightarrow> (nat \<Rightarrow> nat option) \<Rightarrow> DataDogCheckEntry list \<Rightarrow> MetricData list \<Rightarrow> pool_state \<Rightarrow> MetricData list \<times> pool_state" where
  "check_batch org picks [] buf ps = (buf, ps)"
| "check_batch org picks (check # checks) buf ps =
     (let (_, ps) = MetricPool_Get (picks (length buf)) ps
      in check_batch org picks checks (buf @ [check_of org check]) ps)"

text \<open>The handler goes on after an answer of 400, with what it has read and decoded.\<close>

definition DataDogCheck ::
  "'s publish_fun \<Rightarrow> (MetricData list \<Rightarrow> int list) \<Rightarrow> (nat \<Rightarrow> nat option) \<Rightarrow> (body_read \<Rightarrow> body_read)
    \<Rightarrow> (gobyte list \<Rightarrow> bool \<times> DataDogCheckEntry list) \<Rightarrow> Context \<Rightarrow> dd_request \<Rightarrow> pool_state \<Rightarrow> 's world
    \<Rightarrow> (reply list \<times> pool_state \<times> 's world) run" where
  "DataDogCheck pub orgs picks inflate unmarshal ctx rq ps w =
     (if \<not> dr_hasBody rq
        then Returns ([\<lparr>rp_status = 400, rp_body = Text ''no data included in request.''\<rparr>], ps, w)
      else
        let (data, decoded) = decodeJSON inflate (dr_read rq) (dr_deflate rq);
            replies = (if decoded then [] else [\<lparr>rp_status = 400, rp_body = Text ''unable to decode request, reason: ''\<rparr>]);
            (ok, checks) = unmarshal data;
            replies = replies @ (if ok then [] else [\<lparr>rp_status = 400, rp_body = Text ''unable to unmarshal request, reason: ''\<rparr>]);
            (buf, ps) = check_batch (cx_ID ctx) picks checks [] ps
        in add_reply replies ps (write_reply pub orgs buf w))"

section \<open>Intake payloads\<close>

text \<open>
  The payloads as the code has them, less the field \<^verbatim>\<open>HostTags\<close>, an arbitrary JSON value that nothing reads.
\<close>

record PersistPayload =
  pp_OrgID :: int
  pp_Hostname :: string
  pp_Raw :: "gobyte list"

record SystemStats =
  ss_CPUCores :: int
  ss_Machine :: string
  ss_Platform :: string
  ss_Processor :: string
  ss_PythonV :: string
  ss_MacV :: "string list"
  ss_NixV :: "string list"
  ss_FbsdV :: "string list"
  ss_WinV :: "string list"

record IntakeMeta =
  me_SocketHostname :: string
  me_Timezones :: "string list"
  me_SocketFqdn :: string
  me_Hostname :: string
  me_EC2Hostname :: string
  me_InstanceID :: string
  me_HostAlias :: "string list"

record DataDogIntakePayload =
  di_AgentVersion :: string
  di_UUID :: string
  di_OS :: string
  di_InternalHostname :: string
  di_Python :: string
  di_SystemStats :: SystemStats
  di_Meta :: IntakeMeta
  di_TagsSystem :: "string list"
  di_TagsGoogleCloudPlatform :: "string list"
  di_Gohai :: string
  di_OrgID :: int

record GohaiPlatform =
  gp_GOOARCH :: string
  gp_GOOS :: string
  gp_GoV :: string
  gp_HardwarePlatform :: string
  gp_Hostname :: string
  gp_KernelName :: string
  gp_KernelRelease :: string
  gp_KernelVersion :: string
  gp_Machine :: string
  gp_Os :: string
  gp_Processor :: string
  gp_PythonV :: string

text \<open>The part of \<^verbatim>\<open>Gohai\<close> that is read: filesystems (mount point and name), network and platform.\<close>

record Gohai =
  go_Filesystem :: "(string \<times> string) list"
  go_Ipaddress :: string
  go_Ipaddressv6 :: string
  go_Macaddress :: string
  go_Platform :: GohaiPlatform

definition add_tag :: "string \<Rightarrow> string \<Rightarrow> string list \<Rightarrow> string list" where
  "add_tag k v tags = (if v \<noteq> [] then tags @ [k @ CHR ''='' # v] else tags)"

definition generateInfoTags :: "DataDogIntakePayload \<Rightarrow> string list" where
  "generateInfoTags i =
     (let tags = add_tag ''agentVersion'' (di_AgentVersion i) [];
          tags = add_tag ''host'' (me_Hostname (di_Meta i)) tags;
          tags = add_tag ''hostname'' (di_InternalHostname i) tags;
          tags = add_tag ''machine'' (ss_Machine (di_SystemStats i)) tags;
          tags = add_tag ''os'' (di_OS i) tags;
          tags = add_tag ''processor'' (ss_Processor (di_SystemStats i)) tags;
          tags = add_tag ''socket_fqdn'' (me_SocketFqdn (di_Meta i)) tags;
          tags = add_tag ''socket_hostname'' (me_SocketHostname (di_Meta i)) tags;
          tags = add_tag ''instanceID'' (me_InstanceID (di_Meta i)) tags;
          tags = fold (\<lambda>t tags. tags @ [colon_tag t]) (di_TagsSystem i) tags;
          tags = fold (\<lambda>t tags. tags @ [colon_tag t]) (di_TagsGoogleCloudPlatform i) tags
      in sort tags)"

definition generatePlatformTags :: "Gohai \<Rightarrow> string \<Rightarrow> string list" where
  "generatePlatformTags g hostname =
     (let p = go_Platform g;
          tags = [''hostname='' @ hostname];
          tags = add_tag ''GOOARCH'' (gp_GOOARCH p) tags;
          tags = add_tag ''GOOS'' (gp_GOOS p) tags;
          tags = add_tag ''GoV'' (gp_GoV p) tags;
          tags = add_tag ''HardwarePlatform'' (gp_HardwarePlatform p) tags;
          tags = add_tag ''kernel_name'' (gp_KernelName p) tags;
          tags = add_tag ''kernel_release'' (gp_KernelRelease p) tags;
          tags = add_tag ''kernel_version'' (gp_KernelVersion p) tags;
          tags = add_tag ''machine'' (gp_Machine p) tags;
          tags = add_tag ''os'' (gp_Os p) tags;
          tags = add_tag ''processor'' (gp_Processor p) tags;
          tags = add_tag ''pythonV'' (gp_PythonV p) tags
      in sort tags)"

text \<open>\<^verbatim>\<open>strings.Replace\<close> of a backslash and a quote by the quote.\<close>

fun unescape_quotes :: "string \<Rightarrow> string" where
  "unescape_quotes [] = []"
| "unescape_quotes [x] = [x]"
| "unescape_quotes (x # y # s) =
     (if x = CHR 0x5C \<and> y = CHR 0x22 then CHR 0x22 # unescape_quotes s else x # unescape_quotes (y # s))"

text \<open>A metric literal of the code: the fields it names; the value 1 is the float with that value.\<close>

definition info_metric :: "int \<Rightarrow> string \<Rightarrow> string list \<Rightarrow> MetricData" where
  "info_metric org name tags =
     \<lparr>md_Id = [], md_OrgId = org, md_Name = name, md_Interval = 0, md_Value = 0x3FF0000000000000, md_Unit = [],
      md_Time = 0, md_Mtype = [], md_Tags = tags\<rparr>"

definition network_tags :: "DataDogIntakePayload \<Rightarrow> Gohai \<Rightarrow> string list" where
  "network_tags i g =
     [''hostname='' @ di_InternalHostname i, ''ipaddress='' @ go_Ipaddress g,
      ''ipaddressv6='' @ go_Ipaddressv6 g, ''macaddress='' @ go_Macaddress g]"

definition filesystem_metric :: "DataDogIntakePayload \<Rightarrow> string \<times> string \<Rightarrow> MetricData" where
  "filesystem_metric i fs =
     (let tagset = [''hostname='' @ di_InternalHostname i, ''name='' @ snd fs];
          tagset = add_tag ''mountpoint'' (fst fs) tagset
      in info_metric (di_OrgID i) ''system_filesystem_info'' tagset)"

definition GeneratePersistentMetrics :: "(string \<Rightarrow> Gohai option) \<Rightarrow> DataDogIntakePayload \<Rightarrow> MetricData list" where
  "GeneratePersistentMetrics unmarshalGohai i =
     (let metrics = [info_metric (di_OrgID i) ''system_info'' (generateInfoTags i)];
          gohaiJSON = unescape_quotes (di_Gohai i)
      in case unmarshalGohai gohaiJSON of
           None \<Rightarrow> metrics
         | Some g \<Rightarrow>
             metrics @
             [info_metric (di_OrgID i) ''system_platform_info'' (generatePlatformTags g (di_InternalHostname i)),
              info_metric (di_OrgID i) ''system_network_info'' (network_tags i g)] @
             map (filesystem_metric i) (go_Filesystem g))"

section \<open>Intake\<close>

text \<open>
  The client of the persister service (\<^verbatim>\<open>persister/persist/persist.go\<close>): \<open>post\<close> tells whether the request went
  well, which \<^verbatim>\<open>PushIntake\<close> does not look at. The posts are recorded.
\<close>

record persist_client =
  pc_enabled :: bool
  pc_url :: string
  pc_posts :: "(string \<times> gobyte list) list"

text \<open>
  \<^verbatim>\<open>NewClient\<close> and \<^verbatim>\<open>Init\<close> of the package, where \<open>parse\<close> gives the address in its standard form; an address that does
  not parse ends the process. No \<^verbatim>\<open>main\<close> function calls \<^verbatim>\<open>Init\<close>, so the client of a process is \<open>no_client\<close>.
\<close>

definition no_client :: persist_client where
  "no_client = \<lparr>pc_enabled = False, pc_url = [], pc_posts = []\<rparr>"

definition persist_NewClient :: "(string \<Rightarrow> string option) \<Rightarrow> string \<Rightarrow> persist_client option" where
  "persist_NewClient parse addr =
     (case parse addr of None \<Rightarrow> None | Some u \<Rightarrow> Some \<lparr>pc_enabled = False, pc_url = u, pc_posts = []\<rparr>)"

definition persist_Init :: "(string \<Rightarrow> string option) \<Rightarrow> string \<Rightarrow> persist_client option" where
  "persist_Init parse addr = map_option (pc_enabled_update (\<lambda>_. True)) (persist_NewClient parse addr)"

definition PushIntake :: "(string \<Rightarrow> gobyte list \<Rightarrow> bool) \<Rightarrow> gobyte list \<Rightarrow> persist_client \<Rightarrow> bool \<times> persist_client" where
  "PushIntake post payload c = (True, c\<lparr>pc_posts := pc_posts c @ [(pc_url c, payload)]\<rparr>)"

definition client_Persist :: "(string \<Rightarrow> gobyte list \<Rightarrow> bool) \<Rightarrow> gobyte list \<Rightarrow> persist_client \<Rightarrow> bool \<times> persist_client" where
  "client_Persist post data c = (if pc_enabled c then PushIntake post data c else (True, c))"

definition DataDogIntake ::
  "(string \<Rightarrow> gobyte list \<Rightarrow> bool) \<Rightarrow> (body_read \<Rightarrow> body_read) \<Rightarrow> (gobyte list \<Rightarrow> bool \<times> DataDogIntakePayload)
    \<Rightarrow> (PersistPayload \<Rightarrow> gobyte list option) \<Rightarrow> Context \<Rightarrow> dd_request \<Rightarrow> persist_client \<Rightarrow> reply \<times> persist_client" where
  "DataDogIntake post inflate unmarshal marshal ctx rq c =
     (if \<not> dr_hasBody rq then (\<lparr>rp_status = 400, rp_body = Text ''no data included in request.''\<rparr>, c)
      else
        case decodeJSON inflate (dr_read rq) (dr_deflate rq) of
          (data, False) \<Rightarrow> (\<lparr>rp_status = 400, rp_body = Text ''unable to decode request, reason: ''\<rparr>, c)
        | (data, True) \<Rightarrow>
            (case unmarshal data of
               (False, info) \<Rightarrow> (\<lparr>rp_status = 400, rp_body = Text ''unable to unmarshal request, reason: ''\<rparr>, c)
             | (True, info) \<Rightarrow>
                 if di_Gohai info \<noteq> [] then
                   (case marshal \<lparr>pp_OrgID = cx_ID ctx, pp_Hostname = di_InternalHostname info, pp_Raw = data\<rparr> of
                      None \<Rightarrow> (\<lparr>rp_status = 500, rp_body = ErrorBody\<rparr>, c)
                    | Some payload \<Rightarrow>
                        (case client_Persist post payload c of
                           (False, c) \<Rightarrow> (\<lparr>rp_status = 500, rp_body = ErrorBody\<rparr>, c)
                         | (True, c) \<Rightarrow> (\<lparr>rp_status = 200, rp_body = Text ''ok''\<rparr>, c)))
                 else (\<lparr>rp_status = 200, rp_body = Text ''ok''\<rparr>, c)))"

text \<open>After \<^verbatim>\<open>Init\<close> a payload is posted to the address; without it an intake is answered but goes nowhere.\<close>

lemma persist_Init_posts:
  assumes "persist_Init parse addr = Some c"
  shows "\<exists>u. parse addr = Some u \<and> client_Persist post data c = (True, c\<lparr>pc_posts := [(u, data)]\<rparr>)"
  using assms by (auto simp: persist_Init_def persist_NewClient_def client_Persist_def PushIntake_def split: option.splits)

lemma intake_without_client: "snd (DataDogIntake post inflate unmarshal marshal ctx rq no_client) = no_client"
  by (auto simp: DataDogIntake_def client_Persist_def no_client_def split: prod.splits bool.splits option.splits)

section \<open>Tags\<close>

lemma fold_snoc: "fold (\<lambda>t acc. acc @ [f t]) ts acc = acc @ map f ts"
  by (induction ts arbitrary: acc) simp_all

lemma colon_tag_cases:
  "CHR '':'' \<notin> set t \<Longrightarrow> colon_tag t = t"
  "CHR '':'' \<notin> set k \<Longrightarrow> colon_tag (k @ '':'') = k"
  "CHR '':'' \<notin> set k \<Longrightarrow> v \<noteq> [] \<Longrightarrow> colon_tag (k @ CHR '':'' # v) = k @ CHR ''='' # v"
  by (simp_all add: colon_tag_def)

lemma createTagSet_eq:
  "createTagSet host device ctags =
     sort ((if device \<noteq> [] then [''device='' @ device] else []) @ (''host='' @ host) # map colon_tag ctags)"
  by (simp add: createTagSet_def fold_snoc)

section \<open>Batches\<close>

definition serie_metrics :: "int \<Rightarrow> DataDogSerie \<Rightarrow> MetricData list" where
  "serie_metrics org ts =
     map (\<lambda>p. dd_metric org (dd_Name ts) (snd p) (int64_of_float (fst p)) (dd_Mtype ts)
            (createTagSet (dd_Host ts) (dd_Device ts) (dd_Tags ts))) (dd_Points ts)"

lemma MetricPool_Get_shrinks: "length (ps_pool (snd (MetricPool_Get pick ps))) \<le> length (ps_pool ps)"
  by (auto simp: MetricPool_Get_def split: option.splits)

lemma series_points_spec:
  "series_points org picks ts tagSet points buf ps = (buf', ps') \<Longrightarrow>
   buf' = buf @ map (\<lambda>p. dd_metric org (dd_Name ts) (snd p) (int64_of_float (fst p)) (dd_Mtype ts) tagSet) points \<and>
   length (ps_pool ps') \<le> length (ps_pool ps)"
proof (induction points arbitrary: buf ps)
  case (Cons p points)
  obtain old ps1 where get: "MetricPool_Get (picks (length buf)) ps = (old, ps1)" by fastforce
  then have "length (ps_pool ps1) \<le> length (ps_pool ps)"
    using MetricPool_Get_shrinks [of "picks (length buf)" ps] by simp
  moreover have "series_points org picks ts tagSet points
      (buf @ [dd_metric org (dd_Name ts) (snd p) (int64_of_float (fst p)) (dd_Mtype ts) tagSet]) ps1 = (buf', ps')"
    using Cons.prems get by simp
  ultimately show ?case using Cons.IH by fastforce
qed simp

lemma series_batch_spec:
  "series_batch org picks series buf ps = (buf', ps') \<Longrightarrow>
   buf' = buf @ concat (map (serie_metrics org) series) \<and> length (ps_pool ps') \<le> length (ps_pool ps)"
proof (induction series arbitrary: buf ps)
  case (Cons ts series)
  obtain buf1 ps1 where one: "series_points org picks ts (createTagSet (dd_Host ts) (dd_Device ts) (dd_Tags ts))
      (dd_Points ts) buf ps = (buf1, ps1)"
    by fastforce
  have "series_batch org picks series buf1 ps1 = (buf', ps')" using Cons.prems one by simp
  then show ?case
    using Cons.IH [of buf1 ps1] series_points_spec [OF one] by (auto simp: serie_metrics_def)
qed simp

lemma check_batch_spec:
  "check_batch org picks checks buf ps = (buf', ps') \<Longrightarrow>
   buf' = buf @ map (check_of org) checks \<and> length (ps_pool ps') \<le> length (ps_pool ps)"
proof (induction checks arbitrary: buf ps)
  case (Cons c checks)
  obtain old ps1 where get: "MetricPool_Get (picks (length buf)) ps = (old, ps1)" by fastforce
  then have "length (ps_pool ps1) \<le> length (ps_pool ps)"
    using MetricPool_Get_shrinks [of "picks (length buf)" ps] by simp
  moreover have "check_batch org picks checks (buf @ [check_of org c]) ps1 = (buf', ps')"
    using Cons.prems get by simp
  ultimately show ?case using Cons.IH by fastforce
qed simp

lemma generated_fields:
  assumes "m \<in> set (GeneratePersistentMetrics um i)"
  shows "md_OrgId m = di_OrgID i" and "md_Id m = []" and "md_Interval m = 0" and "md_Mtype m = []" and "md_Name m \<noteq> []"
  using assms
  by (auto simp: GeneratePersistentMetrics_def info_metric_def filesystem_metric_def Let_def split: option.splits)

section \<open>Properties\<close>

text \<open>
  A series request whose body decodes publishes one metric per point, in order, with the organisation of
  the user, the time truncated to seconds, the type the client gave, and the sorted tags made of host,
  device and tags; the metrics it takes from the pool are not put back, so the pool never grows.
\<close>

theorem datadog_series_published:
  assumes "dr_hasBody rq" and "decodeJSON inflate (dr_read rq) (dr_deflate rq) = (data, True)"
    and "unmarshal data = (True, series)"
  shows "\<exists>ps'. DataDogSeries pub orgs picks inflate unmarshal ctx rq ps w =
      add_reply [] ps' (write_reply pub orgs (concat (map (serie_metrics (cx_ID ctx)) series)) w) \<and>
    length (ps_pool ps') \<le> length (ps_pool ps)"
proof -
  obtain buf ps' where batch: "series_batch (cx_ID ctx) picks series [] ps = (buf, ps')" by fastforce
  then show ?thesis
    using assms series_batch_spec [OF batch] by (auto simp: DataDogSeries_def)
qed

definition sample_serie :: DataDogSerie where
  "sample_serie = \<lparr>dd_Name = ''cpu'', dd_Points = [(0x3FF0000000000000, 0)], dd_Tags = [''env:prod''], dd_Host = ''h'',
     dd_Mtype = ''gauge'', dd_Device = []\<rparr>"

theorem datadog_series_published_witness:
  "\<exists>ps'. DataDogSeries nullPublisher_Publish (\<lambda>ms. [3]) (\<lambda>i. None) id (\<lambda>b. (True, [sample_serie]))
      \<lparr>cx_ID = 3, cx_IsAdmin = False\<rparr> \<lparr>dr_hasBody = True, dr_deflate = False, dr_read = ([], True)\<rparr> empty_pool sample_world =
      add_reply [] ps' (write_reply nullPublisher_Publish (\<lambda>ms. [3])
        [dd_metric 3 ''cpu'' 0 1 ''gauge'' [''env=prod'', ''host=h'']] sample_world)"
proof -
  have time: "int64_of_float 0x3FF0000000000000 = 1" by (simp add: int64_of_float_def bit_iff_odd)
  have tags: "createTagSet ''h'' [] [''env:prod''] = [''env=prod'', ''host=h'']"
    by (simp add: createTagSet_eq colon_tag_def splitn2_def)
  have "serie_metrics 3 sample_serie = [dd_metric 3 ''cpu'' 0 1 ''gauge'' [''env=prod'', ''host=h'']]"
    by (simp add: serie_metrics_def sample_serie_def time tags)
  then show ?thesis
    using datadog_series_published [of "\<lparr>dr_hasBody = True, dr_deflate = False, dr_read = ([], True)\<rparr>" id "[]"
        "\<lambda>b. (True, [sample_serie])" "[sample_serie]" nullPublisher_Publish "\<lambda>ms. [3]" "\<lambda>i. None"
        "\<lparr>cx_ID = 3, cx_IsAdmin = False\<rparr>" empty_pool sample_world]
    by (auto simp: decodeJSON_def)
qed

text \<open>
  The check handler publishes what it refuses: with a body, whatever was read and decoded of it is
  published, one metric per check; the answers before it are none if reading and decoding succeeded, and
  otherwise begin with a 400, which is the status the client sees, although its checks were ingested.
\<close>

theorem datadog_check_publishes_refused:
  assumes "dr_hasBody rq" and "decodeJSON inflate (dr_read rq) (dr_deflate rq) = (data, decoded)"
    and "unmarshal data = (ok, checks)"
  shows "\<exists>ps' replies. DataDogCheck pub orgs picks inflate unmarshal ctx rq ps w =
      add_reply replies ps' (write_reply pub orgs (map (check_of (cx_ID ctx)) checks) w) \<and>
    (if decoded \<and> ok then replies = [] else replies \<noteq> [] \<and> rp_status (hd replies) = 400)"
proof -
  obtain buf ps' where batch: "check_batch (cx_ID ctx) picks checks [] ps = (buf, ps')" by fastforce
  define replies where "replies =
    (if decoded then [] else [\<lparr>rp_status = 400, rp_body = Text ''unable to decode request, reason: ''\<rparr>]) @
    (if ok then [] else [\<lparr>rp_status = 400, rp_body = Text ''unable to unmarshal request, reason: ''\<rparr>])"
  have "DataDogCheck pub orgs picks inflate unmarshal ctx rq ps w =
      add_reply replies ps' (write_reply pub orgs (map (check_of (cx_ID ctx)) checks) w)"
    using assms batch check_batch_spec [OF batch] by (simp add: DataDogCheck_def replies_def)
  moreover have "if decoded \<and> ok then replies = [] else replies \<noteq> [] \<and> rp_status (hd replies) = 400"
    by (simp add: replies_def)
  ultimately show ?thesis by blast
qed

theorem datadog_check_publishes_refused_witness:
  "\<exists>ps' replies. DataDogCheck nullPublisher_Publish (\<lambda>ms. [3]) (\<lambda>i. None) id
      (\<lambda>b. (False, [\<lparr>dc_Check = ''c'', dc_Host = ''h'', dc_Timestamp = 5, dc_Status = 0, dc_Message = [], dc_Tags = []\<rparr>]))
      \<lparr>cx_ID = 3, cx_IsAdmin = False\<rparr> \<lparr>dr_hasBody = True, dr_deflate = False, dr_read = ([], True)\<rparr> empty_pool sample_world =
      add_reply replies ps' (write_reply nullPublisher_Publish (\<lambda>ms. [3])
        [dd_metric 3 ''c'' 0 5 ''gauge'' [''host=h'']] sample_world) \<and>
    rp_status (hd replies) = 400"
  using datadog_check_publishes_refused [of "\<lparr>dr_hasBody = True, dr_deflate = False, dr_read = ([], True)\<rparr>" id "[]" True
      "\<lambda>b. (False, [\<lparr>dc_Check = ''c'', dc_Host = ''h'', dc_Timestamp = 5, dc_Status = 0, dc_Message = [], dc_Tags = []\<rparr>])"
      False "[\<lparr>dc_Check = ''c'', dc_Host = ''h'', dc_Timestamp = 5, dc_Status = 0, dc_Message = [], dc_Tags = []\<rparr>]"
      nullPublisher_Publish "\<lambda>ms. [3]" "\<lambda>i. None" "\<lparr>cx_ID = 3, cx_IsAdmin = False\<rparr>" empty_pool sample_world]
  by (auto simp: decodeJSON_def check_of_def createTagSet_eq)

end
