(* ===== verification/Persister.thy ===== *)
theory Persister
  imports Datadog
begin

text \<open>
  The persister service: the client that pushes metrics to a gateway (\<^verbatim>\<open>metrics_client/metrics_client.go\<close> with
  the vendored \<^verbatim>\<open>CreateMsg\<close>), the table of payloads (\<^verbatim>\<open>persister/storage/storage.go\<close>) and the persister itself
  (\<^verbatim>\<open>persister/persister.go\<close>).

  The table service is a parameter: a state of any type with three calls. The mutex is a flag; a call that
  finds it taken waits for ever, because a call only leaves it taken when it returns without unlocking:
  \<^term>\<open>Loops\<close>. The requests that were posted are recorded. Decoders and encoders are parameters.
\<close>

section \<open>The metrics client\<close>

record http_post =
  hp_url :: string
  hp_user :: string
  hp_password :: string
  hp_contentType :: string
  hp_body :: "gobyte list"

record metrics_Client =
  mc_url :: string
  mc_apiKey :: string

datatype push_error = ErrNoMetrics | ErrCreateMsg | ErrSubmit | ErrPushStatus

text \<open>\<^verbatim>\<open>msg.CreateMsg\<close> for the msgp format and identifier 0.\<close>

definition CreateMsg :: "(MetricData list \<Rightarrow> gobyte list option) \<Rightarrow> MetricData list \<Rightarrow> gobyte list option" where
  "CreateMsg marshalMsgp metrics =
     (case marshalMsgp metrics of None \<Rightarrow> None | Some d \<Rightarrow> Some (1 # replicate 8 0 @ d))"

text \<open>The status, the error and the request that was sent.\<close>

definition client_push ::
  "(MetricData list \<Rightarrow> gobyte list option) \<Rightarrow> (gobyte list \<Rightarrow> gobyte list) \<Rightarrow> (http_post \<Rightarrow> int option) \<Rightarrow> metrics_Client
    \<Rightarrow> MetricData list \<Rightarrow> (int \<times> push_error option) \<times> http_post option" where
  "client_push marshalMsgp snappy http_do c metrics =
     (if length metrics < 1 then ((0, Some ErrNoMetrics), None)
      else
        let orgID = itoa (md_OrgId (metrics ! 0))
        in case CreateMsg marshalMsgp metrics of
             None \<Rightarrow> ((0, Some ErrCreateMsg), None)
           | Some data \<Rightarrow>
               let req = \<lparr>hp_url = mc_url c, hp_user = orgID, hp_password = mc_apiKey c,
                          hp_contentType = ''rt-metric-binary-snappy'', hp_body = snappy data\<rparr>
               in case http_do req of
                    None \<Rightarrow> ((0, Some ErrSubmit), Some req)
                  | Some status \<Rightarrow>
                      if 200 \<le> status \<and> status < 300 then ((status, None), Some req)
                      else ((status, Some ErrPushStatus), Some req))"

definition client_Push ::
  "(MetricData list \<Rightarrow> gobyte list option) \<Rightarrow> (gobyte list \<Rightarrow> gobyte list) \<Rightarrow> (http_post \<Rightarrow> int option) \<Rightarrow> metrics_Client
    \<Rightarrow> MetricData list \<Rightarrow> push_error option" where
  "client_Push marshalMsgp snappy http_do c metrics = snd (fst (client_push marshalMsgp snappy http_do c metrics))"

text \<open>\<^verbatim>\<open>New\<close>; \<open>parse\<close> is parsing the address and printing it again.\<close>

definition metrics_client_New :: "(string \<Rightarrow> string option) \<Rightarrow> string \<Rightarrow> string \<Rightarrow> metrics_Client option" where
  "metrics_client_New parse addr key = map_option (\<lambda>u. \<lparr>mc_url = u, mc_apiKey = key\<rparr>) (parse addr)"

text \<open>\<^verbatim>\<open>PushIntake\<close> of this client, which posts a payload without credentials.\<close>

definition client_PushIntake ::
  "(http_post \<Rightarrow> int option) \<Rightarrow> metrics_Client \<Rightarrow> gobyte list \<Rightarrow> (int \<times> push_error option) \<times> http_post" where
  "client_PushIntake http_do c payload =
     (let req = \<lparr>hp_url = mc_url c, hp_user = [], hp_password = [], hp_contentType = ''application/json'', hp_body = payload\<rparr>
      in case http_do req of
           None \<Rightarrow> ((0, Some ErrSubmit), req)
         | Some status \<Rightarrow>
             if 200 \<le> status \<and> status < 300 then ((status, None), req) else ((status, Some ErrPushStatus), req))"

section \<open>Storage\<close>

text \<open>
  The calls of the table service: write the cell of a row, read the rows with a prefix (the cell of the
  family, if the row has it) and whether the stream ended without an error, delete rows.
\<close>

record 'b table_api =
  ta_Apply :: "string \<Rightarrow> gobyte list \<Rightarrow> 'b \<Rightarrow> bool \<times> 'b"
  ta_ReadRows :: "string \<Rightarrow> 'b \<Rightarrow> (string \<times> gobyte list option) list \<times> bool"
  ta_ApplyBulk :: "string list \<Rightarrow> 'b \<Rightarrow> bool \<times> 'b"

record codecs =
  co_marshalPayload :: "PersistPayload \<Rightarrow> gobyte list option"
  co_unmarshalPayload :: "gobyte list \<Rightarrow> PersistPayload option"
  co_unmarshalIntake :: "gobyte list \<Rightarrow> DataDogIntakePayload option"
  co_unmarshalGohai :: "string \<Rightarrow> Gohai option"

definition storage_Store :: "'b table_api \<Rightarrow> codecs \<Rightarrow> string \<Rightarrow> PersistPayload \<Rightarrow> 'b \<Rightarrow> bool \<times> 'b" where
  "storage_Store api co rowKey data t =
     (case co_marshalPayload co data of None \<Rightarrow> (False, t) | Some buf \<Rightarrow> ta_Apply api rowKey buf t)"

text \<open>The function called for each row: \<^term>\<open>None\<close> where it returns false, which ends the stream without an error.\<close>

definition retrieve_row ::
  "codecs \<Rightarrow> string \<times> gobyte list option \<Rightarrow> (string \<rightharpoonup> DataDogIntakePayload) \<Rightarrow> (string \<rightharpoonup> DataDogIntakePayload) option" where
  "retrieve_row co r intakes =
     (case snd r of
        None \<Rightarrow> Some intakes
      | Some cell \<Rightarrow>
          (case co_unmarshalPayload co cell of
             None \<Rightarrow> None
           | Some payload \<Rightarrow>
               (case co_unmarshalIntake co (pp_Raw payload) of
                  None \<Rightarrow> None
                | Some intake \<Rightarrow> Some (intakes(fst r \<mapsto> intake\<lparr>di_OrgID := pp_OrgID payload\<rparr>)))))"

fun retrieve_rows ::
  "codecs \<Rightarrow> (string \<times> gobyte list option) list \<Rightarrow> bool \<Rightarrow> (string \<rightharpoonup> DataDogIntakePayload)
    \<Rightarrow> (string \<rightharpoonup> DataDogIntakePayload) option" where
  "retrieve_rows co [] ok intakes = (if ok then Some intakes else None)"
| "retrieve_rows co (r # rows) ok intakes =
     (case retrieve_row co r intakes of None \<Rightarrow> Some intakes | Some intakes \<Rightarrow> retrieve_rows co rows ok intakes)"

definition storage_Retrieve :: "'b table_api \<Rightarrow> codecs \<Rightarrow> string \<Rightarrow> 'b \<Rightarrow> (string \<rightharpoonup> DataDogIntakePayload) option" where
  "storage_Retrieve api co prefix t = (let (rows, ok) = ta_ReadRows api prefix t in retrieve_rows co rows ok Map.empty)"

definition storage_Remove :: "'b table_api \<Rightarrow> string list \<Rightarrow> 'b \<Rightarrow> bool \<times> 'b" where
  "storage_Remove api rowKeys t = ta_ApplyBulk api rowKeys t"

fun sliceContains :: "string list \<Rightarrow> string \<Rightarrow> bool" where
  "sliceContains [] target = False"
| "sliceContains (s # list) target = (if s = target then True else sliceContains list target)"

text \<open>
  \<^verbatim>\<open>New\<close> makes sure that the table and its column family exist. The calls of the administration service, each with
  the error it may return: the connections, the names of the tables, creating a table, the families of a
  table, creating a family.
\<close>

record 'b admin_api =
  aa_NewAdminClient :: bool
  aa_Tables :: "'b \<Rightarrow> string list option"
  aa_CreateTable :: "string \<Rightarrow> 'b \<Rightarrow> bool \<times> 'b"
  aa_TableInfo :: "string \<Rightarrow> 'b \<Rightarrow> string list option"
  aa_CreateColumnFamily :: "string \<Rightarrow> string \<Rightarrow> 'b \<Rightarrow> bool \<times> 'b"
  aa_NewClient :: bool

definition ensure_family :: "'b admin_api \<Rightarrow> string \<Rightarrow> 'b \<Rightarrow> bool \<times> 'b" where
  "ensure_family adm tableName t =
     (case aa_TableInfo adm tableName t of
        None \<Rightarrow> (False, t)
      | Some families \<Rightarrow>
          (case (if \<not> sliceContains families ''intakePayload''
                 then aa_CreateColumnFamily adm tableName ''intakePayload'' t else (True, t)) of
             (False, t) \<Rightarrow> (False, t)
           | (True, t) \<Rightarrow> (aa_NewClient adm, t)))"

definition storage_New :: "'b admin_api \<Rightarrow> string \<Rightarrow> 'b \<Rightarrow> bool \<times> 'b" where
  "storage_New adm tableName t =
     (if \<not> aa_NewAdminClient adm then (False, t)
      else
        case aa_Tables adm t of
          None \<Rightarrow> (False, t)
        | Some tables \<Rightarrow>
            (case (if \<not> sliceContains tables tableName then aa_CreateTable adm tableName t else (True, t)) of
               (False, t) \<Rightarrow> (False, t)
             | (True, t) \<Rightarrow> ensure_family adm tableName t))"

section \<open>The persister\<close>

record 'b Persister =
  pe_locked :: bool
  pe_metrics :: "string \<rightharpoonup> MetricData list"
  pe_client :: metrics_Client
  pe_table :: 'b
  pe_prefix :: string
  pe_interval :: int
  pe_maxBufferSize :: int

text \<open>\<^verbatim>\<open>New\<close>, from the flags: \<^term>\<open>None\<close> where a client cannot be made.\<close>

record Config =
  cf_interval :: int
  cf_maxBufferSize :: int
  cf_Addr :: string
  cf_APIKey :: string
  cf_TableName :: string
  cf_Prefix :: string

definition Persister_New :: "(string \<Rightarrow> string option) \<Rightarrow> 'b admin_api \<Rightarrow> Config \<Rightarrow> 'b \<Rightarrow> 'b Persister option" where
  "Persister_New parse adm cfg t =
     (case metrics_client_New parse (cf_Addr cfg) (cf_APIKey cfg) of
        None \<Rightarrow> None
      | Some client \<Rightarrow>
          (case storage_New adm (cf_TableName cfg) t of
             (False, t) \<Rightarrow> None
           | (True, t) \<Rightarrow>
               Some \<lparr>pe_locked = False, pe_metrics = Map.empty, pe_client = client, pe_table = t,
                     pe_prefix = cf_Prefix cfg, pe_interval = cf_interval cfg, pe_maxBufferSize = cf_maxBufferSize cfg\<rparr>))"

definition Persister_Persist :: "string \<Rightarrow> MetricData list \<Rightarrow> 'b Persister \<Rightarrow> 'b Persister run" where
  "Persister_Persist rowKey metrics p =
     (if pe_locked p then Loops else Returns (p\<lparr>pe_metrics := (pe_metrics p)(rowKey \<mapsto> metrics)\<rparr>))"

text \<open>\<^verbatim>\<open>load\<close>; \<open>order\<close> is the order in which the payloads are visited. The flag is whether it returned without an error.\<close>

fun load_payloads ::
  "codecs \<Rightarrow> (string \<rightharpoonup> DataDogIntakePayload) \<Rightarrow> string list \<Rightarrow> 'b Persister \<Rightarrow> 'b Persister run" where
  "load_payloads co payloads [] p = Returns p"
| "load_payloads co payloads (k # ks) p =
     (case payloads k of
        None \<Rightarrow> load_payloads co payloads ks p
      | Some v \<Rightarrow>
          (case Persister_Persist k (GeneratePersistentMetrics (co_unmarshalGohai co) v) p of
             Returns p \<Rightarrow> load_payloads co payloads ks p
           | Panics \<Rightarrow> Panics
           | Loops \<Rightarrow> Loops))"

definition Persister_load ::
  "'b table_api \<Rightarrow> codecs \<Rightarrow> ((string \<rightharpoonup> DataDogIntakePayload) \<Rightarrow> string list) \<Rightarrow> 'b Persister \<Rightarrow> (bool \<times> 'b Persister) run" where
  "Persister_load api co order p =
     (case storage_Retrieve api co (pe_prefix p) (pe_table p) of
        None \<Rightarrow> Returns (False, p)
      | Some payloads \<Rightarrow>
          (case load_payloads co payloads (order payloads) p of
             Returns p \<Rightarrow> Returns (True, p) | Panics \<Rightarrow> Panics | Loops \<Rightarrow> Loops))"

definition row_key :: "PersistPayload \<Rightarrow> string" where
  "row_key payload = itoa (pp_OrgID payload) @ CHR '':'' # pp_Hostname payload"

text \<open>The handlers answer with a status; \<open>body\<close> is \<^term>\<open>None\<close> for a request without one, then what reading it gives.\<close>

definition PersistHandler ::
  "'b table_api \<Rightarrow> codecs \<Rightarrow> body_read option \<Rightarrow> 'b Persister \<Rightarrow> (int \<times> 'b Persister) run" where
  "PersistHandler api co body p =
     (case body of
        None \<Rightarrow> Returns (400, p)
      | Some (data, False) \<Rightarrow> Returns (400, p)
      | Some (data, True) \<Rightarrow>
          (case co_unmarshalPayload co data of
             None \<Rightarrow> Returns (400, p)
           | Some payload \<Rightarrow>
               let rowKey = row_key payload
               in case storage_Store api co rowKey payload (pe_table p) of
                    (False, t) \<Rightarrow> Returns (500, p\<lparr>pe_table := t\<rparr>)
                  | (True, t) \<Rightarrow>
                      (case co_unmarshalIntake co (pp_Raw payload) of
                         None \<Rightarrow> Returns (400, p\<lparr>pe_table := t\<rparr>)
                       | Some info \<Rightarrow>
                           (case Persister_Persist rowKey
                              (GeneratePersistentMetrics (co_unmarshalGohai co) (info\<lparr>di_OrgID := pp_OrgID payload\<rparr>))
                              (p\<lparr>pe_table := t\<rparr>) of
                              Returns p \<Rightarrow> Returns (200, p) | Panics \<Rightarrow> Panics | Loops \<Rightarrow> Loops))))"

definition RemoveRowsHandler ::
  "'b table_api \<Rightarrow> (gobyte list \<Rightarrow> string list option) \<Rightarrow> body_read option \<Rightarrow> 'b Persister \<Rightarrow> (int \<times> 'b Persister) run" where
  "RemoveRowsHandler api unmarshal body p =
     (case body of
        None \<Rightarrow> Returns (400, p)
      | Some (data, False) \<Rightarrow> Returns (400, p)
      | Some (data, True) \<Rightarrow>
          (case unmarshal data of
             None \<Rightarrow> Returns (500, p)
           | Some rowKeys \<Rightarrow>
               (case storage_Remove api rowKeys (pe_table p) of
                  (False, t) \<Rightarrow> Returns (500, p\<lparr>pe_table := t\<rparr>)
                | (True, t) \<Rightarrow>
                    if pe_locked p then Loops
                    else Returns (200, p\<lparr>pe_table := t, pe_metrics := fold (\<lambda>r m. m(r := None)) rowKeys (pe_metrics p)\<rparr>))))"

definition IndexHandler ::
  "((string \<rightharpoonup> MetricData list) \<Rightarrow> gobyte list option) \<Rightarrow> 'b Persister \<Rightarrow> (int \<times> gobyte list) run" where
  "IndexHandler marshal p =
     (if pe_locked p then Loops
      else case marshal (pe_metrics p) of None \<Rightarrow> Returns (500, []) | Some data \<Rightarrow> Returns (200, data))"

section \<open>Send\<close>

text \<open>
  The loops of \<^verbatim>\<open>Send\<close>. \<open>push\<close> is the error of \<^verbatim>\<open>client.Push\<close>; the batches that were pushed are recorded. The
  metrics of a row are stamped in place. The first component is the error of a push inside the loops.
\<close>

definition stamp :: "int \<Rightarrow> int \<Rightarrow> MetricData \<Rightarrow> MetricData" where
  "stamp now interval m = m\<lparr>md_Time := now, md_Interval := interval\<rparr>"

fun send_row ::
  "(MetricData list \<Rightarrow> push_error option) \<Rightarrow> int \<Rightarrow> int \<Rightarrow> int \<Rightarrow> MetricData list \<Rightarrow> MetricData list \<Rightarrow> MetricData list list
    \<Rightarrow> push_error option \<times> MetricData list \<times> MetricData list \<times> MetricData list list" where
  "send_row push now interval maxSize [] metrics posts = (None, [], metrics, posts)"
| "send_row push now interval maxSize (m # row) metrics posts =
     (let m = stamp now interval m;
          metrics = metrics @ [m]
      in if int (length metrics) \<ge> maxSize then
           (case push metrics of
              Some e \<Rightarrow> (Some e, m # row, metrics, posts @ [metrics])
            | None \<Rightarrow>
                let (e, row, metrics, posts) = send_row push now interval maxSize row [] (posts @ [metrics])
                in (e, m # row, metrics, posts))
         else
           let (e, row, metrics, posts) = send_row push now interval maxSize row metrics posts
           in (e, m # row, metrics, posts))"

fun send_rows ::
  "(MetricData list \<Rightarrow> push_error option) \<Rightarrow> int \<Rightarrow> int \<Rightarrow> int \<Rightarrow> string list \<Rightarrow> (string \<rightharpoonup> MetricData list)
    \<Rightarrow> MetricData list \<Rightarrow> MetricData list list
    \<Rightarrow> push_error option \<times> (string \<rightharpoonup> MetricData list) \<times> MetricData list \<times> MetricData list list" where
  "send_rows push now interval maxSize [] rows metrics posts = (None, rows, metrics, posts)"
| "send_rows push now interval maxSize (k # ks) rows metrics posts =
     (case rows k of
        None \<Rightarrow> send_rows push now interval maxSize ks rows metrics posts
      | Some row \<Rightarrow>
          if length row < 1 then send_rows push now interval maxSize ks rows metrics posts
          else
            (case send_row push now interval maxSize row metrics posts of
               (Some e, row, metrics, posts) \<Rightarrow> (Some e, rows(k \<mapsto> row), metrics, posts)
             | (None, row, metrics, posts) \<Rightarrow>
                 send_rows push now interval maxSize ks (rows(k \<mapsto> row)) metrics posts))"

text \<open>The result: the error, the batches pushed, the persister.\<close>

definition Persister_Send ::
  "(MetricData list \<Rightarrow> push_error option) \<Rightarrow> int \<Rightarrow> string list \<Rightarrow> 'b Persister
    \<Rightarrow> (push_error option \<times> MetricData list list \<times> 'b Persister) run" where
  "Persister_Send push now order p =
     (if pe_locked p then Loops
      else
        case send_rows push now (pe_interval p) (pe_maxBufferSize p) order (pe_metrics p) [] [] of
          (Some e, rows, metrics, posts) \<Rightarrow> Returns (Some e, posts, p\<lparr>pe_metrics := rows, pe_locked := True\<rparr>)
        | (None, rows, metrics, posts) \<Rightarrow>
            let p = p\<lparr>pe_metrics := rows\<rparr>
            in if length metrics > 0 then Returns (push metrics, posts @ [metrics], p)
               else Returns (None, posts, p))"

text \<open>\<^verbatim>\<open>Push\<close> up to some number of ticks, each with its time and the order in which the rows are visited.\<close>

fun push_ticks ::
  "(MetricData list \<Rightarrow> push_error option) \<Rightarrow> (int \<times> string list) list \<Rightarrow> 'b Persister
    \<Rightarrow> (MetricData list list \<times> 'b Persister) run" where
  "push_ticks push [] p = Returns ([], p)"
| "push_ticks push ((now, order) # ticks) p =
     (case Persister_Send push now order p of
        Returns (e, posts, p) \<Rightarrow>
          (case push_ticks push ticks p of
             Returns (posts', p) \<Rightarrow> Returns (posts @ posts', p) | Panics \<Rightarrow> Panics | Loops \<Rightarrow> Loops)
      | Panics \<Rightarrow> Panics
      | Loops \<Rightarrow> Loops)"

definition Persister_Push ::
  "'b table_api \<Rightarrow> codecs \<Rightarrow> ((string \<rightharpoonup> DataDogIntakePayload) \<Rightarrow> string list) \<Rightarrow> (MetricData list \<Rightarrow> push_error option)
    \<Rightarrow> (int \<times> string list) list \<Rightarrow> 'b Persister \<Rightarrow> (MetricData list list \<times> 'b Persister) run" where
  "Persister_Push api co order push ticks p =
     (case Persister_load api co order p of
        Returns (False, p) \<Rightarrow> Returns ([], p)
      | Returns (True, p) \<Rightarrow> push_ticks push ticks p
      | Panics \<Rightarrow> Panics
      | Loops \<Rightarrow> Loops)"

section \<open>Starting\<close>

lemma sliceContains_set: "sliceContains xs x \<longleftrightarrow> x \<in> set xs"
  by (induction xs) auto

text \<open>A persister that was made starts empty and unlocked, over a table that has the column family it reads and writes.\<close>

lemma Persister_New_ready:
  assumes "Persister_New parse adm cfg t = Some p"
    and "\<And>n f u u'. aa_CreateColumnFamily adm n f u = (True, u') \<Longrightarrow> \<exists>fs. aa_TableInfo adm n u' = Some fs \<and> f \<in> set fs"
  shows "\<not> pe_locked p \<and> pe_metrics p = Map.empty \<and>
    (\<exists>fs. aa_TableInfo adm (cf_TableName cfg) (pe_table p) = Some fs \<and> ''intakePayload'' \<in> set fs)"
  using assms(1)
  by (auto simp: Persister_New_def storage_New_def ensure_family_def sliceContains_set
      split: option.splits prod.splits bool.splits if_splits dest: assms(2))

section \<open>Batches\<close>

lemma send_row_ok:
  fixes push :: "MetricData list \<Rightarrow> push_error option"
  assumes push: "push = (\<lambda>_. None)"
  shows "0 < maxSize \<Longrightarrow> int (length metrics) < maxSize \<Longrightarrow>
    \<exists>metrics' bs. send_row push now interval maxSize row metrics posts =
        (None, map (stamp now interval) row, metrics', posts @ bs) \<and>
      concat bs @ metrics' = metrics @ map (stamp now interval) row \<and>
      int (length metrics') < maxSize \<and> (\<forall>b \<in> set bs. int (length b) = maxSize)"
proof (induction row arbitrary: metrics posts)
  case (Cons m row)
  let ?m = "stamp now interval m"
  show ?case
  proof (cases "int (length (metrics @ [?m])) \<ge> maxSize")
    case True
    then have full: "int (length (metrics @ [?m])) = maxSize" using Cons.prems by simp
    obtain metrics' bs where rest:
      "send_row push now interval maxSize row [] (posts @ [metrics @ [?m]]) =
        (None, map (stamp now interval) row, metrics', (posts @ [metrics @ [?m]]) @ bs)"
      "concat bs @ metrics' = map (stamp now interval) row" "int (length metrics') < maxSize"
      "\<forall>b \<in> set bs. int (length b) = maxSize"
      using Cons.IH [of "[]" "posts @ [metrics @ [?m]]"] Cons.prems by auto
    then show ?thesis
      using True full by (intro exI [of _ metrics'] exI [of _ "(metrics @ [?m]) # bs"]) (simp add: Let_def push)
  next
    case False
    then show ?thesis
      using Cons.IH [of "metrics @ [?m]" posts] Cons.prems by (auto simp: Let_def)
  qed
qed simp

definition row_list :: "(string \<rightharpoonup> MetricData list) \<Rightarrow> string \<Rightarrow> MetricData list" where
  "row_list rows k = (case rows k of None \<Rightarrow> [] | Some row \<Rightarrow> row)"

lemma row_list_upd: "row_list (rows(k \<mapsto> v)) j = (if j = k then v else row_list rows j)"
  by (simp add: row_list_def)

lemma send_rows_skip:
  "row_list rows k = [] \<Longrightarrow>
   send_rows push now interval maxSize (k # ks) rows metrics posts = send_rows push now interval maxSize ks rows metrics posts"
  by (auto simp: row_list_def split: option.splits)

lemma send_rows_ok:
  fixes push :: "MetricData list \<Rightarrow> push_error option"
  assumes "push = (\<lambda>_. None)" and max: "0 < maxSize"
  shows "distinct order \<Longrightarrow> int (length metrics) < maxSize \<Longrightarrow>
    \<exists>rows' metrics' bs. send_rows push now interval maxSize order rows metrics posts =
        (None, rows', metrics', posts @ bs) \<and>
      concat bs @ metrics' = metrics @ concat (map (\<lambda>k. map (stamp now interval) (row_list rows k)) order) \<and>
      int (length metrics') < maxSize \<and> (\<forall>b \<in> set bs. int (length b) = maxSize)"
proof (induction order arbitrary: rows metrics posts)
  case (Cons k ks)
  have ks: "distinct ks" "k \<notin> set ks" using Cons.prems(1) by simp_all
  show ?case
  proof (cases "row_list rows k = []")
    case True
    then show ?thesis
      using Cons.IH [OF ks(1) Cons.prems(2), of rows posts] by (simp add: send_rows_skip del: send_rows.simps)
  next
    case False
    then obtain row where row: "rows k = Some row" "row \<noteq> []" by (auto simp: row_list_def split: option.splits)
    obtain metrics1 bs1 where one:
      "send_row push now interval maxSize row metrics posts = (None, map (stamp now interval) row, metrics1, posts @ bs1)"
      "concat bs1 @ metrics1 = metrics @ map (stamp now interval) row" "int (length metrics1) < maxSize"
      "\<forall>b \<in> set bs1. int (length b) = maxSize"
      using send_row_ok [OF assms(1) max Cons.prems(2)] by blast
    let ?rows = "rows(k \<mapsto> map (stamp now interval) row)"
    obtain rows' metrics' bs where rest:
      "send_rows push now interval maxSize ks ?rows metrics1 (posts @ bs1) = (None, rows', metrics', (posts @ bs1) @ bs)"
      "concat bs @ metrics' = metrics1 @ concat (map (\<lambda>j. map (stamp now interval) (row_list ?rows j)) ks)"
      "int (length metrics') < maxSize" "\<forall>b \<in> set bs. int (length b) = maxSize"
      using Cons.IH [OF ks(1) one(3), of ?rows "posts @ bs1"] by blast
    have other: "map (\<lambda>j. map (stamp now interval) (row_list ?rows j)) ks = map (\<lambda>j. map (stamp now interval) (row_list rows j)) ks"
      using ks(2) by (auto simp: row_list_upd)
    have "concat (bs1 @ bs) @ metrics' =
        (concat bs1 @ metrics1) @ concat (map (\<lambda>j. map (stamp now interval) (row_list rows j)) ks)"
      using rest(2) unfolding other by simp
    also have "\<dots> = metrics @ concat (map (\<lambda>j. map (stamp now interval) (row_list rows j)) (k # ks))"
      unfolding one(2) using row by (simp add: row_list_def [of rows k])
    finally show ?thesis
      using row one(1) one(4) rest(1,3,4)
      by (intro exI [of _ rows'] exI [of _ metrics'] exI [of _ "bs1 @ bs"]) (auto simp: Suc_le_eq)
  qed
qed simp

text \<open>A push that fails inside the loops was of a full batch; the metrics left for the end are fewer.\<close>

lemma send_row_error:
  "send_row push now interval maxSize row metrics posts = (e, row', metrics', posts') \<Longrightarrow>
   0 < maxSize \<Longrightarrow> int (length metrics) < maxSize \<Longrightarrow>
   (if e = None then int (length metrics') < maxSize else posts' \<noteq> [] \<and> int (length (last posts')) = maxSize)"
proof (induction row arbitrary: metrics posts row')
  case (Cons m row)
  let ?ms = "metrics @ [stamp now interval m]"
  show ?case
  proof (cases "int (length ?ms) \<ge> maxSize \<and> push ?ms \<noteq> None")
    case True
    then show ?thesis using Cons.prems by (auto simp: Let_def)
  next
    case False
    define rest where "rest = (if int (length ?ms) \<ge> maxSize then ([], posts @ [?ms]) else (?ms, posts))"
    obtain row1 where "send_row push now interval maxSize row (fst rest) (snd rest) = (e, row1, metrics', posts')"
      using Cons.prems(1) False by (auto simp: rest_def Let_def split: prod.splits if_splits)
    moreover have "int (length (fst rest)) < maxSize" using Cons.prems(2) by (simp add: rest_def)
    ultimately show ?thesis using Cons.IH Cons.prems(2) by blast
  qed
qed simp

lemma send_rows_error:
  "send_rows push now interval maxSize order rows metrics posts = (e, rows', metrics', posts') \<Longrightarrow>
   0 < maxSize \<Longrightarrow> int (length metrics) < maxSize \<Longrightarrow>
   (if e = None then int (length metrics') < maxSize else posts' \<noteq> [] \<and> int (length (last posts')) = maxSize)"
proof (induction order arbitrary: rows metrics posts)
  case (Cons k ks)
  show ?case
  proof (cases "row_list rows k = []")
    case True
    then show ?thesis
      using Cons.IH [OF Cons.prems(1) [unfolded send_rows_skip [OF True]] Cons.prems(2,3)] by simp
  next
    case False
    then obtain row where row: "rows k = Some row" "row \<noteq> []" by (auto simp: row_list_def split: option.splits)
    obtain e1 row1 metrics1 posts1 where one: "send_row push now interval maxSize row metrics posts = (e1, row1, metrics1, posts1)"
      by (metis prod_cases4)
    show ?thesis
      using Cons.IH [of "rows(k \<mapsto> row1)" metrics1 posts1] Cons.prems row one send_row_error [OF one Cons.prems(2,3)]
      by (cases e1) (auto simp del: fun_upd_apply)
  qed
qed simp

section \<open>Reading the table\<close>

definition decode_cell :: "codecs \<Rightarrow> gobyte list \<Rightarrow> DataDogIntakePayload option" where
  "decode_cell co cell =
     (case co_unmarshalPayload co cell of
        None \<Rightarrow> None
      | Some payload \<Rightarrow> map_option (\<lambda>i. i\<lparr>di_OrgID := pp_OrgID payload\<rparr>) (co_unmarshalIntake co (pp_Raw payload)))"

lemma retrieve_row_cell:
  "retrieve_row co r m =
     (case snd r of None \<Rightarrow> Some m | Some cell \<Rightarrow> map_option (\<lambda>i. m(fst r \<mapsto> i)) (decode_cell co cell))"
  by (auto simp: retrieve_row_def decode_cell_def split: option.splits)

definition rows_decode :: "codecs \<Rightarrow> (string \<times> gobyte list option) list \<Rightarrow> bool" where
  "rows_decode co rows \<longleftrightarrow> (\<forall>k cell. (k, Some cell) \<in> set rows \<longrightarrow> decode_cell co cell \<noteq> None)"

lemma retrieve_rows_lookup:
  "distinct (map fst rows) \<Longrightarrow> rows_decode co rows \<Longrightarrow>
   \<exists>m'. retrieve_rows co rows True m = Some m' \<and> (\<forall>k. k \<notin> fst ` set rows \<longrightarrow> m' k = m k) \<and>
     (\<forall>k cell. (k, Some cell) \<in> set rows \<longrightarrow> m' k = decode_cell co cell)"
proof (induction rows arbitrary: m)
  case (Cons r rows)
  obtain k c where r: "r = (k, c)" by (cases r)
  have rest: "distinct (map fst rows)" "rows_decode co rows" "k \<notin> fst ` set rows"
    using Cons.prems r by (auto simp: rows_decode_def)
  show ?case
  proof (cases c)
    case None
    obtain m' where m': "retrieve_rows co rows True m = Some m'" "\<forall>j. j \<notin> fst ` set rows \<longrightarrow> m' j = m j"
      "\<forall>j cell. (j, Some cell) \<in> set rows \<longrightarrow> m' j = decode_cell co cell"
      using Cons.IH [OF rest(1,2), of m] by blast
    then show ?thesis by (intro exI [of _ m']) (simp add: r None retrieve_row_cell)
  next
    case (Some cell)
    then obtain i where i: "decode_cell co cell = Some i" using Cons.prems(2) r by (fastforce simp: rows_decode_def)
    obtain m' where m': "retrieve_rows co rows True (m(k \<mapsto> i)) = Some m'"
      "\<forall>j. j \<notin> fst ` set rows \<longrightarrow> m' j = (m(k \<mapsto> i)) j"
      "\<forall>j cell. (j, Some cell) \<in> set rows \<longrightarrow> m' j = decode_cell co cell"
      using Cons.IH [OF rest(1,2), of "m(k \<mapsto> i)"] by blast
    then show ?thesis using rest(3) by (intro exI [of _ m']) (simp add: r Some i retrieve_row_cell)
  qed
qed simp

lemma retrieve_rows_stops:
  assumes "rows_decode co good" and "decode_cell co cell = None"
  shows "retrieve_rows co (good @ (k, Some cell) # rest) ok m = retrieve_rows co good True m"
  using assms(1)
proof (induction good arbitrary: m)
  case Nil
  then show ?case using assms(2) by (simp add: retrieve_row_cell)
next
  case (Cons r good)
  then have "rows_decode co good" by (auto simp: rows_decode_def)
  then show ?case using Cons.IH by (auto split: option.splits)
qed

text \<open>Rows leave what is kept under other keys alone, whether they decode or not.\<close>

lemma retrieve_rows_others: "\<exists>m'. retrieve_rows co rows True m = Some m' \<and> (\<forall>k. k \<notin> fst ` set rows \<longrightarrow> m' k = m k)"
proof (induction rows arbitrary: m)
  case (Cons r rows)
  show ?case
  proof (cases "retrieve_row co r m")
    case (Some m1)
    have "m1 k = m k" if "k \<noteq> fst r" for k using Some that by (auto simp: retrieve_row_cell split: option.splits)
    then show ?thesis using Some Cons.IH [of m1] by auto
  qed simp
qed simp

text \<open>A row that decodes is kept exactly when all rows before it decode, whatever comes after it.\<close>

lemma retrieve_rows_first:
  assumes "distinct (map fst (before @ (k, Some cell) # rest))" and "decode_cell co cell \<noteq> None"
  shows "\<exists>m'. retrieve_rows co (before @ (k, Some cell) # rest) True m = Some m' \<and>
    m' k = (if rows_decode co before then decode_cell co cell else m k)"
  using assms(1)
proof (induction before arbitrary: m)
  case Nil
  obtain i where i: "decode_cell co cell = Some i" using assms(2) by blast
  obtain m' where "retrieve_rows co rest True (m(k \<mapsto> i)) = Some m'" "m' k = Some i"
    using retrieve_rows_others [of co rest "m(k \<mapsto> i)"] Nil by auto
  then show ?case using i by (simp add: retrieve_row_cell rows_decode_def)
next
  case (Cons r before)
  show ?case
  proof (cases "retrieve_row co r m")
    case None
    then have "\<not> rows_decode co (r # before)" by (cases r) (auto simp: rows_decode_def retrieve_row_cell split: option.splits)
    then show ?thesis using None by simp
  next
    case (Some m1)
    have "m1 k = m k" using Some Cons.prems by (auto simp: retrieve_row_cell split: option.splits)
    moreover have "rows_decode co (r # before) \<longleftrightarrow> rows_decode co before"
      using Some by (cases r) (auto simp: rows_decode_def retrieve_row_cell split: option.splits)
    ultimately show ?thesis using Some Cons.IH [of m1] Cons.prems by auto
  qed
qed

lemma load_payloads_eq:
  "\<not> pe_locked p \<Longrightarrow> distinct ks \<Longrightarrow>
   \<exists>p'. load_payloads co payloads ks p = Returns p' \<and> pe_table p' = pe_table p \<and> \<not> pe_locked p' \<and>
     (\<forall>k. pe_metrics p' k = (if k \<in> set ks \<and> payloads k \<noteq> None
        then map_option (GeneratePersistentMetrics (co_unmarshalGohai co)) (payloads k) else pe_metrics p k))"
proof (induction ks arbitrary: p)
  case (Cons k ks)
  show ?case
  proof (cases "payloads k")
    case None
    then show ?thesis using Cons.IH [OF Cons.prems(1)] Cons.prems(2) by fastforce
  next
    case (Some v)
    let ?p = "p\<lparr>pe_metrics := (pe_metrics p)(k \<mapsto> GeneratePersistentMetrics (co_unmarshalGohai co) v)\<rparr>"
    obtain p' where p': "load_payloads co payloads ks ?p = Returns p'" "pe_table p' = pe_table ?p" "\<not> pe_locked p'"
      "\<forall>j. pe_metrics p' j = (if j \<in> set ks \<and> payloads j \<noteq> None
        then map_option (GeneratePersistentMetrics (co_unmarshalGohai co)) (payloads j) else pe_metrics ?p j)"
      using Cons.IH [of ?p] Cons.prems by auto
    then show ?thesis
      using Some Cons.prems by (intro exI [of _ p']) (auto simp: Persister_Persist_def)
  qed
qed simp

section \<open>Properties\<close>

text \<open>
  Sending when every push succeeds: whatever order the rows are visited in, every metric of every row is
  pushed exactly once, stamped with the time and the interval, in batches of exactly the configured size
  but for the last, which is not empty and not larger; the mutex is free afterwards.
\<close>

theorem send_packs_batches:
  assumes "\<not> pe_locked p" and "0 < pe_maxBufferSize p" and "map_order order (pe_metrics p)"
  shows "\<exists>posts p'. Persister_Send (\<lambda>_. None) now order p = Returns (None, posts, p') \<and> \<not> pe_locked p' \<and>
    concat posts = concat (map (\<lambda>k. map (stamp now (pe_interval p)) (row_list (pe_metrics p) k)) order) \<and>
    (\<forall>b \<in> set posts. b \<noteq> [] \<and> int (length b) \<le> pe_maxBufferSize p) \<and>
    (\<forall>b \<in> set (butlast posts). int (length b) = pe_maxBufferSize p)"
proof -
  have "distinct order" using assms(3) by (simp add: map_order_def)
  then obtain rows' metrics' bs where run:
    "send_rows (\<lambda>_. None) now (pe_interval p) (pe_maxBufferSize p) order (pe_metrics p) [] [] = (None, rows', metrics', bs)"
    "concat bs @ metrics' = concat (map (\<lambda>k. map (stamp now (pe_interval p)) (row_list (pe_metrics p) k)) order)"
    "int (length metrics') < pe_maxBufferSize p" "\<forall>b \<in> set bs. int (length b) = pe_maxBufferSize p"
    using send_rows_ok [OF refl assms(2), of order "[]" now "pe_interval p" "pe_metrics p" "[]"] assms(2) by auto
  have full: "b \<noteq> []" if "b \<in> set bs" for b using run(4) that assms(2) by auto
  show ?thesis
  proof (cases "metrics' = []")
    case True
    then show ?thesis
      using assms(1) run full by (auto simp: Persister_Send_def dest: in_set_butlastD)
  next
    case False
    then show ?thesis
      using assms(1) run full by (auto simp: Persister_Send_def)
  qed
qed

definition sample_persister :: "unit Persister" where
  "sample_persister = \<lparr>pe_locked = False, pe_metrics = [''1:a'' \<mapsto> [info_metric 1 ''x'' [], info_metric 1 ''y'' []]],
     pe_client = \<lparr>mc_url = ''u'', mc_apiKey = ''k''\<rparr>, pe_table = (), pe_prefix = [], pe_interval = 60, pe_maxBufferSize = 1\<rparr>"

theorem send_packs_batches_witness:
  "\<exists>posts p'. Persister_Send (\<lambda>_. None) 5 [''1:a''] sample_persister = Returns (None, posts, p') \<and> \<not> pe_locked p' \<and>
    concat posts = [stamp 5 60 (info_metric 1 ''x'' []), stamp 5 60 (info_metric 1 ''y'' [])]"
  using send_packs_batches [of sample_persister "[''1:a'']" 5]
  by (auto simp: sample_persister_def map_order_def row_list_def)

text \<open>
  C30. A push that fails inside the loops leaves the mutex taken: when \<^verbatim>\<open>Send\<close> returns an error and the batch it
  could not push was a full one, every later call that needs the mutex waits for ever: storing metrics,
  the index and every later \<^verbatim>\<open>Send\<close>.
\<close>

theorem failed_push_blocks_persister:
  assumes "Persister_Send push now order p = Returns (Some e, posts, p')" and "0 < pe_maxBufferSize p"
    and "int (length (last posts)) = pe_maxBufferSize p"
  shows "Persister_Persist rowKey metrics p' = Loops \<and> IndexHandler marshal p' = Loops \<and>
    Persister_Send push' now' order' p' = Loops"
proof -
  obtain e1 rows ms posts1 where run:
    "send_rows push now (pe_interval p) (pe_maxBufferSize p) order (pe_metrics p) [] [] = (e1, rows, ms, posts1)"
    by (metis prod_cases4)
  have small: "e1 = None \<Longrightarrow> int (length ms) < pe_maxBufferSize p"
    using send_rows_error [OF run] assms(2) by simp
  have "pe_locked p'"
  proof (cases e1)
    case None
    then show ?thesis using assms run small by (auto simp: Persister_Send_def Let_def split: if_splits)
  next
    case (Some e1)
    then show ?thesis using assms(1) run by (auto simp: Persister_Send_def split: if_splits)
  qed
  then show ?thesis by (simp add: Persister_Persist_def IndexHandler_def Persister_Send_def)
qed

theorem failed_push_blocks_persister_witness:
  "\<exists>posts p'. Persister_Send (\<lambda>_. Some ErrSubmit) 5 [''1:a''] sample_persister = Returns (Some ErrSubmit, posts, p') \<and>
    Persister_Persist ''2:b'' [] p' = Loops"
proof -
  let ?m = "stamp 5 60 (info_metric 1 ''x'' [])"
  let ?p = "sample_persister\<lparr>pe_metrics := [''1:a'' \<mapsto> [?m, info_metric 1 ''y'' []]], pe_locked := True\<rparr>"
  have run: "Persister_Send (\<lambda>_. Some ErrSubmit) 5 [''1:a''] sample_persister = Returns (Some ErrSubmit, [[?m]], ?p)"
    by (simp add: Persister_Send_def sample_persister_def Let_def)
  show ?thesis
    using failed_push_blocks_persister [OF run, of "''2:b''" "[]"] run by (simp add: sample_persister_def)
qed

definition sample_payload :: PersistPayload where
  "sample_payload = \<lparr>pp_OrgID = 1, pp_Hostname = ''a'', pp_Raw = []\<rparr>"

definition sample_intake :: DataDogIntakePayload where
  "sample_intake = \<lparr>di_AgentVersion = ''6'', di_UUID = [], di_OS = ''linux'', di_InternalHostname = ''a'', di_Python = [],
     di_SystemStats = \<lparr>ss_CPUCores = 1, ss_Machine = [], ss_Platform = [], ss_Processor = [], ss_PythonV = [],
       ss_MacV = [], ss_NixV = [], ss_FbsdV = [], ss_WinV = []\<rparr>,
     di_Meta = \<lparr>me_SocketHostname = [], me_Timezones = [], me_SocketFqdn = [], me_Hostname = [], me_EC2Hostname = [],
       me_InstanceID = [], me_HostAlias = []\<rparr>,
     di_TagsSystem = [], di_TagsGoogleCloudPlatform = [], di_Gohai = [], di_OrgID = 0\<rparr>"

text \<open>A table that holds rows in a list, and codecs for one payload.\<close>

definition sample_table :: "(string \<times> gobyte list option) list table_api" where
  "sample_table = \<lparr>ta_Apply = (\<lambda>k v t. (True, (k, Some v) # filter (\<lambda>r. fst r \<noteq> k) t)),
     ta_ReadRows = (\<lambda>prefix t. (filter (\<lambda>r. has_prefix prefix (fst r)) t, True)), ta_ApplyBulk = (\<lambda>ks t. (True, filter (\<lambda>r. fst r \<notin> set ks) t))\<rparr>"

definition sample_codecs :: codecs where
  "sample_codecs = \<lparr>co_marshalPayload = (\<lambda>x. if x = sample_payload then Some [1] else None),
     co_unmarshalPayload = (\<lambda>b. if b = [1] then Some sample_payload else None),
     co_unmarshalIntake = (\<lambda>b. Some sample_intake), co_unmarshalGohai = (\<lambda>s. None)\<rparr>"

definition sample_store :: "(string \<times> gobyte list option) list \<Rightarrow> (string \<times> gobyte list option) list Persister" where
  "sample_store rows = \<lparr>pe_locked = False, pe_metrics = Map.empty, pe_client = \<lparr>mc_url = ''u'', mc_apiKey = ''k''\<rparr>,
     pe_table = rows, pe_prefix = [], pe_interval = 60, pe_maxBufferSize = 1\<rparr>"

text \<open>
  C31. A payload that was accepted survives a restart, unless a bad row comes before it: after \<^verbatim>\<open>PersistHandler\<close> answered
  200, a new persister that loads the same table, with a prefix that the payload's row key has, holds under that key
  exactly the metrics the handler stored if every row that is read before it decodes, and what it held before
  otherwise; rows after it do not matter. This relies on the table returning the rows with the prefix and distinct
  keys, among them the one that was stored, and on JSON decoding what it encoded of a decoded payload.
\<close>

theorem persisted_payload_survives_restart:
  assumes "PersistHandler api co (Some (data, True)) p = Returns (200, p')"
    and "co_unmarshalPayload co data = Some payload"
    and "\<And>d x y. co_unmarshalPayload co d = Some x \<Longrightarrow> co_marshalPayload co x = Some y \<Longrightarrow> co_unmarshalPayload co y = Some x"
    and "\<And>k v t t' rows. has_prefix (pe_prefix q) k \<Longrightarrow> ta_Apply api k v t = (True, t') \<Longrightarrow>
      ta_ReadRows api (pe_prefix q) t' = (rows, True) \<Longrightarrow> (k, Some v) \<in> set rows"
    and "has_prefix (pe_prefix q) (row_key payload)"
    and "ta_ReadRows api (pe_prefix q) (pe_table p') = (rows, True)" and "distinct (map fst rows)"
    and "pe_table q = pe_table p'" and "\<not> pe_locked q"
    and "\<And>m. storage_Retrieve api co (pe_prefix q) (pe_table q) = Some m \<Longrightarrow> map_order (order m) m"
  shows "\<exists>q'. Persister_load api co order q = Returns (True, q') \<and> pe_metrics p' (row_key payload) \<noteq> None \<and>
    pe_metrics q' (row_key payload) =
      (if rows_decode co (takeWhile (\<lambda>r. fst r \<noteq> row_key payload) rows)
       then pe_metrics p' (row_key payload) else pe_metrics q (row_key payload))"
proof -
  let ?k = "row_key payload"
  obtain cell t info where store: "co_marshalPayload co payload = Some cell"
    "ta_Apply api ?k cell (pe_table p) = (True, t)" "co_unmarshalIntake co (pp_Raw payload) = Some info"
    and p': "pe_table p' = t" "pe_metrics p' ?k =
      Some (GeneratePersistentMetrics (co_unmarshalGohai co) (info\<lparr>di_OrgID := pp_OrgID payload\<rparr>))"
    using assms(1,2)
    by (auto simp: PersistHandler_def storage_Store_def Persister_Persist_def Let_def
        split: option.splits prod.splits bool.splits run.splits if_splits)
  have "(?k, Some cell) \<in> set rows" using assms(4) [OF assms(5) store(2)] assms(6) p'(1) by simp
  then obtain before rest where rows: "rows = before @ (?k, Some cell) # rest" by (meson split_list)
  have first: "takeWhile (\<lambda>r. fst r \<noteq> ?k) rows = before"
    using assms(7) unfolding rows by (subst takeWhile_append2) force+
  have cell: "decode_cell co cell = Some (info\<lparr>di_OrgID := pp_OrgID payload\<rparr>)"
    using assms(3) [OF assms(2) store(1)] store(3) by (simp add: decode_cell_def)
  obtain m where m: "retrieve_rows co rows True Map.empty = Some m" "m ?k = (if rows_decode co before then decode_cell co cell else None)"
    using retrieve_rows_first [OF assms(7) [unfolded rows], of co Map.empty] cell unfolding rows by auto
  have ret: "storage_Retrieve api co (pe_prefix q) (pe_table q) = Some m"
    using assms(6,8) m(1) by (simp add: storage_Retrieve_def)
  have order: "distinct (order m)" "set (order m) = dom m" using assms(10) [OF ret] by (auto simp: map_order_def)
  obtain q' where "load_payloads co m (order m) q = Returns q'"
    "pe_metrics q' ?k = (if ?k \<in> set (order m) \<and> m ?k \<noteq> None
       then map_option (GeneratePersistentMetrics (co_unmarshalGohai co)) (m ?k) else pe_metrics q ?k)"
    using load_payloads_eq [OF assms(9) order(1), of co m] by auto
  then show ?thesis using ret m(2) cell p'(2) order(2) first by (auto simp: Persister_load_def)
qed

theorem persisted_payload_survives_restart_witness:
  "\<exists>q'. Persister_load sample_table sample_codecs (\<lambda>m. [''1:a'']) (sample_store [(''1:a'', Some [1])]) = Returns (True, q') \<and>
    pe_metrics q' ''1:a'' \<noteq> None"
proof -
  let ?p' = "(sample_store [(''1:a'', Some [1])])\<lparr>pe_metrics :=
    [''1:a'' \<mapsto> GeneratePersistentMetrics (\<lambda>s. None) (sample_intake\<lparr>di_OrgID := 1\<rparr>)]\<rparr>"
  have key: "row_key sample_payload = ''1:a''"
    by (simp add: row_key_def sample_payload_def itoa_def nat_digits.simps digit_char_def char_of_def bit_iff_odd)
  have cell: "decode_cell sample_codecs [1] = Some (sample_intake\<lparr>di_OrgID := 1\<rparr>)"
    by (simp add: decode_cell_def sample_codecs_def sample_payload_def)
  have run: "PersistHandler sample_table sample_codecs (Some ([1], True)) (sample_store []) = Returns (200, ?p')"
    using key by (simp add: PersistHandler_def storage_Store_def Persister_Persist_def Let_def sample_codecs_def sample_table_def
        sample_store_def sample_payload_def)
  have rows: "ta_ReadRows sample_table (pe_prefix (sample_store [(''1:a'', Some [1])])) (pe_table ?p') = ([(''1:a'', Some [1])], True)"
    by (simp add: sample_table_def sample_store_def)
  have codec: "co_unmarshalPayload sample_codecs y = Some x" if "co_marshalPayload sample_codecs x = Some y" for x y
    using that by (simp add: sample_codecs_def split: if_splits)
  show ?thesis
    using persisted_payload_survives_restart [OF run _ codec _ _ rows, of sample_payload "\<lambda>m. [''1:a'']"] key cell
    by (auto simp: sample_codecs_def sample_table_def sample_store_def rows_decode_def storage_Retrieve_def
        map_order_def retrieve_row_cell split: if_splits)
qed

text \<open>
  One bad row hides the rest: a row whose cell does not decode ends the loading of the table without an
  error; the payloads before it are loaded and those after it are not.
\<close>

theorem bad_row_hides_later_rows:
  assumes "ta_ReadRows api prefix t = (good @ (k, Some cell) # rest, ok)" and "rows_decode co good"
    and "distinct (map fst good)" and "decode_cell co cell = None"
  shows "\<exists>m. storage_Retrieve api co prefix t = Some m \<and>
    (\<forall>j c. (j, Some c) \<in> set good \<longrightarrow> m j = decode_cell co c) \<and>
    (\<forall>j. j \<in> fst ` set rest - fst ` set good \<longrightarrow> m j = None)"
  using retrieve_rows_lookup [OF assms(3,2), of Map.empty] assms(1) retrieve_rows_stops [OF assms(2,4)]
  by (auto simp: storage_Retrieve_def)

theorem bad_row_hides_later_rows_witness:
  "\<exists>m. storage_Retrieve sample_table sample_codecs [] [(''1:a'', Some [1]), (''2:b'', Some [0]), (''3:c'', Some [1])] = Some m \<and>
    m ''1:a'' \<noteq> None \<and> m ''3:c'' = None"
proof -
  have cells: "decode_cell sample_codecs [1] = Some (sample_intake\<lparr>di_OrgID := 1\<rparr>)" "decode_cell sample_codecs [0] = None"
    by (simp_all add: decode_cell_def sample_codecs_def sample_payload_def)
  then show ?thesis
    using bad_row_hides_later_rows [of sample_table "[]" "[(''1:a'', Some [1]), (''2:b'', Some [0]), (''3:c'', Some [1])]"
        "[(''1:a'', Some [1])]" "''2:b''" "[0]" "[(''3:c'', Some [1])]" True sample_codecs]
    by (auto simp: sample_table_def rows_decode_def)
qed

end
