(* ===== verification/Dur.thy ===== *)
theory Dur
  imports GoNumeric
begin

text \<open>
  The vendored \<^verbatim>\<open>raintank/dur\<close> as far as \<^verbatim>\<open>main\<close> uses it for the flag \<^verbatim>\<open>timerange-limit\<close>: durations such as \<^verbatim>\<open>1d6h\<close> as
  numbers of seconds in 32 bits, with \<^verbatim>\<open>FormatDuration\<close>, their printer.

  \<^item> The product of a number and its unit is an \<^verbatim>\<open>int\<close> that is cut to 32 bits, and the sum wraps around.
  \<^item> In the printer no step wraps: what is subtracted is a multiple of the unit below the rest. It is
    modelled on natural numbers.
\<close>

section \<open>Parsing\<close>

datatype dur_error = ErrEmpty | ErrNegative | ErrNonZero | ErrUnknownTimeUnit | ErrNumber num_error

definition is_digit :: "char \<Rightarrow> bool" where
  "is_digit c \<longleftrightarrow> digit_val c \<noteq> None"

definition sMulti :: nat where "sMulti = 1"
definition mMulti :: nat where "mMulti = 60"
definition hMulti :: nat where "hMulti = 60 * 60"
definition dMulti :: nat where "dMulti = 60 * 60 * 24"
definition wMulti :: nat where "wMulti = 60 * 60 * 24 * 7"
definition monMulti :: nat where "monMulti = 60 * 60 * 24 * 30"
definition yMulti :: nat where "yMulti = 60 * 60 * 24 * 365"

lemmas multi_defs = sMulti_def mMulti_def hMulti_def dMulti_def wMulti_def monMulti_def yMulti_def

definition unit_multi :: "string \<Rightarrow> nat option" where
  "unit_multi unitStr =
     (if unitStr \<in> {'''', ''s'', ''sec'', ''secs'', ''second'', ''seconds''} then Some sMulti
      else if unitStr \<in> {''m'', ''min'', ''mins'', ''minute'', ''minutes''} then Some mMulti
      else if unitStr \<in> {''h'', ''hour'', ''hours''} then Some hMulti
      else if unitStr \<in> {''d'', ''day'', ''days''} then Some dMulti
      else if unitStr \<in> {''w'', ''week'', ''weeks''} then Some wMulti
      else if unitStr \<in> {''mon'', ''month'', ''months''} then Some monMulti
      else if unitStr \<in> {''y'', ''year'', ''years''} then Some yMulti
      else None)"

lemma drop_both_shorter:
  "s \<noteq> [] \<Longrightarrow> length (dropWhile (\<lambda>c. \<not> P c) (dropWhile P s)) < length s"
proof (cases s)
  case (Cons c cs)
  then show ?thesis
    using length_dropWhile_le [of P cs] length_dropWhile_le [of "\<lambda>c. \<not> P c" cs]
      length_dropWhile_le [of "\<lambda>c. \<not> P c" "dropWhile P cs"]
    by (cases "P c") auto
qed simp

function duration_loop :: "string \<Rightarrow> uint32 \<Rightarrow> dur_error + uint32" where
  "duration_loop s acc =
     (if s = [] then Inr acc
      else
        let numStr = takeWhile is_digit s;
            s1 = dropWhile is_digit s;
            unitStr = takeWhile (\<lambda>c. \<not> is_digit c) s1;
            s2 = dropWhile (\<lambda>c. \<not> is_digit c) s1
        in case unit_multi unitStr of
             None \<Rightarrow> Inl ErrUnknownTimeUnit
           | Some units \<Rightarrow>
               (case atoi numStr of
                  Inl e \<Rightarrow> Inl (ErrNumber e)
                | Inr num \<Rightarrow> duration_loop s2 (acc + uint32_of (num * int units))))"
  by pat_completeness auto

termination
  by (relation "measure (\<lambda>(s, acc). length s)") (simp_all add: drop_both_shorter)

declare duration_loop.simps [simp del]

definition ParseDuration :: "string \<Rightarrow> dur_error + uint32" where
  "ParseDuration s =
     (if s = [] then Inl ErrEmpty else if hd s = CHR ''-'' then Inl ErrNegative else duration_loop s 0)"

definition ParseNDuration :: "string \<Rightarrow> dur_error + uint32" where
  "ParseNDuration s =
     (case ParseDuration s of
        Inl e \<Rightarrow> Inl e
      | Inr i \<Rightarrow> if i = 0 then Inl ErrNonZero else Inr i)"

text \<open>\<^verbatim>\<open>MustParseNDuration\<close> panics where this is \<^term>\<open>None\<close>.\<close>

definition MustParseNDuration :: "string \<Rightarrow> uint32 option" where
  "MustParseNDuration s = (case ParseNDuration s of Inl e \<Rightarrow> None | Inr sec \<Rightarrow> Some sec)"

section \<open>Printing\<close>

function format_loop :: "nat \<Rightarrow> string" where
  "format_loop seconds =
     (if seconds = 0 then []
      else if yMulti \<le> seconds then nat_digits (seconds div yMulti) @ ''y'' @ format_loop (seconds - seconds div yMulti * yMulti)
      else if wMulti \<le> seconds then nat_digits (seconds div wMulti) @ ''w'' @ format_loop (seconds - seconds div wMulti * wMulti)
      else if dMulti \<le> seconds then nat_digits (seconds div dMulti) @ ''d'' @ format_loop (seconds - seconds div dMulti * dMulti)
      else if hMulti \<le> seconds then nat_digits (seconds div hMulti) @ ''h'' @ format_loop (seconds - seconds div hMulti * hMulti)
      else if mMulti \<le> seconds then nat_digits (seconds div mMulti) @ ''m'' @ format_loop (seconds - seconds div mMulti * mMulti)
      else nat_digits seconds @ ''s'')"
  by pat_completeness auto

termination
  by (relation "measure id") (simp_all add: multi_defs)

declare format_loop.simps [simp del]

definition FormatDuration :: "uint32 \<Rightarrow> string" where
  "FormatDuration seconds = (if seconds = 0 then ''0s'' else format_loop (unat seconds))"

section \<open>Terms of a duration\<close>

lemma is_digit_nat_digits: "c \<in> set (nat_digits n) \<Longrightarrow> is_digit c"
  unfolding is_digit_def by (rule set_nat_digits)

lemma is_digit_hd: "is_digit (hd (nat_digits n))"
  unfolding is_digit_def by (rule hd_nat_digits)

lemma atoi_nat_digits: "n < 2 ^ 63 \<Longrightarrow> atoi (nat_digits n) = Inr (int n)"
  using parse_int_itoa [of 64 "int n"] by (simp add: atoi_def itoa_def)

text \<open>A unit as it can be written in front of another term: without digits, and not empty.\<close>

definition is_unit :: "string \<Rightarrow> nat \<Rightarrow> bool" where
  "is_unit u m \<longleftrightarrow> u \<noteq> [] \<and> unit_multi u = Some m \<and> (\<forall>c \<in> set u. \<not> is_digit c)"

lemma duration_loop_term:
  assumes "n < 2 ^ 63" and "is_unit u m" and "rest = [] \<or> is_digit (hd rest)"
  shows "duration_loop (nat_digits n @ u @ rest) acc = duration_loop rest (acc + word_of_nat (n * m))"
proof -
  let ?s = "nat_digits n @ u @ rest"
  have u: "u \<noteq> []" "\<not> is_digit (hd u)" "\<forall>c \<in> set u. \<not> is_digit c" "unit_multi u = Some m"
    using assms(2) by (auto simp: is_unit_def)
  have "takeWhile is_digit ?s = nat_digits n" "dropWhile is_digit ?s = u @ rest"
    using u(1,2) is_digit_nat_digits by (auto simp: takeWhile_append2 dropWhile_append2 takeWhile_eq_Nil_iff dropWhile_eq_self_iff)
  moreover have "takeWhile (\<lambda>c. \<not> is_digit c) (u @ rest) = u" "dropWhile (\<lambda>c. \<not> is_digit c) (u @ rest) = rest"
    using u(3) assms(3) by (auto simp: takeWhile_append2 dropWhile_append2 takeWhile_eq_Nil_iff dropWhile_eq_self_iff)
  moreover have "uint32_of (int n * int m) = word_of_nat (n * m)"
    by (simp add: uint32_of_def)
  ultimately show ?thesis
    using assms(1) u(4) by (subst duration_loop.simps) (simp add: atoi_nat_digits del: of_nat_mult)
qed

lemma duration_loop_Nil [simp]: "duration_loop [] acc = Inr acc"
  by (simp add: duration_loop.simps)

definition print_terms :: "(nat \<times> string) list \<Rightarrow> string" where
  "print_terms ts = concat (map (\<lambda>(n, u). nat_digits n @ u) ts)"

lemma print_terms_simps [simp]:
  "print_terms [] = []" "print_terms ((n, u) # ts) = nat_digits n @ u @ print_terms ts"
  by (simp_all add: print_terms_def)

lemma print_terms_hd: "print_terms ts = [] \<or> is_digit (hd (print_terms ts))"
  by (cases ts) (auto simp: is_digit_hd)

lemma duration_loop_terms:
  assumes "\<forall>(n, u) \<in> set ts. n < 2 ^ 63 \<and> is_unit u (m u)"
  shows "duration_loop (print_terms ts) acc = Inr (acc + word_of_nat (\<Sum>(n, u) \<leftarrow> ts. n * m u))"
  using assms
proof (induction ts arbitrary: acc)
  case (Cons t ts)
  obtain n u where t: "t = (n, u)" by fastforce
  have "duration_loop (print_terms (t # ts)) acc = duration_loop (print_terms ts) (acc + word_of_nat (n * m u))"
    using duration_loop_term [OF _ _ print_terms_hd] Cons.prems by (simp add: t)
  then show ?case using Cons by (simp add: t algebra_simps)
qed simp

lemma print_terms_not_Nil: "ts \<noteq> [] \<Longrightarrow> print_terms ts \<noteq> []"
  by (cases ts) auto

lemma ParseDuration_terms:
  assumes "ts \<noteq> []" and "\<forall>(n, u) \<in> set ts. n < 2 ^ 63 \<and> is_unit u (m u)"
  shows "ParseDuration (print_terms ts) = Inr (word_of_nat (\<Sum>(n, u) \<leftarrow> ts. n * m u))"
proof -
  have "is_digit (hd (print_terms ts))" using print_terms_hd print_terms_not_Nil [OF assms(1)] by blast
  then have "hd (print_terms ts) \<noteq> CHR ''-''" by (auto simp: is_digit_def)
  then show ?thesis
    using duration_loop_terms [OF assms(2), of 0] print_terms_not_Nil [OF assms(1)] by (simp add: ParseDuration_def)
qed

section \<open>The printer's output\<close>

lemma is_digit_letters [simp]:
  "\<not> is_digit CHR ''y''" "\<not> is_digit CHR ''w''" "\<not> is_digit CHR ''d''" "\<not> is_digit CHR ''h''"
  "\<not> is_digit CHR ''m''" "\<not> is_digit CHR ''s''"
  by (simp_all add: is_digit_def digit_val_def)

lemma is_unit_letters:
  "is_unit ''y'' yMulti" "is_unit ''w'' wMulti" "is_unit ''d'' dMulti" "is_unit ''h'' hMulti" "is_unit ''m'' mMulti"
  "is_unit ''s'' sMulti"
  by (simp_all add: is_unit_def unit_multi_def)

lemma format_loop_hd: "format_loop n = [] \<or> is_digit (hd (format_loop n))"
  by (subst (1 2) format_loop.simps) (auto simp: is_digit_hd)

lemma format_term:
  assumes "n < 2 ^ 63" and "is_unit u m"
    and "\<And>acc. duration_loop (format_loop (n - n div m * m)) acc = Inr (acc + word_of_nat (n - n div m * m))"
  shows "duration_loop (nat_digits (n div m) @ u @ format_loop (n - n div m * m)) acc = Inr (acc + word_of_nat n)"
proof -
  have "n div m < 2 ^ 63" using assms(1) div_le_dividend by (rule order.strict_trans1 [rotated])
  from duration_loop_term [OF this assms(2) format_loop_hd, of "n - n div m * m" acc]
  have "duration_loop (nat_digits (n div m) @ u @ format_loop (n - n div m * m)) acc =
      Inr (acc + word_of_nat (n div m * m) + word_of_nat (n - n div m * m))"
    using assms(3) by simp
  moreover have "(word_of_nat (n div m * m) + word_of_nat (n - n div m * m) :: uint32) = word_of_nat n"
    by (metis div_times_less_eq_dividend le_add_diff_inverse of_nat_add)
  ultimately show ?thesis by (simp only: add.assoc)
qed

lemma duration_loop_format: "n < 2 ^ 63 \<Longrightarrow> duration_loop (format_loop n) acc = Inr (acc + word_of_nat n)"
proof (induction n arbitrary: acc rule: format_loop.induct)
  case (1 n)
  have less: "n - n div m * m < 2 ^ 63" for m using "1.prems" by simp
  show ?case
    unfolding format_loop.simps [of n]
    using "1.prems" duration_loop_term [of n "''s''" sMulti "[]" acc, OF _ is_unit_letters(6)]
    by (auto simp: sMulti_def intro!: format_term is_unit_letters "1.IH" less simp del: append_Cons append.simps)
qed

lemma parse_positive:
  assumes "seconds \<noteq> 0"
  shows "ParseDuration (FormatDuration seconds) = Inr seconds" and "FormatDuration seconds \<noteq> []"
proof -
  have "unat seconds < 2 ^ 63" using unsigned_less [where ?'a = nat and w = seconds] by simp
  moreover have ne: "format_loop (unat seconds) \<noteq> []"
    using assms by (subst format_loop.simps) (simp add: unat_eq_zero)
  moreover from this have "is_digit (hd (format_loop (unat seconds)))" using format_loop_hd by blast
  ultimately show "ParseDuration (FormatDuration seconds) = Inr seconds"
    using assms duration_loop_format [of "unat seconds" 0]
    by (auto simp: FormatDuration_def ParseDuration_def is_digit_def)
  show "FormatDuration seconds \<noteq> []" using ne assms by (simp add: FormatDuration_def)
qed

section \<open>Properties\<close>

text \<open>
  Round trip of durations: what is printed for a number of seconds parses as that number, for every number of
  32 bits.
\<close>

theorem ParseDuration_FormatDuration: "ParseDuration (FormatDuration seconds) = Inr seconds"
proof (cases "seconds = 0")
  case True
  then show ?thesis
    using ParseDuration_terms [of "[(0, ''s'')]" "\<lambda>u. sMulti"] is_unit_letters(6)
    by (simp add: FormatDuration_def nat_digits.simps digit_char_def char_of_def bit_iff_odd)
next
  case False
  then show ?thesis by (rule parse_positive)
qed

text \<open>
  Durations wrap around: a sequence of numbers with units parses as the sum of the products modulo
  2^32. So a limit of 137 years is one of 294 days.
\<close>

theorem durations_wrap_around:
  assumes "ts \<noteq> []" and "\<forall>(n, u) \<in> set ts. n < 2 ^ 63 \<and> is_unit u (m u)"
  shows "\<exists>sec. ParseDuration (print_terms ts) = Inr sec \<and> unat sec = (\<Sum>(n, u) \<leftarrow> ts. n * m u) mod 2 ^ 32"
  using ParseDuration_terms [OF assms] by (simp add: unat_of_nat)

theorem durations_wrap_around_witness:
  "\<exists>sec. ParseDuration (print_terms [(137, ''y'')]) = Inr sec \<and> unat sec = 25464704 \<and> 25464704 div dMulti = 294"
  using durations_wrap_around [of "[(137, ''y'')]" "\<lambda>u. yMulti"] is_unit_letters(1)
  by (simp add: multi_defs)

end
