(* ===== verification/Query.thy ===== *)
theory Query
  imports Datadog
begin

text \<open>
  The query side: URL fragments and the list flag of \<^verbatim>\<open>util\<close>, the limit on the time range
  (\<^verbatim>\<open>query/graphite/validators.go\<close>), the retrying transport and the proxy to Graphite
  (\<^verbatim>\<open>query/graphite/graphite.go\<close>), the proxies to Metrictank (\<^verbatim>\<open>query/metrictank\<close>) and to the bulk importer
  (\<^verbatim>\<open>ingest/mt_bulk_importer.go\<close>).

  A header is a map from canonical names to lists of values, as in Go. \<open>reverse_proxy\<close> is what
  \<^verbatim>\<open>httputil.ReverseProxy.ServeHTTP\<close> of Go 1.12, the release the repository builds with, does to a request before
  its transport gets it; switching protocols is left out. The transport is a parameter, and so is
  the date parser, which the theory \<open>DateTime\<close> models.
\<close>

section \<open>Utilities\<close>

definition JoinUrlFragments :: "string \<Rightarrow> string \<Rightarrow> string" where
  "JoinUrlFragments a b =
     (let aslash = has_suffix ''/'' a;
          bslash = has_prefix ''/'' b
      in if aslash \<and> bslash then a @ drop 1 b
         else if \<not> aslash \<and> \<not> bslash then a @ ''/'' @ b
         else a @ b)"

text \<open>\<^verbatim>\<open>Int64SliceFlag.Set\<close>: the error, if any, and the values; those before the bad entry are kept.\<close>

fun slice_flag_set :: "string list \<Rightarrow> int list \<Rightarrow> num_error option \<times> int list" where
  "slice_flag_set [] vs = (None, vs)"
| "slice_flag_set (split # splits) vs =
     (let split = trim_space split
      in if split = [] then slice_flag_set splits vs
         else case atoi split of
                Inl e \<Rightarrow> (Some e, vs)
              | Inr parsed \<Rightarrow> slice_flag_set splits (vs @ [parsed]))"

definition Int64SliceFlag_Set :: "string \<Rightarrow> int list \<Rightarrow> num_error option \<times> int list" where
  "Int64SliceFlag_Set value vs = slice_flag_set (split_on CHR '','' value) vs"

text \<open>\<^verbatim>\<open>strings.Join\<close> with a comma and a blank, which is also how \<^verbatim>\<open>String\<close> shows the values.\<close>

fun join_comma :: "string list \<Rightarrow> string" where
  "join_comma [] = []"
| "join_comma [v] = v"
| "join_comma (v # vs) = v @ '', '' @ join_comma vs"

definition Int64SliceFlag_String :: "int list \<Rightarrow> string" where
  "Int64SliceFlag_String vs = join_comma (map itoa vs)"

section \<open>The time range\<close>

record FromTo =
  ft_From :: string
  ft_Until :: string
  ft_To :: string
  ft_Tz :: string

datatype range_error = ErrParseRange | ErrRangeTooLarge

text \<open>\<open>parse\<close> is \<^verbatim>\<open>dur.ParseDateTime\<close> in the local time zone: the specification, the time now and the default.\<close>

type_synonym date_parser = "string \<Rightarrow> int \<Rightarrow> uint32 \<Rightarrow> uint32 option"

definition getFromTo :: "date_parser \<Rightarrow> FromTo \<Rightarrow> int \<Rightarrow> uint32 \<Rightarrow> uint32 \<Rightarrow> (uint32 \<times> uint32) option" where
  "getFromTo parse ft now defaultFrom defaultTo =
     (let from = ft_From ft;
          to = ft_To ft;
          to = (if to = [] then ft_Until ft else to)
      in case parse from now defaultFrom of
           None \<Rightarrow> None
         | Some fromUnix \<Rightarrow>
             (case parse to now defaultTo of None \<Rightarrow> None | Some toUnix \<Rightarrow> Some (fromUnix, toUnix)))"

text \<open>\<^verbatim>\<open>Validate\<close> with the path of the request, the time now and the limit; \<open>errs\<close> are the errors found before.\<close>

definition FromTo_Validate ::
  "date_parser \<Rightarrow> uint32 \<Rightarrow> int \<Rightarrow> string \<Rightarrow> FromTo \<Rightarrow> range_error list \<Rightarrow> range_error list" where
  "FromTo_Validate parse timerangeLimit now path ft errs =
     (if \<not> has_prefix ''/graphite/render'' path then errs
      else
        let defaultFrom = uint32_of (now - 24 * 3600);
            defaultTo = uint32_of now
        in case getFromTo parse ft now defaultFrom defaultTo of
             None \<Rightarrow> errs @ [ErrParseRange]
           | Some (fromUnix, toUnix) \<Rightarrow>
               if toUnix - fromUnix > timerangeLimit then errs @ [ErrRangeTooLarge] else errs)"

section \<open>The retrying transport\<close>

text \<open>
  \<open>transport\<close> answers the attempt with its number, counting from 1; the attempts are recorded with the body
  each had. The loop goes on while the transport fails and at most three attempts were made.
\<close>

function attempt_loop ::
  "(nat \<Rightarrow> gobyte list option \<Rightarrow> 'e + 'r) \<Rightarrow> gobyte list option \<Rightarrow> nat \<Rightarrow> gobyte list option list
    \<Rightarrow> ('e + 'r) \<times> gobyte list option list" where
  "attempt_loop transport body attempts sent =
     (let attempts = attempts + 1;
          sent = sent @ [body]
      in case transport attempts body of
           Inr res \<Rightarrow> (Inr res, sent)
         | Inl err \<Rightarrow>
             if attempts \<le> 3 then attempt_loop transport body attempts sent
             else (Inl err, sent))"
  by pat_completeness auto
termination
  by (relation "measure (\<lambda>(transport, body, attempts, sent). 4 - attempts)") auto

declare attempt_loop.simps [simp del]

text \<open>\<open>body\<close> is \<^term>\<open>None\<close> for a request without one, and \<open>readErr\<close> the error that reading one gives.\<close>

definition RoundTrip ::
  "(nat \<Rightarrow> gobyte list option \<Rightarrow> 'e + 'r) \<Rightarrow> 'e \<Rightarrow> body_read option \<Rightarrow> ('e + 'r) \<times> gobyte list option list" where
  "RoundTrip transport readErr body =
     (case body of
        None \<Rightarrow> attempt_loop transport None 0 []
      | Some (data, False) \<Rightarrow> (Inl readErr, [])
      | Some (data, True) \<Rightarrow> attempt_loop transport (Some data) 0 [])"

section \<open>Headers\<close>

type_synonym header = "string \<rightharpoonup> string list"

text \<open>\<^verbatim>\<open>textproto.CanonicalMIMEHeaderKey\<close>: a name with a character that is not allowed stays as it is.\<close>

definition ascii :: "char \<Rightarrow> nat" where
  "ascii c = of_char c"

definition is_lower :: "char \<Rightarrow> bool" where
  "is_lower c \<longleftrightarrow> 97 \<le> ascii c \<and> ascii c \<le> 122"

definition is_upper :: "char \<Rightarrow> bool" where
  "is_upper c \<longleftrightarrow> 65 \<le> ascii c \<and> ascii c \<le> 90"

definition is_token :: "char \<Rightarrow> bool" where
  "is_token c \<longleftrightarrow> is_lower c \<or> is_upper c \<or> digit_val c \<noteq> None \<or> c \<in> set ''!#$%&*+-.^_|~'' \<or> ascii c = 39 \<or> ascii c = 96"

fun canonical_from :: "bool \<Rightarrow> string \<Rightarrow> string" where
  "canonical_from upper [] = []"
| "canonical_from upper (c # cs) =
     (let c = (if upper \<and> is_lower c then char_of (ascii c - 32)
               else if \<not> upper \<and> is_upper c then char_of (ascii c + 32) else c)
      in c # canonical_from (c = CHR ''-'') cs)"

definition CanonicalMIMEHeaderKey :: "string \<Rightarrow> string" where
  "CanonicalMIMEHeaderKey s = (if \<forall>c \<in> set s. is_token c then canonical_from True s else s)"

definition header_Del :: "string \<Rightarrow> header \<Rightarrow> header" where
  "header_Del k h = h(CanonicalMIMEHeaderKey k := None)"

definition header_values :: "string \<Rightarrow> header \<Rightarrow> string list" where
  "header_values k h = (case h (CanonicalMIMEHeaderKey k) of None \<Rightarrow> [] | Some vs \<Rightarrow> vs)"

definition header_Add :: "string \<Rightarrow> string \<Rightarrow> header \<Rightarrow> header" where
  "header_Add k v h = h(CanonicalMIMEHeaderKey k \<mapsto> header_values k h @ [v])"

definition header_Get :: "string \<Rightarrow> header \<Rightarrow> string" where
  "header_Get k h = (case header_values k h of [] \<Rightarrow> [] | v # vs \<Rightarrow> v)"

text \<open>
  What the reverse proxy drops: the headers that \<^verbatim>\<open>Connection\<close> names, then those that belong to one hop; a \<^verbatim>\<open>Te\<close>
  header that asks for trailers stays.
\<close>

definition connection_names :: "header \<Rightarrow> string list" where
  "connection_names h = filter (\<lambda>f. f \<noteq> []) (map trim_space (split_on CHR '','' (header_Get ''Connection'' h)))"

definition hopHeaders :: "string list" where
  "hopHeaders = [''Connection'', ''Proxy-Connection'', ''Keep-Alive'', ''Proxy-Authenticate'', ''Proxy-Authorization'',
     ''Te'', ''Trailer'', ''Transfer-Encoding'', ''Upgrade'']"

definition drop_hop :: "string \<Rightarrow> header \<Rightarrow> header" where
  "drop_hop k h =
     (let hv = header_Get k h
      in if hv = [] then h
         else if k = ''Te'' \<and> hv = ''trailers'' then h
         else header_Del k h)"

definition drop_hop_headers :: "header \<Rightarrow> header" where
  "drop_hop_headers h = fold drop_hop hopHeaders (fold header_Del (connection_names h) h)"

section \<open>The proxies\<close>

record Url =
  ur_Scheme :: string
  ur_Host :: string
  ur_Path :: string

record proxy_request =
  px_url :: Url
  px_header :: header
  px_length :: int
  px_body :: "body_read option"

text \<open>The last step adds the address of the client, when it is known, to \<^verbatim>\<open>X-Forwarded-For\<close>.\<close>

definition forwarded_for :: "string option \<Rightarrow> header \<Rightarrow> header" where
  "forwarded_for clientIP h =
     (case clientIP of
        None \<Rightarrow> h
      | Some ip \<Rightarrow>
          h(''X-Forwarded-For'' \<mapsto>
            [case h ''X-Forwarded-For'' of None \<Rightarrow> ip | Some prior \<Rightarrow> join_comma prior @ '', '' @ ip]))"

text \<open>A request of length 0 goes out without a body.\<close>

definition reverse_proxy :: "(proxy_request \<Rightarrow> proxy_request) \<Rightarrow> string option \<Rightarrow> proxy_request \<Rightarrow> proxy_request" where
  "reverse_proxy director clientIP req =
     (let out = director (if px_length req = 0 then req\<lparr>px_body := None\<rparr> else req)
      in out\<lparr>px_header := forwarded_for clientIP (drop_hop_headers (px_header out))\<rparr>)"

definition set_org :: "int \<Rightarrow> proxy_request \<Rightarrow> proxy_request" where
  "set_org orgId req = req\<lparr>px_header := header_Add ''X-Org-Id'' (itoa orgId) (header_Del ''X-Org-Id'' (px_header req))\<rparr>"

text \<open>Graphite: the header and the path are set on the request, the director sets scheme and host.\<close>

definition graphite_director :: "Url \<Rightarrow> proxy_request \<Rightarrow> proxy_request" where
  "graphite_director u req = req\<lparr>px_url := (px_url req)\<lparr>ur_Scheme := ur_Scheme u, ur_Host := ur_Host u\<rparr>\<rparr>"

definition graphite_Proxy :: "Url \<Rightarrow> int \<Rightarrow> string \<Rightarrow> string option \<Rightarrow> proxy_request \<Rightarrow> proxy_request" where
  "graphite_Proxy u orgId proxyPath clientIP req =
     (let req = set_org orgId req;
          req = req\<lparr>px_url := (px_url req)\<lparr>ur_Path := JoinUrlFragments (ur_Path u) proxyPath\<rparr>\<rparr>
      in reverse_proxy (graphite_director u) clientIP req)"

text \<open>\<open>captured\<close> is \<^verbatim>\<open>c.Body\<close>, which \<^verbatim>\<open>CaptureBody\<close> sets.\<close>

definition GraphiteProxy ::
  "Url \<Rightarrow> int \<Rightarrow> string \<Rightarrow> string option \<Rightarrow> gobyte list option \<Rightarrow> proxy_request \<Rightarrow> proxy_request" where
  "GraphiteProxy u orgId proxyPath clientIP captured req =
     (let req = (case captured of None \<Rightarrow> req | Some b \<Rightarrow> req\<lparr>px_body := Some (b, True)\<rparr>)
      in graphite_Proxy u orgId proxyPath clientIP req)"

definition metrictank_director :: "Url \<Rightarrow> int \<Rightarrow> string \<Rightarrow> proxy_request \<Rightarrow> proxy_request" where
  "metrictank_director u orgId path req =
     set_org orgId (req\<lparr>px_url := \<lparr>ur_Scheme = ur_Scheme u, ur_Host = ur_Host u, ur_Path = JoinUrlFragments (ur_Path u) path\<rparr>\<rparr>)"

definition MetrictankProxy :: "Url \<Rightarrow> string \<Rightarrow> int \<Rightarrow> string option \<Rightarrow> proxy_request \<Rightarrow> proxy_request" where
  "MetrictankProxy u path orgId clientIP req = reverse_proxy (metrictank_director u orgId path) clientIP req"

definition PrometheusProxy :: "Url \<Rightarrow> int \<Rightarrow> string \<Rightarrow> string option \<Rightarrow> proxy_request \<Rightarrow> proxy_request" where
  "PrometheusProxy u orgId proxyPath clientIP req =
     reverse_proxy (metrictank_director u orgId (''/prometheus/'' @ proxyPath)) clientIP req"

definition importer_director :: "Url \<Rightarrow> int \<Rightarrow> proxy_request \<Rightarrow> proxy_request" where
  "importer_director u orgId req = set_org orgId (req\<lparr>px_url := u\<rparr>)"

definition MtBulkImporter :: "Url \<Rightarrow> int \<Rightarrow> string option \<Rightarrow> proxy_request \<Rightarrow> proxy_request" where
  "MtBulkImporter u orgId clientIP req = reverse_proxy (importer_director u orgId) clientIP req"

section \<open>URL fragments and the list flag\<close>

text \<open>There is exactly one slash between the two fragments.\<close>

lemma JoinUrlFragments_cases:
  "JoinUrlFragments (a @ ''/'') (''/'' @ b) = a @ ''/'' @ b"
  "JoinUrlFragments (a @ ''/'') b = (if has_prefix ''/'' b then a @ b else a @ ''/'' @ b)"
  "\<not> has_suffix ''/'' a \<Longrightarrow> JoinUrlFragments a b = (if has_prefix ''/'' b then a @ b else a @ ''/'' @ b)"
  by (auto simp: JoinUrlFragments_def has_suffix_def Let_def split: list.splits)

lemma JoinUrlFragments_slash:
  "\<not> has_prefix ''/'' b \<Longrightarrow> JoinUrlFragments a (CHR ''/'' # b) = JoinUrlFragments a b"
  by (auto simp: JoinUrlFragments_def Let_def)

text \<open>The flag reads back what it shows, and a bad entry ends the reading with the values before it.\<close>

lemma no_space_minus: "no_space CHR ''-''"
  by (simp add: no_space_def space_runes_def)

lemma itoa_no_space: "x \<in> set (itoa v) \<Longrightarrow> no_space x"
  using itoa_chars [of x v] digits_no_space [of x] no_space_minus by blast

lemma itoa_no_comma: "CHR '','' \<notin> set (itoa v)"
  using itoa_chars [of "CHR '',''" v] by (auto simp: digit_val_def)

lemma trim_itoa: "trim_space (itoa v) = itoa v" "trim_space (CHR '' '' # itoa v) = itoa v"
proof -
  show "trim_space (itoa v) = itoa v" by (intro trim_space_id itoa_no_space [of _ v]) auto
  moreover have "trim_space (CHR '' '' # itoa v) = trim_space (itoa v)"
    by (simp add: trim_space_def drop_spaces.simps [of _ "_ # _"])
  ultimately show "trim_space (CHR '' '' # itoa v) = itoa v" by simp
qed

lemma split_values:
  "us \<noteq> [] \<Longrightarrow>
   split_on CHR '','' (b @ Int64SliceFlag_String (v # us)) = (b @ itoa v) # split_on CHR '','' ('' '' @ Int64SliceFlag_String us)"
  if "CHR '','' \<notin> set b"
  using split_on_append [of "CHR '',''" "b @ itoa v" "'' '' @ Int64SliceFlag_String us"] itoa_no_comma that
  by (cases us) (simp_all add: Int64SliceFlag_String_def)

lemma slice_flag_set_join:
  "\<forall>v \<in> set vs. - (2 ^ 63) \<le> v \<and> v < 2 ^ 63 \<Longrightarrow> vs \<noteq> [] \<Longrightarrow> b \<in> {[], '' ''} \<Longrightarrow>
   slice_flag_set (split_on CHR '','' (b @ Int64SliceFlag_String vs)) ws = (None, ws @ vs)"
proof (induction vs arbitrary: b ws)
  case (Cons v vs)
  have first: "atoi (itoa v) = Inr v" "trim_space (b @ itoa v) = itoa v" "CHR '','' \<notin> set b"
    using Cons.prems parse_int_itoa [of 64 v] by (auto simp: atoi_def trim_itoa)
  show ?case
  proof (cases "vs = []")
    case True
    then show ?thesis
      using first itoa_no_comma split_on_absent [of "CHR '',''" "b @ itoa v"]
      by (simp add: Int64SliceFlag_String_def Let_def del: split_on_absent)
  next
    case False
    then show ?thesis
      using Cons.IH [of "'' ''" "ws @ [v]"] Cons.prems(1) first split_values [OF first(3) False, of v]
      by (simp add: Let_def del: split_on.simps)
  qed
qed simp

lemma slice_flag_round_trip:
  assumes "\<forall>v \<in> set vs. - (2 ^ 63) \<le> v \<and> v < 2 ^ 63"
  shows "Int64SliceFlag_Set (Int64SliceFlag_String vs) ws = (None, ws @ vs)"
proof (cases "vs = []")
  case True
  then show ?thesis by (simp add: Int64SliceFlag_Set_def Int64SliceFlag_String_def trim_space_def drop_spaces.simps Let_def)
next
  case False
  then show ?thesis using slice_flag_set_join [OF assms False, of "[]" ws] by (simp add: Int64SliceFlag_Set_def)
qed

section \<open>Attempts\<close>

lemma attempt_loop_stops:
  assumes "a \<le> n" and "n \<le> 3" and "\<And>k. a < k \<Longrightarrow> k \<le> n \<Longrightarrow> \<exists>e. transport k body = Inl e"
    and "n < 3 \<Longrightarrow> \<exists>r. transport (n + 1) body = Inr r"
  shows "attempt_loop transport body a sent = (transport (n + 1) body, sent @ replicate (n + 1 - a) body)"
  using assms
proof (induction "n - a" arbitrary: a sent)
  case 0
  then have a: "a = n" by simp
  show ?case
    using 0(3,5) by (subst attempt_loop.simps) (auto simp: a Let_def split: sum.splits)
next
  case (Suc d)
  have more: "a < n" "a + 1 \<le> 3" using Suc.hyps(2) Suc.prems(2) by simp_all
  then obtain e where e: "transport (a + 1) body = Inl e" using Suc.prems(3) [of "a + 1"] by auto
  have "attempt_loop transport body (a + 1) (sent @ [body]) =
      (transport (n + 1) body, (sent @ [body]) @ replicate (n + 1 - (a + 1)) body)"
    using Suc.hyps(2) Suc.prems by (intro Suc.hyps(1)) auto
  moreover have "replicate (n + 1 - a) body = body # replicate (n - a) body"
    using Suc.hyps(2) by (simp add: Suc_diff_le)
  ultimately show ?case
    using e more by (subst attempt_loop.simps) (simp add: Let_def)
qed

text \<open>The number of the last attempt: the first that succeeds, or the fourth.\<close>

lemma last_attempt:
  fixes transport :: "nat \<Rightarrow> 'b \<Rightarrow> 'e + 'r"
  obtains n where "n \<le> 3" and "\<And>k. 0 < k \<Longrightarrow> k \<le> n \<Longrightarrow> \<exists>e. transport k body = Inl e"
    and "n < 3 \<Longrightarrow> \<exists>r. transport (n + 1) body = Inr r"
proof -
  define ok where "ok k \<longleftrightarrow> 3 \<le> k \<or> (\<exists>r. transport (k + 1) body = Inr r)" for k
  define n where "n = (LEAST k. ok k)"
  have "ok n" unfolding n_def by (rule LeastI [of ok 3]) (simp add: ok_def)
  moreover have "n \<le> 3" unfolding n_def by (rule Least_le) (simp add: ok_def)
  moreover have "\<exists>e. transport k body = Inl e" if "0 < k" "k \<le> n" for k
  proof -
    have "\<not> ok (k - 1)" unfolding n_def by (rule not_less_Least) (use that n_def in linarith)
    then show ?thesis using that by (cases "transport k body") (auto simp: ok_def)
  qed
  ultimately show ?thesis using that by (auto simp: ok_def)
qed

section \<open>The organisation a proxied request carries\<close>

lemma canonical_names [simp]:
  "CanonicalMIMEHeaderKey ''X-Org-Id'' = ''X-Org-Id''" "CanonicalMIMEHeaderKey ''Connection'' = ''Connection''"
  "map CanonicalMIMEHeaderKey hopHeaders = hopHeaders"
  by code_simp+

lemma fold_header_Del:
  "fold header_Del ks h k = (if k \<in> CanonicalMIMEHeaderKey ` set ks then None else h k)"
  by (induction ks arbitrary: h) (auto simp: header_Del_def)

lemma fold_drop_hop: "k \<notin> CanonicalMIMEHeaderKey ` set ks \<Longrightarrow> fold drop_hop ks h k = h k"
  by (induction ks arbitrary: h) (auto simp: drop_hop_def header_Del_def Let_def)

lemma hop_headers_canonical: "CanonicalMIMEHeaderKey ` set hopHeaders = set hopHeaders"
  unfolding set_map [symmetric] by simp

text \<open>
  What a proxy promises: it drops the organisation that the client sent, puts that of the user in its place,
  and passes the header on as the reverse proxy does.
\<close>

locale org_proxy =
  fixes proxy :: "int \<Rightarrow> string option \<Rightarrow> proxy_request \<Rightarrow> proxy_request"
  assumes proxy_header:
    "px_header (proxy orgId clientIP req) = forwarded_for clientIP (drop_hop_headers (px_header (set_org orgId req)))"
begin

lemma upstream_org:
  "px_header (proxy orgId clientIP req) ''X-Org-Id'' =
     (if ''X-Org-Id'' \<in> CanonicalMIMEHeaderKey ` set (connection_names (px_header req)) then None else Some [itoa orgId])"
proof -
  have names: "connection_names (px_header (set_org orgId req)) = connection_names (px_header req)"
    by (simp add: connection_names_def header_Get_def header_values_def set_org_def header_Add_def header_Del_def)
  have hop: "''X-Org-Id'' \<notin> CanonicalMIMEHeaderKey ` set hopHeaders"
    unfolding hop_headers_canonical by (simp add: hopHeaders_def)
  have org: "px_header (set_org orgId req) ''X-Org-Id'' = Some [itoa orgId]"
    by (simp add: set_org_def header_Add_def header_Del_def header_values_def)
  show ?thesis
    unfolding proxy_header
    by (simp add: forwarded_for_def drop_hop_headers_def fold_drop_hop [OF hop] fold_header_Del names org split: option.split)
qed

end

interpretation graphite: org_proxy "\<lambda>orgId clientIP req. GraphiteProxy u orgId proxyPath clientIP captured req"
  for u proxyPath captured
  by unfold_locales
    (auto simp: GraphiteProxy_def graphite_Proxy_def reverse_proxy_def graphite_director_def set_org_def Let_def split: option.split)

interpretation metrictank: org_proxy "MetrictankProxy u path"
  for u path
  by unfold_locales (simp add: MetrictankProxy_def reverse_proxy_def metrictank_director_def set_org_def Let_def)

interpretation prometheus: org_proxy "\<lambda>orgId clientIP req. PrometheusProxy u orgId proxyPath clientIP req"
  for u proxyPath
  by unfold_locales (simp add: PrometheusProxy_def reverse_proxy_def metrictank_director_def set_org_def Let_def)

interpretation importer: org_proxy "MtBulkImporter u"
  for u
  by unfold_locales (simp add: MtBulkImporter_def reverse_proxy_def importer_director_def set_org_def Let_def)

section \<open>Properties\<close>

text \<open>
  C6. The organisation behind the proxies: whatever headers a client sends, each of the four proxies sends on
  exactly one \<^verbatim>\<open>X-Org-Id\<close>, that of the authenticated user, unless the client's \<^verbatim>\<open>Connection\<close> header names
  \<^verbatim>\<open>X-Org-Id\<close>: then the reverse proxy drops it after it was set, and the request goes on without one. No
  request carries the organisation that the client wrote.
\<close>

theorem proxies_send_own_org:
  "map (\<lambda>out. px_header out ''X-Org-Id'')
     [GraphiteProxy gu orgId gpath clientIP captured req, MetrictankProxy mu mpath orgId clientIP req,
      PrometheusProxy mu orgId ppath clientIP req, MtBulkImporter iu orgId clientIP req] =
   replicate 4 (if ''X-Org-Id'' \<in> CanonicalMIMEHeaderKey ` set (connection_names (px_header req)) then None else Some [itoa orgId])"
  by (simp add: graphite.upstream_org metrictank.upstream_org prometheus.upstream_org importer.upstream_org
      numeral_eq_Suc del: image_iff)

text \<open>
  C32. The retrying transport ends: it makes between one and four attempts, each with the whole body of the
  request, stops at the first that succeeds, and returns what the last attempt returned.
\<close>

theorem round_trip_bounded:
  "\<exists>n. n \<le> 3 \<and> RoundTrip transport readErr (Some (data, True)) =
       (transport (n + 1) (Some data), replicate (n + 1) (Some data)) \<and>
     (\<forall>k \<in> {1..n}. isl (transport k (Some data))) \<and> (n < 3 \<longrightarrow> \<not> isl (transport (n + 1) (Some data)))"
proof -
  obtain n where n: "n \<le> 3" "\<And>k. 0 < k \<Longrightarrow> k \<le> n \<Longrightarrow> \<exists>e. transport k (Some data) = Inl e"
    "n < 3 \<Longrightarrow> \<exists>r. transport (n + 1) (Some data) = Inr r"
    using last_attempt [where body = "Some data"] by blast
  have "attempt_loop transport (Some data) 0 [] = (transport (n + 1) (Some data), replicate (n + 1) (Some data))"
    using attempt_loop_stops [of 0 n transport "Some data" "[]"] n by simp
  moreover have "isl (transport k (Some data))" if "k \<in> {1..n}" for k using n(2) [of k] that by auto
  moreover have "n < 3 \<longrightarrow> \<not> isl (transport (n + 1) (Some data))" using n(3) by auto
  ultimately show ?thesis using n(1) by (intro exI [of _ n]) (simp add: RoundTrip_def)
qed

theorem round_trip_bounded_witness:
  "RoundTrip (\<lambda>k b. if k \<le> 2 then Inl ''refused'' else Inr k) ''read'' (Some ([7], True)) =
     (Inr 3, [Some [7], Some [7], Some [7]])"
proof -
  let ?t = "\<lambda>k (b :: gobyte list option). if k \<le> (2::nat) then Inl ''refused'' else Inr k"
  obtain n where n: "n \<le> 3" "RoundTrip ?t ''read'' (Some ([7], True)) = (?t (n + 1) (Some [7]), replicate (n + 1) (Some [7]))"
    "\<forall>k \<in> {1..n}. isl (?t k (Some [7]))" "n < 3 \<longrightarrow> \<not> isl (?t (n + 1) (Some [7]))"
    using round_trip_bounded [of ?t "''read''" "[7]"] by blast
  have "\<not> n < 2" using n(4) by auto
  moreover have "\<not> 2 < n" using bspec [OF n(3), of 3] by auto
  ultimately have "n = 2" by simp
  then show ?thesis using n(2) by (simp add: numeral_eq_Suc)
qed

text \<open>
  C33. The limit on the time range of a render request, in 32 bit arithmetic: it passes exactly when both ends
  were understood and lie at most the limit apart, in order; a reversed range passes only when it is so
  long that the difference wraps below the limit, and is otherwise refused as too large. Where an empty
  end means the default, a request without a range spans one day.
\<close>

theorem time_range_limit:
  assumes "has_prefix ''/graphite/render'' path"
  shows "(FromTo_Validate parse limit now path ft [] = [] \<longleftrightarrow>
      (\<exists>f t. getFromTo parse ft now (uint32_of (now - 86400)) (uint32_of now) = Some (f, t) \<and>
        (unat f \<le> unat t \<and> unat t - unat f \<le> unat limit \<or>
         unat t < unat f \<and> 2 ^ 32 \<le> unat limit + (unat f - unat t)))) \<and>
    (ft_From ft = [] \<and> ft_To ft = [] \<and> ft_Until ft = [] \<and> (\<forall>n d. parse [] n d = Some d) \<longrightarrow>
      (FromTo_Validate parse limit now path ft [] = [] \<longleftrightarrow> 86400 \<le> unat limit))"
proof -
  have wrap: "\<not> t - f > limit \<longleftrightarrow> (unat f \<le> unat t \<and> unat t - unat f \<le> unat limit \<or>
      unat t < unat f \<and> 2 ^ 32 \<le> unat limit + (unat f - unat t))" for t f :: uint32
    using unsigned_less [of f] unsigned_less [of t] unsigned_less [of limit]
    by (auto simp: word_less_nat_alt unat_sub_if')
  have day: "uint32_of now - uint32_of (now - 86400) = 86400"
    by (simp add: uint32_of_def)
  have checked: "FromTo_Validate parse limit now path ft [] = [] \<longleftrightarrow>
      (\<exists>f t. getFromTo parse ft now (uint32_of (now - 86400)) (uint32_of now) = Some (f, t) \<and> \<not> t - f > limit)"
    using assms by (auto simp: FromTo_Validate_def Let_def simp del: has_prefix_Cons split: option.splits)
  have day_only: "FromTo_Validate parse limit now path ft [] = [] \<longleftrightarrow> 86400 \<le> unat limit"
    if "ft_From ft = [] \<and> ft_To ft = [] \<and> ft_Until ft = [] \<and> (\<forall>n d. parse [] n d = Some d)"
    unfolding checked using that day by (simp add: getFromTo_def word_less_nat_alt not_less)
  show ?thesis
    using day_only unfolding checked wrap by blast
qed

theorem time_range_limit_witness:
  "FromTo_Validate (\<lambda>s n d. if s = [] then Some d else None) 86400 1000000 ''/graphite/render/'' 
     \<lparr>ft_From = [], ft_Until = [], ft_To = [], ft_Tz = []\<rparr> [] = []"
  using time_range_limit [of "''/graphite/render/''" "\<lambda>s n d. if s = [] then Some d else None" 86400 1000000
      "\<lparr>ft_From = [], ft_Until = [], ft_To = [], ft_Tz = []\<rparr>"]
  by simp

end
