(* ===== verification/DateTime.thy ===== *)
theory DateTime
  imports Dur Query
begin

text \<open>
  Dates and times as Graphite writes them (vendored \<^verbatim>\<open>raintank/dur/datetime.go\<close>), which the check of the time range
  parses.

  \<^item> An instant is its Unix time in seconds: nothing in the code depends on the fraction.
  \<^item> The calendar of the time zone, with the layouts that \<^verbatim>\<open>time.ParseInLocation\<close> knows, is the argument \<open>cal\<close>. The
    check uses the zone of the process throughout.
  \<^item> \<^verbatim>\<open>RewindToWeekday\<close> goes back day by day; seven days are enough to meet every weekday.
\<close>

section \<open>Parsing\<close>

record calendar =
  ca_Date :: "int \<Rightarrow> int \<times> int \<times> int"
  ca_Clock :: "int \<Rightarrow> int \<times> int \<times> int"
  ca_Unix :: "int \<times> int \<times> int \<Rightarrow> int \<times> int \<times> int \<Rightarrow> int"
  ca_AddDays :: "int \<Rightarrow> int \<Rightarrow> int"
  ca_Weekday :: "int \<Rightarrow> nat"
  ca_parse :: "string \<Rightarrow> string \<Rightarrow> (int \<times> int \<times> int) option"

datatype date_error = DurationError dur_error | UnknownDateTime | UnknownTime | NoSuchWeekday

definition IsTime :: "string \<Rightarrow> bool" where
  "IsTime s \<longleftrightarrow> CHR '':'' \<in> set s \<or> has_suffix ''am'' s \<or> has_suffix ''AM'' s \<or> has_suffix ''pm'' s \<or> has_suffix ''PM'' s"

definition ParseTime :: "string \<Rightarrow> date_error + int \<times> int" where
  "ParseTime s =
     (let s = (if has_suffix ''am'' s \<or> has_suffix ''AM'' s then take (length s - 2) s else s);
          (offset, s) = (if has_suffix ''pm'' s \<or> has_suffix ''PM'' s then (12, take (length s - 2) s) else (0, s));
          parts = split_on CHR '':'' s
      in if length parts > 2 then Inl UnknownTime
         else
           case (if length parts = 2 then atoi (parts ! 1) else Inr 0) of
             Inl e \<Rightarrow> Inl UnknownTime
           | Inr minute \<Rightarrow>
               (case atoi (parts ! 0) of Inl e \<Rightarrow> Inl UnknownTime | Inr hour \<Rightarrow> Inr (int64_of (hour + offset), minute)))"

fun RewindToWeekday :: "calendar \<Rightarrow> nat \<Rightarrow> nat \<Rightarrow> int \<Rightarrow> int option" where
  "RewindToWeekday cal 0 day t = (if ca_Weekday cal t = day then Some t else None)"
| "RewindToWeekday cal (Suc n) day t =
     (if ca_Weekday cal t = day then Some t else RewindToWeekday cal n day (ca_AddDays cal t (-1)))"

definition weekdays :: "string list" where
  "weekdays = [''sunday'', ''monday'', ''tuesday'', ''wednesday'', ''thursday'', ''friday'', ''saturday'']"

definition absoluteTimeFormats :: "string list" where
  "absoluteTimeFormats = [''20060102'', ''01/02/06'', ''01/02/2006'']"

text \<open>The first layout of several that a string has.\<close>

fun first_layout :: "calendar \<Rightarrow> string list \<Rightarrow> string \<Rightarrow> (int \<times> int \<times> int) option" where
  "first_layout cal [] s = None"
| "first_layout cal (f # fs) s = (case ca_parse cal f s of None \<Rightarrow> first_layout cal fs s | Some d \<Rightarrow> Some d)"

text \<open>
  The switch of \<^verbatim>\<open>ParseDateTime\<close> for the part \<open>p\<close>, with the part after it: the new base, and whether both parts were
  used. The hours, minutes and seconds are zero for the first part.
\<close>

definition parse_part ::
  "calendar \<Rightarrow> int \<Rightarrow> bool \<Rightarrow> string \<Rightarrow> string option \<Rightarrow> int \<Rightarrow> date_error + int \<times> bool" where
  "parse_part cal now first p after base =
     (let clock = (if first then (0, 0, 0) else ca_Clock cal base)
      in if p = ''now'' then Inr (now, False)
         else if p = ''today'' then Inr (ca_Unix cal (ca_Date cal now) clock, False)
         else if p = ''yesterday'' then Inr (ca_Unix cal (ca_Date cal (ca_AddDays cal now (-1))) clock, False)
         else if p = ''tomorrow'' then Inr (ca_Unix cal (ca_Date cal (ca_AddDays cal now 1)) clock, False)
         else if p = ''midnight'' then Inr (ca_Unix cal (ca_Date cal base) (0, 0, 0), False)
         else if p = ''noon'' then Inr (ca_Unix cal (ca_Date cal base) (12, 0, 0), False)
         else if p = ''teatime'' then Inr (ca_Unix cal (ca_Date cal base) (16, 0, 0), False)
         else if p \<in> set weekdays then
           (case RewindToWeekday cal 7 (length (takeWhile (\<lambda>d. d \<noteq> p) weekdays)) base of
              None \<Rightarrow> Inl NoSuchWeekday
            | Some t \<Rightarrow> Inr (ca_Unix cal (ca_Date cal t) clock, False))
         else if hd p = CHR ''-'' then
           (case ParseNDuration (tl p) of Inl e \<Rightarrow> Inl (DurationError e) | Inr d \<Rightarrow> Inr (base - int (unat d), False))
         else if hd p = CHR ''+'' then
           (case ParseNDuration (tl p) of Inl e \<Rightarrow> Inl (DurationError e) | Inr d \<Rightarrow> Inr (base + int (unat d), False))
         else
           case (if length p \<noteq> 8 then atoi p else Inl ErrSyntax) of
             Inr i \<Rightarrow> Inr (i, False)
           | Inl e \<Rightarrow>
               if IsTime p then
                 (case ParseTime p of
                    Inl e \<Rightarrow> Inl e | Inr (h, m) \<Rightarrow> Inr (ca_Unix cal (ca_Date cal base) (h, m, 0), False))
               else
                 case first_layout cal absoluteTimeFormats p of
                   Some d \<Rightarrow> Inr (ca_Unix cal d clock, False)
                 | None \<Rightarrow>
                     (case after of
                        None \<Rightarrow> Inl UnknownDateTime
                      | Some q \<Rightarrow>
                          (case first_layout cal [''January 2'', ''Jan 2''] (p @ '' '' @ q) of
                             None \<Rightarrow> Inl UnknownDateTime
                           | Some (_, m, d) \<Rightarrow> Inr (ca_Unix cal (fst (ca_Date cal base), m, d) clock, True))))"

fun parse_parts :: "calendar \<Rightarrow> int \<Rightarrow> bool \<Rightarrow> string list \<Rightarrow> int \<Rightarrow> date_error + int" where
  "parse_parts cal now first [] base = Inr base"
| "parse_parts cal now first (p # ps) base =
     (case parse_part cal now first p (case ps of [] \<Rightarrow> None | q # _ \<Rightarrow> Some q) base of
        Inl e \<Rightarrow> Inl e
      | Inr (base, both) \<Rightarrow> parse_parts cal now False (if both then tl ps else ps) base)"

text \<open>\<^verbatim>\<open>strings.Replace\<close> of a sign by the sign after a blank, and of the first underscore by a blank.\<close>

definition blank_before :: "char \<Rightarrow> string \<Rightarrow> string" where
  "blank_before c s = concat (map (\<lambda>x. if x = c then [CHR '' '', x] else [x]) s)"

definition blank_for :: "char \<Rightarrow> string \<Rightarrow> string" where
  "blank_for c s = (case splitn2 c s of [a, b] \<Rightarrow> a @ CHR '' '' # b | _ \<Rightarrow> s)"

definition ParseDateTime :: "calendar \<Rightarrow> string \<Rightarrow> int \<Rightarrow> uint32 \<Rightarrow> date_error + uint32" where
  "ParseDateTime cal s now def =
     (if s = [] then Inr def
      else
        let s = blank_before CHR ''-'' s;
            s = blank_before CHR ''+'' s;
            s = blank_for CHR ''_'' s
        in case parse_parts cal now True (GwPrelude.fields s) now of Inl e \<Rightarrow> Inl e | Inr base \<Rightarrow> Inr (uint32_of base))"

text \<open>As the check of the time range calls it.\<close>

definition date_time :: "calendar \<Rightarrow> date_parser" where
  "date_time cal s now def = (case ParseDateTime cal s now def of Inl e \<Rightarrow> None | Inr t \<Rightarrow> Some t)"

section \<open>Going back to a weekday\<close>

text \<open>Whenever the day before has the weekday before, the loop ends, within a week.\<close>

lemma weekday_cases: "(w :: nat) < 7 \<Longrightarrow> w \<in> {0, 1, 2, 3, 4, 5, 6}"
  by auto

lemma weekday_before:
  fixes w day :: nat
  assumes "w < 7" "day < 7" "w \<noteq> day" "(w + 7 - day) mod 7 \<le> Suc n"
  shows "((w + 6) mod 7 + 7 - day) mod 7 \<le> n"
  using weekday_cases [OF assms(1)] weekday_cases [OF assms(2)] assms(3,4) by (elim insertE emptyE) simp_all

lemma weekday_same:
  fixes w day :: nat
  assumes "w < 7" "day < 7" "(w + 7 - day) mod 7 = 0"
  shows "w = day"
  using weekday_cases [OF assms(1)] weekday_cases [OF assms(2)] assms(3) by (elim insertE emptyE) simp_all

lemma RewindToWeekday_distance:
  assumes "\<And>t. ca_Weekday cal (ca_AddDays cal t (-1)) = (ca_Weekday cal t + 6) mod 7" and "\<And>t. ca_Weekday cal t < 7"
    and "day < 7" and "(ca_Weekday cal t + 7 - day) mod 7 \<le> n"
  shows "\<exists>u. RewindToWeekday cal n day t = Some u \<and> ca_Weekday cal u = day"
  using assms(4)
proof (induction n arbitrary: t)
  case 0
  then have "ca_Weekday cal t = day" using weekday_same [OF assms(2,3)] by simp
  then show ?case by simp
next
  case (Suc n)
  show ?case
  proof (cases "ca_Weekday cal t = day")
    case False
    then have "(ca_Weekday cal (ca_AddDays cal t (-1)) + 7 - day) mod 7 \<le> n"
      using weekday_before [OF assms(2,3) False Suc.prems] unfolding assms(1) by blast
    from Suc.IH [OF this] show ?thesis using False by simp
  qed simp
qed

lemma RewindToWeekday_finds:
  assumes "\<And>t. ca_Weekday cal (ca_AddDays cal t (-1)) = (ca_Weekday cal t + 6) mod 7" and "\<And>t. ca_Weekday cal t < 7" and "day < 7"
  shows "\<exists>u. RewindToWeekday cal 7 day t = Some u \<and> ca_Weekday cal u = day"
  by (rule RewindToWeekday_distance [OF assms(1,2,3)]) (simp add: less_imp_le)

section \<open>Splitting\<close>

lemma blank_before_absent: "c \<notin> set s \<Longrightarrow> blank_before c s = s"
  by (induction s) (auto simp: blank_before_def)

lemma blank_before_append [simp]: "blank_before c (s @ t) = blank_before c s @ blank_before c t"
  by (simp add: blank_before_def)

lemma blank_before_Cons: "blank_before c (x # s) = (if x = c then [CHR '' '', x] else [x]) @ blank_before c s"
  by (simp add: blank_before_def)

definition duration_char :: "char \<Rightarrow> bool" where
  "duration_char c \<longleftrightarrow> is_digit c \<or> c \<in> set ''ywdhms''"

lemma format_loop_chars: "c \<in> set (format_loop n) \<Longrightarrow> duration_char c"
proof (induction n rule: format_loop.induct)
  case (1 n)
  from "1.prems" show ?case
    unfolding format_loop.simps [of n] using "1.IH" is_digit_nat_digits by (auto simp: duration_char_def split: if_splits)
qed

lemma is_digit_signs: "is_digit CHR ''0''" "\<not> is_digit CHR ''-''" "\<not> is_digit CHR ''+''" "\<not> is_digit CHR ''_''"
  by (simp_all add: is_digit_def digit_val_def)

lemma FormatDuration_chars:
  assumes "c \<in> set (FormatDuration n)"
  shows "duration_char c"
proof (cases "n = 0")
  case True
  then have "c = CHR ''0'' \<or> c = CHR ''s''" using assms by (simp add: FormatDuration_def)
  then show ?thesis by (elim disjE) (simp_all add: duration_char_def is_digit_signs)
next
  case False
  then show ?thesis using format_loop_chars [of c "unat n"] assms by (simp add: FormatDuration_def)
qed

lemma duration_char_plain:
  assumes "duration_char c"
  shows "no_space c \<and> c \<noteq> CHR ''-'' \<and> c \<noteq> CHR ''+'' \<and> c \<noteq> CHR ''_''"
proof (cases "is_digit c")
  case True
  moreover from this have "no_space c" by (simp add: is_digit_def digits_no_space)
  ultimately show ?thesis using is_digit_signs(2-4) by blast
next
  case False
  then have "c \<in> {CHR ''y'', CHR ''w'', CHR ''d'', CHR ''h'', CHR ''m'', CHR ''s''}" using assms by (simp add: duration_char_def)
  then show ?thesis by (elim insertE) (simp_all add: no_space_def space_runes_def)
qed

lemma fields_offset:
  assumes "\<forall>c \<in> set s. duration_char c" and "pre \<in> {[], ''now''}"
  shows "GwPrelude.fields (blank_for CHR ''_'' (blank_before CHR ''+'' (blank_before CHR ''-'' (pre @ CHR ''-'' # s)))) =
    (if pre = [] then [CHR ''-'' # s] else [pre, CHR ''-'' # s])"
proof -
  have plain: "no_space c" "c \<noteq> CHR ''-''" "c \<noteq> CHR ''+''" "c \<noteq> CHR ''_''" if "c \<in> set s" for c
    using duration_char_plain assms(1) that by blast+
  have s: "CHR ''-'' \<notin> set s" "CHR ''+'' \<notin> set s" "CHR ''_'' \<notin> set s" using plain by blast+
  have blanks: "blank_for CHR ''_'' (blank_before CHR ''+'' (blank_before CHR ''-'' (pre @ CHR ''-'' # s))) = pre @ CHR '' '' # CHR ''-'' # s"
    using assms(2) s by (auto simp: blank_before_Cons blank_before_absent blank_for_def)
  have tok: "fields_from [] (CHR ''-'' # s) = [CHR ''-'' # s]"
    using fields_from_token [of "CHR ''-'' # s" "[]" "[]"] plain(1) no_space_minus by (simp add: fields_from.simps [of _ "[]"])
  have now: "fields_from [] (''now'' @ t) = fields_from (rev ''now'') t" for t
    using fields_from_token [of "''now''" "[]" t] by (simp add: no_space_def space_runes_def)
  show ?thesis
    using assms(2) now [of "CHR '' '' # CHR ''-'' # s"] unfolding blanks GwPrelude.fields_def
    by (auto simp: fields_from_blank tok)
qed

section \<open>Relative times\<close>

lemma ParseDateTime_empty: "ParseDateTime cal [] now def = Inr def"
  by (simp add: ParseDateTime_def)

text \<open>
  An offset written as the duration library prints it, with or without \<^verbatim>\<open>now\<close> in front of it, is that many seconds
  before now, whatever the calendar.
\<close>

lemma relative_offset:
  assumes "n \<noteq> 0" and "pre \<in> {[], ''now''}"
  shows "ParseDateTime cal (pre @ CHR ''-'' # FormatDuration n) now def = Inr (uint32_of (now - int (unat n)))"
proof -
  have offset: "parse_part cal now first (CHR ''-'' # FormatDuration n) q now = Inr (now - int (unat n), False)" for first q
    using parse_positive [OF assms(1)] assms(1) by (simp add: parse_part_def ParseNDuration_def weekdays_def Let_def)
  have "parse_part cal now True ''now'' q now = Inr (now, False)" for q
    by (simp add: parse_part_def Let_def)
  then show ?thesis
    using fields_offset [of "FormatDuration n" pre] FormatDuration_chars assms(2) offset
    by (auto simp: ParseDateTime_def Let_def)
qed

end
