(* ===== verification/Flags.thy ===== *)
theory Flags
  imports Query
begin

text \<open>
  The configuration of the two processes: the flags the packages register, the command line of Go's package
  \<^verbatim>\<open>flag\<close>, and the vendored \<^verbatim>\<open>globalconf\<close>, which fills the flags that the command line did not set from the
  environment or else from the configuration file.

  \<^item> A value keeps its type. Integers are read as by \<^verbatim>\<open>ParseInt\<close> with base 0 of Go 1.12, lists of numbers append to
    what is there. Durations are read by the argument \<open>dur\<close>, which stands for \<^verbatim>\<open>time.ParseDuration\<close>.
  \<^item> \<^term>\<open>None\<close> is the end of the process: a flag registered twice panics, and a flag or a value that is not
    understood exits with status 2.
  \<^item> Usage texts are left out.
\<close>

section \<open>Values\<close>

datatype flag_value = FStr string | FBool bool | FInt int | FDur int | FInts "int list"

type_synonym flag_def = "string \<times> flag_value"

definition ParseBool :: "string \<Rightarrow> bool option" where
  "ParseBool s =
     (if s \<in> {''1'', ''t'', ''T'', ''true'', ''TRUE'', ''True''} then Some True
      else if s \<in> {''0'', ''f'', ''F'', ''false'', ''FALSE'', ''False''} then Some False
      else None)"

text \<open>\<^verbatim>\<open>ParseInt(s, 0, 64)\<close>: hexadecimal after \<^verbatim>\<open>0x\<close>, octal after \<^verbatim>\<open>0\<close>, decimal otherwise.\<close>

fun parse_in_base :: "nat \<Rightarrow> nat \<Rightarrow> nat \<Rightarrow> string \<Rightarrow> num_error + nat" where
  "parse_in_base b maxv n [] = Inr n"
| "parse_in_base b maxv n (c # cs) =
     (case hex_val c of
        None \<Rightarrow> Inl ErrSyntax
      | Some d \<Rightarrow>
          if d \<ge> b then Inl ErrSyntax
          else if n * b + d > maxv then Inl ErrRange
          else parse_in_base b maxv (n * b + d) cs)"

definition parse_uint0 :: "string \<Rightarrow> num_error + nat" where
  "parse_uint0 s =
     (if s = [] then Inl ErrSyntax
      else if has_prefix ''0x'' s \<or> has_prefix ''0X'' s then
        (if length s < 3 then Inl ErrSyntax else parse_in_base 16 (2 ^ 64 - 1) 0 (drop 2 s))
      else if hd s = CHR ''0'' then parse_in_base 8 (2 ^ 64 - 1) 0 (tl s)
      else parse_in_base 10 (2 ^ 64 - 1) 0 s)"

definition parse_int0 :: "string \<Rightarrow> num_error + int" where
  "parse_int0 s =
     (if s = [] then Inl ErrSyntax
      else
        let neg = (hd s = CHR ''-'');
            rest = (if hd s = CHR ''+'' \<or> hd s = CHR ''-'' then tl s else s)
        in case parse_uint0 rest of
             Inl e \<Rightarrow> Inl e
           | Inr un \<Rightarrow>
               if \<not> neg \<and> un \<ge> 2 ^ 63 then Inl ErrRange
               else if neg \<and> un > 2 ^ 63 then Inl ErrRange
               else Inr (if neg then - int un else int un))"

text \<open>The method \<^verbatim>\<open>Set\<close> of a flag's value.\<close>

definition set_value :: "(string \<Rightarrow> int option) \<Rightarrow> string \<Rightarrow> flag_value \<Rightarrow> flag_value option" where
  "set_value dur s v =
     (case v of
        FStr _ \<Rightarrow> Some (FStr s)
      | FBool _ \<Rightarrow> map_option FBool (ParseBool s)
      | FInt _ \<Rightarrow> (case parse_int0 s of Inl e \<Rightarrow> None | Inr n \<Rightarrow> Some (FInt n))
      | FDur _ \<Rightarrow> map_option FDur (dur s)
      | FInts ns \<Rightarrow> (case Int64SliceFlag_Set s ns of (Some e, _) \<Rightarrow> None | (None, ns) \<Rightarrow> Some (FInts ns)))"

section \<open>Flag sets\<close>

record flag_set =
  fs_formal :: "string \<rightharpoonup> flag_value"
  fs_actual :: "string set"

definition define_flags :: "flag_def list \<Rightarrow> flag_set option" where
  "define_flags defs =
     (if distinct (map fst defs) then Some \<lparr>fs_formal = map_of defs, fs_actual = {}\<rparr> else None)"

definition flag_Set :: "(string \<Rightarrow> int option) \<Rightarrow> string \<Rightarrow> string \<Rightarrow> flag_set \<Rightarrow> flag_set option" where
  "flag_Set dur name s fs =
     (case fs_formal fs name of
        None \<Rightarrow> None
      | Some v \<Rightarrow>
          (case set_value dur s v of
             None \<Rightarrow> None
           | Some v \<Rightarrow> Some (fs\<lparr>fs_formal := (fs_formal fs)(name \<mapsto> v), fs_actual := insert name (fs_actual fs)\<rparr>)))"

text \<open>
  \<^verbatim>\<open>FlagSet.Parse\<close>: flags up to the first argument that is none, or up to \<^verbatim>\<open>--\<close>. A value follows an equals sign;
  without one it is the next argument, except for a boolean flag.
\<close>

definition is_bool_flag :: "flag_set \<Rightarrow> string \<Rightarrow> bool" where
  "is_bool_flag fs name = (case fs_formal fs name of Some (FBool _) \<Rightarrow> True | _ \<Rightarrow> False)"

fun parse_args :: "(string \<Rightarrow> int option) \<Rightarrow> string list \<Rightarrow> flag_set \<Rightarrow> flag_set option" where
  "parse_args dur [] fs = Some fs"
| "parse_args dur (s # args) fs =
     (if length s < 2 \<or> hd s \<noteq> CHR ''-'' then Some fs
      else if s = ''--'' then Some fs
      else
        let name = (if s ! 1 = CHR ''-'' then drop 2 s else drop 1 s)
        in if name = [] \<or> hd name = CHR ''-'' \<or> hd name = CHR ''='' then None
           else
             (case splitn2 CHR ''='' name of
                [n] \<Rightarrow>
                  if is_bool_flag fs n then
                    (case flag_Set dur n ''true'' fs of None \<Rightarrow> None | Some fs \<Rightarrow> parse_args dur args fs)
                  else
                    (case args of
                       [] \<Rightarrow> None
                     | v # rest \<Rightarrow> (case flag_Set dur n v fs of None \<Rightarrow> None | Some fs \<Rightarrow> parse_args dur rest fs))
              | n # v # _ \<Rightarrow> (case flag_Set dur n v fs of None \<Rightarrow> None | Some fs \<Rightarrow> parse_args dur args fs)
              | _ \<Rightarrow> None))"

section \<open>Environment and file\<close>

definition to_upper :: "string \<Rightarrow> string" where
  "to_upper = map (\<lambda>c. if is_lower c then char_of (ascii c - 32) else c)"

definition env_key :: "string \<Rightarrow> string" where
  "env_key flagName = to_upper (''GW_'' @ replace_char CHR ''-'' CHR ''_'' (replace_char CHR ''.'' CHR ''_'' flagName))"

text \<open>\<^verbatim>\<open>GlobalConf.Parse\<close> for the flags with the given names.\<close>

fun conf_Parse ::
  "(string \<Rightarrow> int option) \<Rightarrow> (string \<rightharpoonup> string) \<Rightarrow> (string \<rightharpoonup> string) \<Rightarrow> string set \<Rightarrow> string list \<Rightarrow> flag_set \<Rightarrow> flag_set option" where
  "conf_Parse dur env dict alreadySet [] fs = Some fs"
| "conf_Parse dur env dict alreadySet (name # names) fs =
     (if name \<in> alreadySet then conf_Parse dur env dict alreadySet names fs
      else
        case env (env_key name) of
          Some v \<Rightarrow>
            (case flag_Set dur name v fs of None \<Rightarrow> None | Some fs \<Rightarrow> conf_Parse dur env dict alreadySet names fs)
        | None \<Rightarrow>
            (case dict name of
               Some v \<Rightarrow>
                 (case flag_Set dur name v fs of None \<Rightarrow> None | Some fs \<Rightarrow> conf_Parse dur env dict alreadySet names fs)
             | None \<Rightarrow> conf_Parse dur env dict alreadySet names fs))"

definition ParseAll ::
  "(string \<Rightarrow> int option) \<Rightarrow> flag_def list \<Rightarrow> (string \<rightharpoonup> string) \<Rightarrow> (string \<rightharpoonup> string) \<Rightarrow> flag_set \<Rightarrow> flag_set option" where
  "ParseAll dur defs env dict fs = conf_Parse dur env dict (fs_actual fs) (sort (map fst defs)) fs"

section \<open>The flags of the packages\<close>

definition api_flags :: "flag_def list" where
  "api_flags =
     [(''addr'', FStr '':80''), (''ssl'', FBool False), (''cert-file'', FStr ''''), (''key-file'', FStr '''')]"

definition auth_flags :: "flag_def list" where
  "auth_flags =
     [(''admin-key'', FStr ''not_very_secret_key'')]"

definition file_flags :: "flag_def list" where
  "file_flags =
     [(''auth-file-path'', FStr ''/etc/gw/auth.ini'')]"

definition gcom_flags :: "flag_def list" where
  "gcom_flags =
     [(''auth-endpoint'', FStr ''https://grafana.com''), (''auth-cache-ttl'', FDur 3600000000000),
      (''auth-valid-org-id'', FInts []), (''auth-valid-instance-type'', FStr ''''),
      (''auth-valid-cluster-id'', FInt 0), (''auth-validation-dry-run'', FBool True)]"

definition carbon_flags :: "flag_def list" where
  "carbon_flags =
     [(''carbon-enabled'', FBool False), (''carbon-addr'', FStr ''0.0.0.0:2003''),
      (''carbon-auth-plugin'', FStr ''file''), (''carbon-flush-interval'', FDur 1000000000),
      (''carbon-concurrency'', FInt 1), (''carbon-buffer-size'', FInt 100000),
      (''carbon-non-blocking-buffer'', FBool False)]"

definition kafka_flags :: "flag_def list" where
  "kafka_flags =
     [(''metrics-topic'', FStr ''mdm''), (''rewrite-org-id'', FStr ''''), (''only-org-id'', FInts []),
      (''discard-prefixes'', FStr ''''), (''metrics-kafka-comp'', FStr ''snappy''),
      (''metrics-publish'', FBool False), (''metrics-partition-scheme'', FStr ''bySeries''),
      (''metrics-flush-freq'', FDur 50000000), (''metrics-max-messages'', FInt 5000),
      (''schemas-file'', FStr ''/etc/gw/storage-schemas.conf''), (''v2'', FBool True), (''v2-org'', FBool True),
      (''kafka-ssl'', FBool False), (''kafka-ssl-skipverify'', FBool False), (''kafka-ssl-clientcrt'', FStr ''''),
      (''kafka-ssl-clientkey'', FStr ''''), (''v2-clear-interval'', FDur 3600000000000),
      (''kafka-version'', FStr ''0.10.0.0'')]"

definition log_flags :: "flag_def list" where
  "log_flags =
     [(''log-level'', FInt 2)]"

definition main_flags :: "flag_def list" where
  "main_flags =
     [(''version'', FBool False), (''api-auth-plugin'', FStr ''grafana''), (''enforce-roles'', FBool False),
      (''config'', FStr ''/etc/gw/tsdb-gw.ini''), (''kafka-tcp-addr'', FStr ''localhost:9092''),
      (''graphite-url'', FStr ''http://localhost:8080''), (''metrictank-url'', FStr ''http://localhost:6060''),
      (''importer-url'', FStr ''''), (''stats-enabled'', FBool False),
      (''stats-prefix'', FStr ''tsdb-gw.stats.default.$hostname''), (''stats-addr'', FStr ''localhost:2003''),
      (''stats-interval'', FInt 10), (''stats-buffer-size'', FInt 20000), (''stats-timeout'', FDur 10000000000),
      (''tracing-enabled'', FBool False), (''tracing-addr'', FStr ''localhost:6831''),
      (''timerange-limit'', FStr ''''), (''rate-limits'', FStr ''''), (''metrics-addr'', FStr '':8001'')]"

definition persister_main_flags :: "flag_def list" where
  "persister_main_flags =
     [(''version'', FBool False), (''config'', FStr ''/etc/gw/persister-gw.ini''), (''addr'', FStr ''0.0.0.0:80'')]"

definition metrics_client_flags :: "flag_def list" where
  "metrics_client_flags =
     [(''gateway-addr'', FStr ''localhost:80/metrics''), (''gateway-key'', FStr ''not_very_secret_key'')]"

definition storage_flags :: "flag_def list" where
  "storage_flags =
     [(''bigtable-project'', FStr ''persister''), (''bigtable-instance'', FStr ''persister''),
      (''bigtable-tablename'', FStr ''persister''), (''bigtable-prefix'', FStr '''')]"

definition persister_flags :: "flag_def list" where
  "persister_flags =
     [(''persister-interval'', FInt 60), (''persister-buffer-size'', FInt 1000)] @ metrics_client_flags @ storage_flags"

text \<open>What is registered when \<^verbatim>\<open>main\<close> of the gateway and of the persister parses the command line.\<close>

definition tsdb_gw_flags :: "flag_def list" where
  "tsdb_gw_flags = api_flags @ auth_flags @ file_flags @ gcom_flags @ carbon_flags @ kafka_flags @ log_flags @ main_flags"

definition persister_gw_flags :: "flag_def list" where
  "persister_gw_flags = log_flags @ persister_main_flags @ persister_flags"

lemmas flag_defs = api_flags_def auth_flags_def file_flags_def gcom_flags_def carbon_flags_def kafka_flags_def log_flags_def
  main_flags_def persister_main_flags_def metrics_client_flags_def storage_flags_def persister_flags_def
  tsdb_gw_flags_def persister_gw_flags_def

section \<open>Where a value comes from\<close>

lemma flag_Set_other: "flag_Set dur name s fs = Some fs' \<Longrightarrow> n \<noteq> name \<Longrightarrow> fs_formal fs' n = fs_formal fs n"
  by (auto simp: flag_Set_def split: option.splits)

lemma flag_Set_self:
  "flag_Set dur name s fs = Some fs' \<Longrightarrow> \<exists>v w. fs_formal fs name = Some v \<and> set_value dur s v = Some w \<and> fs_formal fs' name = Some w"
  by (auto simp: flag_Set_def split: option.splits)

text \<open>The source of a flag that the command line did not set, if there is one.\<close>

definition conf_source :: "(string \<rightharpoonup> string) \<Rightarrow> (string \<rightharpoonup> string) \<Rightarrow> string \<Rightarrow> string option" where
  "conf_source env dict name = (case env (env_key name) of Some v \<Rightarrow> Some v | None \<Rightarrow> dict name)"

lemma conf_Parse_step:
  "conf_Parse dur env dict already (name # names) fs =
     (if name \<in> already then conf_Parse dur env dict already names fs
      else case conf_source env dict name of
             None \<Rightarrow> conf_Parse dur env dict already names fs
           | Some v \<Rightarrow> (case flag_Set dur name v fs of None \<Rightarrow> None | Some fs \<Rightarrow> conf_Parse dur env dict already names fs))"
  by (auto simp: conf_source_def split: option.splits)

declare conf_Parse.simps(2) [simp del]

lemma conf_Parse_other:
  "conf_Parse dur env dict already names fs = Some fs' \<Longrightarrow> n \<notin> set names \<or> n \<in> already \<Longrightarrow> fs_formal fs' n = fs_formal fs n"
proof (induction names arbitrary: fs)
  case (Cons name names)
  from Cons.prems(1) show ?case
    unfolding conf_Parse_step using Cons.IH Cons.prems(2) flag_Set_other
    by (auto split: if_splits option.splits) (metis flag_Set_other)+
qed simp

lemma conf_Parse_value:
  assumes "conf_Parse dur env dict already names fs = Some fs'" and "distinct names" and "n \<in> set names" and "n \<notin> already"
  shows "fs_formal fs' n =
    (case conf_source env dict n of
       None \<Rightarrow> fs_formal fs n | Some v \<Rightarrow> (case fs_formal fs n of None \<Rightarrow> None | Some w \<Rightarrow> set_value dur v w))"
  using assms
proof (induction names arbitrary: fs)
  case (Cons name names)
  show ?case
  proof (cases "n = name")
    case True
    then obtain fs1 where rest: "conf_Parse dur env dict already names fs1 = Some fs'"
      and fs1: "fs_formal fs1 n = (case conf_source env dict n of
         None \<Rightarrow> fs_formal fs n | Some v \<Rightarrow> (case fs_formal fs n of None \<Rightarrow> None | Some w \<Rightarrow> set_value dur v w))"
      using Cons.prems(1,4) unfolding conf_Parse_step by (force split: option.splits dest: flag_Set_self)
    have "n \<notin> set names" using True Cons.prems(2) by simp
    then show ?thesis using conf_Parse_other [OF rest, of n] fs1 by simp
  next
    case False
    then obtain fs1 where rest: "conf_Parse dur env dict already names fs1 = Some fs'" and same: "fs_formal fs1 n = fs_formal fs n"
      using Cons.prems(1) unfolding conf_Parse_step by (auto split: if_splits option.splits dest: flag_Set_other)
    show ?thesis using Cons.IH [OF rest] Cons.prems(2-4) False unfolding same by simp
  qed
qed simp

lemma flag_Set_actual: "flag_Set dur name s fs = Some fs' \<Longrightarrow> fs_actual fs' = insert name (fs_actual fs)"
  by (auto simp: flag_Set_def split: option.splits)

text \<open>The command line changes the flags it names, and no others.\<close>

definition named :: "flag_set \<Rightarrow> flag_set \<Rightarrow> bool" where
  "named fs fs' \<longleftrightarrow> fs_actual fs \<subseteq> fs_actual fs' \<and> (\<forall>n. n \<notin> fs_actual fs' \<longrightarrow> fs_formal fs' n = fs_formal fs n)"

lemma named_refl [simp]: "named fs fs"
  by (simp add: named_def)

lemma named_Set: "flag_Set dur name s fs = Some fs1 \<Longrightarrow> named fs1 fs' \<Longrightarrow> named fs fs'"
  using flag_Set_actual [of dur name s fs fs1] flag_Set_other [of dur name s fs fs1] by (fastforce simp: named_def)

lemma parse_args_step:
  assumes "parse_args dur (s # args) fs = Some fs'"
  obtains "fs' = fs"
  | n v rest fs1 where "flag_Set dur n v fs = Some fs1" "parse_args dur rest fs1 = Some fs'" "length rest \<le> length args"
proof -
  let ?name = "if s ! 1 = CHR ''-'' then drop 2 s else drop 1 s"
  consider n where "splitn2 CHR ''='' ?name = [n]" | n v vs where "splitn2 CHR ''='' ?name = n # v # vs"
    by (meson splitn2_def)
  then show ?thesis
  proof cases
    case (1 n)
    then have "fs' = fs \<or> (\<exists>fs1. flag_Set dur n ''true'' fs = Some fs1 \<and> parse_args dur args fs1 = Some fs') \<or>
        (\<exists>v rest fs1. args = v # rest \<and> flag_Set dur n v fs = Some fs1 \<and> parse_args dur rest fs1 = Some fs')"
      using assms by (simp add: Let_def split: if_splits option.splits list.splits)
    then show ?thesis using that by fastforce
  next
    case (2 n v vs)
    then have "fs' = fs \<or> (\<exists>fs1. flag_Set dur n v fs = Some fs1 \<and> parse_args dur args fs1 = Some fs')"
      using assms by (simp add: Let_def split: if_splits option.splits)
    then show ?thesis using that by blast
  qed
qed

lemma parse_args_named: "parse_args dur args fs = Some fs' \<Longrightarrow> named fs fs'"
proof (induction "length args" arbitrary: args fs rule: less_induct)
  case less
  show ?case
  proof (cases args)
    case Nil
    then show ?thesis using less.prems by simp
  next
    case (Cons s rest)
    from less.prems [unfolded Cons] show ?thesis
    proof (cases rule: parse_args_step)
      case 1
      then show ?thesis by simp
    next
      case (2 n v rest' fs1)
      then show ?thesis using less.hyps [of rest' fs1] named_Set Cons by fastforce
    qed
  qed
qed

section \<open>Names of environment variables\<close>

definition env_char :: "char \<Rightarrow> char" where
  "env_char c = (let c = (if c = CHR ''.'' then CHR ''_'' else c); c = (if c = CHR ''-'' then CHR ''_'' else c)
     in if is_lower c then char_of (ascii c - 32) else c)"

lemma env_key_chars: "env_key n = ''GW_'' @ map env_char n"
  by (simp add: env_key_def to_upper_def replace_char_def env_char_def is_lower_def ascii_def Let_def)

definition flag_chars :: string where
  "flag_chars = ''abcdefghijklmnopqrstuvwxyz0123456789-''"

lemma env_char_inj: "inj_on env_char (set flag_chars)"
proof -
  have "distinct (map env_char flag_chars)" by code_simp
  then show ?thesis by (simp add: distinct_map)
qed

lemma env_key_inj:
  assumes "\<forall>n \<in> N. set n \<subseteq> set flag_chars"
  shows "inj_on env_key N"
proof (rule inj_onI)
  fix a b assume "a \<in> N" "b \<in> N" and eq: "env_key a = env_key b"
  then have "set a \<subseteq> set flag_chars" "set b \<subseteq> set flag_chars" using assms by blast+
  then have "inj_on env_char (set a \<union> set b)" using env_char_inj by (meson Un_subset_iff inj_on_subset)
  moreover have "map env_char a = map env_char b" using eq by (simp add: env_key_chars)
  ultimately show "a = b" by (simp add: map_inj_on)
qed

lemma env_keys_distinct:
  assumes "distinct (map fst defs)" and "list_all (list_all (\<lambda>c. c \<in> set flag_chars)) (map fst defs)"
  shows "distinct (map (env_key \<circ> fst) defs)"
proof -
  have "inj_on env_key (set (map fst defs))"
    by (rule env_key_inj) (use assms(2) in \<open>auto simp: list_all_iff\<close>)
  then have "distinct (map env_key (map fst defs))" using assms(1) by (simp only: distinct_map)
  then show ?thesis by simp
qed

section \<open>Properties\<close>

text \<open>
  Precedence of the configuration: a flag has the value the command line gave it; otherwise what its environment
  variable says, even when it says nothing; otherwise what the file says; otherwise its default.
\<close>

theorem flag_precedence:
  assumes "define_flags defs = Some fs0" and "parse_args dur args fs0 = Some fs1"
    and "ParseAll dur defs env dict fs1 = Some fs2" and "(n, d) \<in> set defs"
  shows "fs_formal fs2 n =
    (if n \<in> fs_actual fs1 then fs_formal fs1 n
     else
       case env (env_key n) of
         Some v \<Rightarrow> set_value dur v d
       | None \<Rightarrow> (case dict n of Some v \<Rightarrow> set_value dur v d | None \<Rightarrow> Some d))"
proof -
  have dist: "distinct (map fst defs)" and fs0: "fs0 = \<lparr>fs_formal = map_of defs, fs_actual = {}\<rparr>"
    using assms(1) by (auto simp: define_flags_def split: if_splits)
  have n: "n \<in> set (sort (map fst defs))" "fs_formal fs0 n = Some d"
    using assms(4) dist fs0 by (force, simp)
  show ?thesis
  proof (cases "n \<in> fs_actual fs1")
    case True
    then show ?thesis using conf_Parse_other [of dur env dict "fs_actual fs1"] assms(3) by (auto simp: ParseAll_def)
  next
    case False
    then have "fs_formal fs1 n = Some d" using parse_args_named [OF assms(2)] n(2) by (simp add: named_def)
    then show ?thesis
      using conf_Parse_value [OF assms(3) [unfolded ParseAll_def] _ n(1) False] dist False
      by (simp add: conf_source_def split: option.splits)
  qed
qed

theorem flag_precedence_witness:
  "\<exists>fs1 fs2. parse_args (\<lambda>s. None) [''-addr'', '':81''] \<lparr>fs_formal = map_of [(''addr'', FStr '':80''), (''log-level'', FInt 2)], fs_actual = {}\<rparr> = Some fs1 \<and>
    ParseAll (\<lambda>s. None) [(''addr'', FStr '':80''), (''log-level'', FInt 2)] [''GW_LOG_LEVEL'' \<mapsto> ''0x1'', ''GW_ADDR'' \<mapsto> '':82''] Map.empty fs1 = Some fs2 \<and>
    fs_formal fs2 ''addr'' = Some (FStr '':81'') \<and> fs_formal fs2 ''log-level'' = Some (FInt 1)"
proof -
  let ?defs = "[(''addr'', FStr '':80''), (''log-level'', FInt 2)]" and ?env = "[''GW_LOG_LEVEL'' \<mapsto> ''0x1'', ''GW_ADDR'' \<mapsto> '':82'']"
  let ?fs0 = "\<lparr>fs_formal = map_of ?defs, fs_actual = {}\<rparr>"
  let ?fs1 = "\<lparr>fs_formal = (map_of ?defs)(''addr'' \<mapsto> FStr '':81''), fs_actual = {''addr''}\<rparr>"
  have keys: "env_key ''addr'' = ''GW_ADDR''" "env_key ''log-level'' = ''GW_LOG_LEVEL''" by code_simp+
  have level: "set_value (\<lambda>s. None) ''0x1'' (FInt 2) = Some (FInt 1)"
    by (simp add: set_value_def parse_int0_def parse_uint0_def hex_val_def)
  have defs: "define_flags ?defs = Some ?fs0" by (simp add: define_flags_def)
  have args: "parse_args (\<lambda>s. None) [''-addr'', '':81''] ?fs0 = Some ?fs1"
    by (simp add: is_bool_flag_def flag_Set_def set_value_def splitn2_def Let_def)
  obtain fs2 where all: "ParseAll (\<lambda>s. None) ?defs ?env Map.empty ?fs1 = Some fs2"
    by (simp add: ParseAll_def conf_Parse_step conf_source_def keys flag_Set_def level)
  show ?thesis
    using flag_precedence [OF defs args all, of "''addr''" "FStr '':80''"] flag_precedence [OF defs args all, of "''log-level''" "FInt 2"] args all
    by (simp add: keys level)
qed

text \<open>
  The flags of either process can be registered together, and no two of them are read from the same environment
  variable.
\<close>

theorem flags_do_not_clash:
  "define_flags tsdb_gw_flags \<noteq> None \<and> distinct (map (env_key \<circ> fst) tsdb_gw_flags) \<and>
   define_flags persister_gw_flags \<noteq> None \<and> distinct (map (env_key \<circ> fst) persister_gw_flags)"
proof -
  have names: "distinct (map fst tsdb_gw_flags)" "distinct (map fst persister_gw_flags)"
    by code_simp+
  have chars: "list_all (list_all (\<lambda>c. c \<in> set flag_chars)) (map fst tsdb_gw_flags)"
    "list_all (list_all (\<lambda>c. c \<in> set flag_chars)) (map fst persister_gw_flags)"
    by code_simp+
  show ?thesis
    using names env_keys_distinct [OF names(1) chars(1)] env_keys_distinct [OF names(2) chars(2)]
    by (simp add: define_flags_def)
qed

end
