(* ===== verification/SchemaFile.thy ===== *)
theory SchemaFile
  imports StorageSchemas Flags Dur
begin

text \<open>
  Reading the file of storage schemas: \<^verbatim>\<open>ReadSchemas\<close> and \<^verbatim>\<open>ParseRetentions\<close> of the vendored \<^verbatim>\<open>metrictank/conf\<close>, which
  \<^verbatim>\<open>publish/kafka/schemas.go\<close> calls when the publisher starts.

  \<^item> The configuration parser gives the sections in the order of the file; a section has a header line and a
    value, possibly empty, for every option.
  \<^item> The argument \<open>compile\<close> compiles a regular expression to the predicate it decides.
  \<^item> The priorities of a file are pairwise different, so the order after sorting is determined.
\<close>

section \<open>Retentions\<close>

datatype schema_file_error =
  SfBadSpec | SfDuration dur_error | SfPanicDivide | SfSpan | SfChunkMonth | SfChunkSpan | SfNumChunks num_error | SfReady
  | SfRetentions retention_error | SfEmptyPattern | SfPattern | SfPriority num_error | SfReorderBuffer

definition ChunkSpans :: "uint32 list" where
  "ChunkSpans =
     [1, 5, 10, 15, 20, 30, 60, 90, 2 * 60, 3 * 60, 5 * 60, 10 * 60, 15 * 60, 20 * 60, 30 * 60, 45 * 60, 3600, 90 * 60,
      2 * 3600, 150 * 60, 3 * 3600, 4 * 3600, 5 * 3600, 6 * 3600, 7 * 3600, 8 * 3600, 9 * 3600, 10 * 3600, 12 * 3600,
      15 * 3600, 18 * 3600, 24 * 3600]"

definition IsSpanValid :: "uint32 \<Rightarrow> bool" where
  "IsSpanValid span \<longleftrightarrow>
     span \<in> set [2, 5, 10, 15, 30, 60, 90, 120, 150, 300, 600, 900, 1200, 1800, 45 * 60, 3600, 3600 + 30 * 60, 2 * 3600,
       3 * 3600, 4 * 3600, 5 * 3600, 6 * 3600, 8 * 3600, 12 * 3600, 24 * 3600]"

definition Month_sec :: uint32 where
  "Month_sec = 60 * 60 * 24 * 28"

definition ParseRetentionNew :: "string \<Rightarrow> schema_file_error + int \<times> int" where
  "ParseRetentionNew def =
     (let parts = split_on CHR '':'' def
      in if length parts < 2 then Inl SfBadSpec
         else
           case ParseDuration (parts ! 0) of
             Inl e \<Rightarrow> Inl (SfDuration e)
           | Inr interval \<Rightarrow>
               (case ParseDuration (parts ! 1) of
                  Inl e \<Rightarrow> Inl (SfDuration e)
                | Inr ttl \<Rightarrow> if interval = 0 then Inl SfPanicDivide else Inr (uint interval, uint (ttl div interval))))"

text \<open>The chunk span: given, or the first that holds a hundred points, or else the largest.\<close>

definition chunk_span :: "string list \<Rightarrow> int \<Rightarrow> schema_file_error + uint32" where
  "chunk_span parts secondsPerPoint =
     (if length parts \<ge> 3 then
        (case ParseNDuration (parts ! 2) of
           Inl e \<Rightarrow> Inl (SfDuration e)
         | Inr span \<Rightarrow>
             if Month_sec mod span \<noteq> 0 then Inl SfChunkMonth
             else if span \<notin> set ChunkSpans then Inl SfChunkSpan
             else Inr span)
      else
        Inr (case find (\<lambda>span. span \<ge> uint32_of (secondsPerPoint * 100)) ChunkSpans of
               None \<Rightarrow> last ChunkSpans | Some span \<Rightarrow> span))"

definition ready_time :: "string \<Rightarrow> uint32 option" where
  "ready_time s =
     (case parse_uint 32 s of
        Inr n \<Rightarrow> Some (word_of_nat n)
      | Inl e \<Rightarrow> (case ParseBool s of None \<Rightarrow> None | Some b \<Rightarrow> Some (if b then 0 else - 1)))"

definition parse_retention :: "nat \<Rightarrow> string \<Rightarrow> schema_file_error + Retention" where
  "parse_retention i def =
     (let def = trim_space def;
          parts = split_on CHR '':'' def
      in if length parts < 2 \<or> length parts > 5 then Inl SfBadSpec
         else
           case (case (parse_int 64 (parts ! 0), parse_int 64 (parts ! 1)) of
                   (Inr val1, Inr val2) \<Rightarrow> Inr (val1, val2) | _ \<Rightarrow> ParseRetentionNew def) of
             Inl e \<Rightarrow> Inl e
           | Inr (secondsPerPoint, numberOfPoints) \<Rightarrow>
               if i \<noteq> 0 \<and> \<not> IsSpanValid (uint32_of secondsPerPoint) then Inl SfSpan
               else
                 case chunk_span parts secondsPerPoint of
                   Inl e \<Rightarrow> Inl e
                 | Inr chunkSpan \<Rightarrow>
                     (case (if length parts \<ge> 4 then atoi (parts ! 3) else Inr 2) of
                        Inl e \<Rightarrow> Inl (SfNumChunks e)
                      | Inr numChunks \<Rightarrow>
                          (case (if length parts = 5 then ready_time (parts ! 4) else Some 0) of
                             None \<Rightarrow> Inl SfReady
                           | Some ready \<Rightarrow>
                               Inr \<lparr>rt_SecondsPerPoint = secondsPerPoint, rt_NumberOfPoints = numberOfPoints,
                                    rt_ChunkSpan = chunkSpan, rt_NumChunks = uint32_of numChunks, rt_Ready = ready\<rparr>)))"

fun parse_retentions :: "nat \<Rightarrow> string list \<Rightarrow> schema_file_error + Retention list" where
  "parse_retentions i [] = Inr []"
| "parse_retentions i (def # defs) =
     (case parse_retention i def of
        Inl e \<Rightarrow> Inl e
      | Inr r \<Rightarrow> (case parse_retentions (Suc i) defs of Inl e \<Rightarrow> Inl e | Inr rs \<Rightarrow> Inr (r # rs)))"

definition ParseRetentions :: "string \<Rightarrow> schema_file_error + Retention list" where
  "ParseRetentions defs =
     (case parse_retentions 0 (split_on CHR '','' defs) of
        Inl e \<Rightarrow> Inl e
      | Inr rs \<Rightarrow> (case Retentions_Validate rs of Some e \<Rightarrow> Inl (SfRetentions e) | None \<Rightarrow> Inr rs))"

section \<open>Sections\<close>

record conf_section =
  cs_header :: string
  cs_value :: "string \<Rightarrow> string"

definition trim_chars :: "string \<Rightarrow> string \<Rightarrow> string" where
  "trim_chars cs s = rev (dropWhile (\<lambda>c. c \<in> set cs) (rev (dropWhile (\<lambda>c. c \<in> set cs) s)))"

definition section_priority :: "conf_section \<Rightarrow> num_error + int" where
  "section_priority sec = (if cs_value sec ''priority'' \<noteq> [] then parse_int 64 (cs_value sec ''priority'') else Inr 0)"

text \<open>The body of the loop over the sections: no schema for a section without a name or with a comment for one.\<close>

definition section_schema ::
  "(string \<Rightarrow> (string \<Rightarrow> bool) option) \<Rightarrow> nat \<Rightarrow> conf_section \<Rightarrow> schema_file_error + StorageSchema option" where
  "section_schema compile i sec =
     (let name = trim_chars '' []'' (cs_header sec)
      in if name = [] \<or> has_prefix ''#'' name then Inr None
         else if cs_value sec ''pattern'' = [] then Inl SfEmptyPattern
         else
           case compile (cs_value sec ''pattern'') of
             None \<Rightarrow> Inl SfPattern
           | Some pattern \<Rightarrow>
               (case ParseRetentions (cs_value sec ''retentions'') of
                  Inl e \<Rightarrow> Inl e
                | Inr retentions \<Rightarrow>
                    (case section_priority sec of
                       Inl e \<Rightarrow> Inl (SfPriority e)
                     | Inr p \<Rightarrow>
                         (case (if cs_value sec ''reorderBuffer'' \<noteq> [] then parse_uint 32 (cs_value sec ''reorderBuffer'') else Inr 0) of
                            Inl e \<Rightarrow> Inl SfReorderBuffer
                          | Inr window \<Rightarrow>
                              Inr (Some \<lparr>sch_Name = name, sch_Pattern = pattern, sch_Retentions = retentions,
                                         sch_Priority = int64_of (p * 2 ^ 32 - int i), sch_ReorderWindow = word_of_nat window\<rparr>)))))"

fun read_sections ::
  "(string \<Rightarrow> (string \<Rightarrow> bool) option) \<Rightarrow> nat \<Rightarrow> conf_section list \<Rightarrow> schema_file_error + StorageSchema list" where
  "read_sections compile i [] = Inr []"
| "read_sections compile i (sec # secs) =
     (case section_schema compile i sec of
        Inl e \<Rightarrow> Inl e
      | Inr s \<Rightarrow>
          (case read_sections compile (Suc i) secs of
             Inl e \<Rightarrow> Inl e | Inr ss \<Rightarrow> Inr ((case s of None \<Rightarrow> [] | Some s \<Rightarrow> [s]) @ ss)))"

definition ReadSchemas :: "(string \<Rightarrow> (string \<Rightarrow> bool) option) \<Rightarrow> conf_section list \<Rightarrow> schema_file_error + Schemas" where
  "ReadSchemas compile secs =
     (case read_sections compile 0 secs of
        Inl e \<Rightarrow> Inl e | Inr schemas \<Rightarrow> Inr (NewSchemas (sort_key (\<lambda>s. - sch_Priority s) schemas)))"

text \<open>\<^verbatim>\<open>getSchemas\<close> of the publisher.\<close>

definition getSchemas ::
  "(string \<Rightarrow> (string \<Rightarrow> bool) option) \<Rightarrow> (string \<Rightarrow> conf_section list option) \<Rightarrow> string \<Rightarrow> schema_file_error option + Schemas" where
  "getSchemas compile read file =
     (case read file of
        None \<Rightarrow> Inl None
      | Some secs \<Rightarrow> (case ReadSchemas compile secs of Inl e \<Rightarrow> Inl (Some e) | Inr s \<Rightarrow> Inr s))"

section \<open>What the sections say\<close>

text \<open>The schema of the section at a position, if it has one.\<close>

definition from_section ::
  "(string \<Rightarrow> (string \<Rightarrow> bool) option) \<Rightarrow> conf_section list \<Rightarrow> nat \<Rightarrow> int \<Rightarrow> StorageSchema \<Rightarrow> bool" where
  "from_section compile secs i p s \<longleftrightarrow>
     i < length secs \<and> section_schema compile i (secs ! i) = Inr (Some s) \<and> section_priority (secs ! i) = Inr p"

lemma section_schema_priority:
  assumes "section_schema compile i sec = Inr (Some s)"
  shows "\<exists>p. section_priority sec = Inr p \<and> sch_Priority s = int64_of (p * 2 ^ 32 - int i)"
    and "Retentions_Validate (sch_Retentions s) = None"
  using assms
  by (auto simp: section_schema_def ParseRetentions_def Let_def split: if_splits option.splits sum.splits)

lemma read_sections_set:
  assumes "read_sections compile k secs = Inr ss"
  shows "set ss = {s. \<exists>i < length secs. section_schema compile (k + i) (secs ! i) = Inr (Some s)}"
  using assms
proof (induction secs arbitrary: k ss)
  case (Cons sec secs)
  then obtain s ss' where s: "section_schema compile k sec = Inr s" and ss': "read_sections compile (Suc k) secs = Inr ss'"
    and ss: "ss = (case s of None \<Rightarrow> [] | Some s \<Rightarrow> [s]) @ ss'"
    by (auto split: sum.splits)
  have "{x. \<exists>i < length (sec # secs). section_schema compile (k + i) ((sec # secs) ! i) = Inr (Some x)} =
      {x. s = Some x} \<union> {x. \<exists>i < length secs. section_schema compile (Suc k + i) (secs ! i) = Inr (Some x)}"
    using s by (auto simp: Ex_less_Suc2)
  then show ?case using Cons.IH [OF ss'] ss by (auto split: option.splits)
qed simp

lemma priority_order:
  assumes "- (2 ^ 31) < p" "p < 2 ^ 31" "- (2 ^ 31) < q" "q < 2 ^ 31" and "i < 2 ^ 31" and "j < 2 ^ 31"
    and "int64_of (q * 2 ^ 32 - int j) \<le> int64_of (p * 2 ^ 32 - int i)"
  shows "q < p \<or> q = p \<and> i \<le> j"
proof -
  have "int64_of (x * 2 ^ 32 - int k) = x * 2 ^ 32 - int k" if "- (2 ^ 31) < x" "x < 2 ^ 31" "k < 2 ^ 31" for x k
    using that by (intro int64_of_id) auto
  then show ?thesis using assms by auto
qed

lemma find_SomeD: "find P xs = Some x \<Longrightarrow> P x \<and> x \<in> set xs"
  by (auto simp: find_Some_iff)

text \<open>The first match in a list sorted by a key has the least key of the matches.\<close>

lemma find_sorted_least:
  assumes "sorted (map f xs)" and "find P xs = Some x" and "y \<in> set xs" and "P y"
  shows "f x \<le> f y"
  using assms by (induction xs) (auto split: if_splits)

lemma match_spec_interval_0:
  "match_spec metric 0 raw = (case find (\<lambda>s. sch_Pattern s metric) raw of None \<Rightarrow> default_schema | Some s \<Rightarrow> s)"
  by (induction raw) (simp_all add: fit_pos_def)

text \<open>Priorities that the composition with the position in the file leaves in range.\<close>

definition priorities_fit :: "conf_section list \<Rightarrow> bool" where
  "priorities_fit secs \<longleftrightarrow>
     length secs < 2 ^ 31 \<and>
     list_all (\<lambda>sec. case section_priority sec of Inl e \<Rightarrow> True | Inr p \<Rightarrow> - (2 ^ 31) < p \<and> p < 2 ^ 31) secs"

text \<open>The schema of a section that matches a metric and that no other matching section comes before.\<close>

definition leading_section ::
  "(string \<Rightarrow> (string \<Rightarrow> bool) option) \<Rightarrow> conf_section list \<Rightarrow> string \<Rightarrow> StorageSchema \<Rightarrow> bool" where
  "leading_section compile secs metric s \<longleftrightarrow>
     sch_Pattern s metric \<and>
     (\<exists>i p. from_section compile secs i p s \<and>
       (\<forall>j q t. from_section compile secs j q t \<longrightarrow> sch_Pattern t metric \<longrightarrow> q < p \<or> q = p \<and> i \<le> j))"

lemma from_section_iff:
  assumes "read_sections compile 0 secs = Inr ss"
  shows "s \<in> set ss \<longleftrightarrow> (\<exists>i p. from_section compile secs i p s)"
  using read_sections_set [OF assms] section_schema_priority(1) by (fastforce simp: from_section_def)

lemma from_section_fits:
  assumes "priorities_fit secs" and "from_section compile secs i p s"
  shows "- (2 ^ 31) < p" and "p < 2 ^ 31" and "i < 2 ^ 31" and "sch_Priority s = int64_of (p * 2 ^ 32 - int i)"
proof -
  have "list_all (\<lambda>sec. case section_priority sec of Inl e \<Rightarrow> True | Inr p \<Rightarrow> - (2 ^ 31) < p \<and> p < 2 ^ 31) secs"
    using assms(1) by (simp add: priorities_fit_def)
  then have "case section_priority (secs ! i) of Inl e \<Rightarrow> True | Inr p \<Rightarrow> - (2 ^ 31) < p \<and> p < 2 ^ 31"
    using assms(2) unfolding list_all_length from_section_def by blast
  then show "- (2 ^ 31) < p" and "p < 2 ^ 31" using assms(2) by (simp_all add: from_section_def)
  show "i < 2 ^ 31" using assms by (simp add: from_section_def priorities_fit_def)
  show "sch_Priority s = int64_of (p * 2 ^ 32 - int i)"
    using section_schema_priority(1) assms(2) by (fastforce simp: from_section_def)
qed

text \<open>A retention with an interval of zero is not refused: the division of its total time panics.\<close>

lemma zero_interval_panics: "ParseRetentions ''0s:1d'' = Inl SfPanicDivide"
proof -
  have "trim_space ''0s:1d'' = ''0s:1d''" by code_simp
  moreover have "ParseDuration ''0s'' = Inr 0" "ParseDuration ''1d'' = Inr 86400"
    by (simp_all add: ParseDuration_def duration_loop.simps is_digit_def digit_val_def unit_multi_def multi_defs atoi_def
        parse_int_def parse_uint_def uint32_of_def)
  ultimately show ?thesis
    by (simp add: ParseRetentions_def parse_retention_def Let_def parse_int_def parse_uint_def digit_val_def
        ParseRetentionNew_def)
qed

section \<open>The search in the schemas of a file\<close>

text \<open>
  For a metric, the section with the highest priority among those whose pattern matches, the earlier one of two with
  the same priority, and the built-in schema when no section matches.
\<close>

definition file_decides ::
  "(string \<Rightarrow> (string \<Rightarrow> bool) option) \<Rightarrow> conf_section list \<Rightarrow> string \<Rightarrow> StorageSchema \<Rightarrow> bool" where
  "file_decides compile secs metric s \<longleftrightarrow>
     (if \<exists>i p t. from_section compile secs i p t \<and> sch_Pattern t metric then leading_section compile secs metric s
      else s = default_schema)"

lemma file_decides_retentions: "file_decides compile secs metric s \<Longrightarrow> sch_Retentions s \<noteq> []"
  using section_schema_priority(2)
  by (fastforce simp: file_decides_def leading_section_def from_section_def Retentions_Validate_def default_schema_def
      split: if_splits)

text \<open>The search of the publisher, in the index built from the file, returns that schema.\<close>

lemma file_priority_decides:
  assumes "ReadSchemas compile secs = Inr scs" and "priorities_fit secs"
  shows "\<exists>k s. Schemas_Match scs metric 0 = Some (Inr (k, s)) \<and> file_decides compile secs metric s"
proof -
  obtain ss where ss: "read_sections compile 0 secs = Inr ss" and scs: "scs = NewSchemas (sort_key (\<lambda>s. - sch_Priority s) ss)"
    using assms(1) by (auto simp: ReadSchemas_def split: sum.splits)
  let ?raw = "sort_key (\<lambda>s. - sch_Priority s) ss" and ?P = "\<lambda>s. sch_Pattern s metric"
  have sections: "s \<in> set ?raw \<longleftrightarrow> (\<exists>i p. from_section compile secs i p s)" for s
    using from_section_iff [OF ss] by simp
  have "sch_Retentions s \<noteq> []" if "s \<in> set ?raw" for s
    using that section_schema_priority(2) sections
    by (fastforce simp: from_section_def Retentions_Validate_def split: if_splits)
  then obtain k where k: "Schemas_Match scs metric 0 = Some (Inr (k, match_spec metric 0 ?raw))"
    using Schemas_Match_spec [of ?raw] unfolding scs by blast
  show ?thesis
  proof (cases "find ?P ?raw")
    case None
    then have "\<not> (\<exists>i p t. from_section compile secs i p t \<and> ?P t)" using sections by (auto simp: find_None_iff)
    then show ?thesis using k None by (auto simp: match_spec_interval_0 file_decides_def)
  next
    case (Some s)
    then have s: "?P s" "s \<in> set ?raw" using find_SomeD by fastforce+
    then obtain i p where ip: "from_section compile secs i p s" using sections by blast
    have "q < p \<or> q = p \<and> i \<le> j" if "from_section compile secs j q t" "?P t" for j q t
    proof (rule priority_order)
      show "int64_of (q * 2 ^ 32 - int j) \<le> int64_of (p * 2 ^ 32 - int i)"
        using find_sorted_least [OF sorted_sort_key Some] that sections from_section_fits(4) [OF assms(2) that(1)]
          from_section_fits(4) [OF assms(2) ip] by fastforce
    qed (use from_section_fits(1-3) [OF assms(2)] that(1) ip in blast)+
    then have "leading_section compile secs metric s" using s ip by (auto simp: leading_section_def)
    then show ?thesis using k Some ip s by (auto simp: match_spec_interval_0 file_decides_def)
  qed
qed

text \<open>Two sections match; the second has the higher priority.\<close>

definition prefix_pattern :: "string \<Rightarrow> (string \<Rightarrow> bool) option" where
  "prefix_pattern r = Some (has_prefix r)"

definition conf_values :: "(string \<times> string) list \<Rightarrow> string \<Rightarrow> string" where
  "conf_values kvs k = (case map_of kvs k of None \<Rightarrow> [] | Some v \<Rightarrow> v)"

definition two_sections :: "conf_section list" where
  "two_sections =
     [\<lparr>cs_header = ''[all]'', cs_value = conf_values [(''pattern'', ''w''), (''retentions'', ''60:9'')]\<rparr>,
      \<lparr>cs_header = ''[web]'',
        cs_value = conf_values [(''pattern'', ''web.''), (''retentions'', ''10:8''), (''priority'', ''5'')]\<rparr>]"

lemma two_sections_retentions:
  "\<exists>r. ParseRetentions ''60:9'' = Inr r" "\<exists>r. ParseRetentions ''10:8'' = Inr r"
proof -
  have "trim_space ''60:9'' = ''60:9''" "trim_space ''10:8'' = ''10:8''" by code_simp+
  then show "\<exists>r. ParseRetentions ''60:9'' = Inr r" "\<exists>r. ParseRetentions ''10:8'' = Inr r"
    by (simp_all add: ParseRetentions_def parse_retention_def Let_def parse_int_def parse_uint_def digit_val_def
        Retentions_Validate_def chunk_span_def)
qed

lemma two_sections_read: "\<exists>scs. ReadSchemas prefix_pattern two_sections = Inr scs" "priorities_fit two_sections"
proof -
  have priorities: "map section_priority two_sections = [Inr 0, Inr 5]"
    by (simp add: two_sections_def section_priority_def conf_values_def parse_int_def parse_uint_def digit_val_def)
  then show "\<exists>scs. ReadSchemas prefix_pattern two_sections = Inr scs"
    using two_sections_retentions
    by (auto simp: ReadSchemas_def two_sections_def section_schema_def trim_chars_def Let_def conf_values_def prefix_pattern_def)
  show "priorities_fit two_sections" using priorities by (auto simp: priorities_fit_def two_sections_def)
qed

end
