(* ===== verification/RoutePattern.thy ===== *)
theory RoutePattern
  imports GoNumeric
begin

text \<open>
  The patterns of the router (\<^verbatim>\<open>checkPattern\<close> of \<^verbatim>\<open>gopkg.in/macaron.v1/tree.go\<close>): the five types of a segment, in the order
  in which the trees keep them, and the wildcards of a segment with the regular expression that is left when they are
  taken out. The pattern for building addresses (\<^verbatim>\<open>getRawPattern\<close>), which nothing in the gateway uses, is left out.
\<close>

section \<open>Types of patterns\<close>

datatype patternType = PATTERN_STATIC | PATTERN_REGEXP | PATTERN_PATH_EXT | PATTERN_HOLDER | PATTERN_MATCH_ALL

fun pattern_rank :: "patternType \<Rightarrow> nat" where
  "pattern_rank PATTERN_STATIC = 0"
| "pattern_rank PATTERN_REGEXP = 1"
| "pattern_rank PATTERN_PATH_EXT = 2"
| "pattern_rank PATTERN_HOLDER = 3"
| "pattern_rank PATTERN_MATCH_ALL = 4"

lemma pattern_rank_inject: "pattern_rank a = pattern_rank b \<longleftrightarrow> a = b"
  by (cases a; cases b) simp_all

instantiation patternType :: linorder
begin

definition less_eq_patternType :: "patternType \<Rightarrow> patternType \<Rightarrow> bool" where
  "less_eq_patternType a b \<longleftrightarrow> pattern_rank a \<le> pattern_rank b"

definition less_patternType :: "patternType \<Rightarrow> patternType \<Rightarrow> bool" where
  "less_patternType a b \<longleftrightarrow> pattern_rank a < pattern_rank b"

instance
  by standard (auto simp: less_eq_patternType_def less_patternType_def pattern_rank_inject)

end

lemma static_least [simp]: "PATTERN_STATIC \<le> typ"
  by (simp add: less_eq_patternType_def)

section \<open>Wildcards\<close>

text \<open>The first match of \<^verbatim>\<open>:[a-zA-Z0-9]+\<close>, with what is before and behind it.\<close>

definition alphanumeric :: "char \<Rightarrow> bool" where
  "alphanumeric c \<longleftrightarrow>
     (let n = of_char c :: nat in 48 \<le> n \<and> n \<le> 57 \<or> 65 \<le> n \<and> n \<le> 90 \<or> 97 \<le> n \<and> n \<le> 122)"

fun find_wildcard :: "string \<Rightarrow> (string \<times> string \<times> string) option" where
  "find_wildcard [] = None"
| "find_wildcard (c # s) =
     (if c = CHR '':'' \<and> takeWhile alphanumeric s \<noteq> []
      then Some ([], c # takeWhile alphanumeric s, dropWhile alphanumeric s)
      else map_option (\<lambda>(before, wildcard, behind). (c # before, wildcard, behind)) (find_wildcard s))"

text \<open>\<^verbatim>\<open>strings.Replace(s, old, new, 1)\<close>.\<close>

fun replace_first :: "string \<Rightarrow> string \<Rightarrow> string \<Rightarrow> string" where
  "replace_first old new s =
     (if has_prefix old s then new @ drop (length old) s
      else case s of [] \<Rightarrow> [] | c # cs \<Rightarrow> c # replace_first old new cs)"

declare replace_first.simps [simp del]

text \<open>A wildcard that no expression follows stands for \<^verbatim>\<open>(.+)\<close>; one that an expression follows is cut out of its place.\<close>

definition getNextWildcard :: "string \<Rightarrow> string \<times> string" where
  "getNextWildcard pattern =
     (case find_wildcard pattern of
        None \<Rightarrow> ([], pattern)
      | Some (before, wildcard, behind) \<Rightarrow>
          let cut = (\<lambda>p. (wildcard, take (length before) p @ drop (length before + length wildcard) p))
          in if has_prefix ''('' behind then cut pattern
             else if has_prefix '':int'' behind then cut (replace_first '':int'' ''([0-9]+)'' pattern)
             else if has_prefix '':string'' behind then cut (replace_first '':string'' (''(['' @ [CHR 0x5C] @ ''w]+)'') pattern)
             else (wildcard, replace_first wildcard ''(.+)'' pattern))"

subsection \<open>Each wildcard takes a colon away\<close>

abbreviation colons :: "string \<Rightarrow> nat" where
  "colons s \<equiv> count_list s CHR '':''"

lemma colons_take_drop: "colons (take n s) + colons (drop n s) = colons s"
  by (simp only: append_take_drop_id flip: count_list_append)

lemma colons_drop: "colons (drop n s) \<le> colons s"
  using colons_take_drop [of n s] by simp

lemma find_wildcard_SomeD:
  "find_wildcard p = Some (before, wildcard, behind) \<Longrightarrow> p = before @ wildcard @ behind \<and> wildcard \<noteq> [] \<and> hd wildcard = CHR '':''"
  by (induction p arbitrary: before rule: find_wildcard.induct) (auto split: if_splits)

lemma replace_first_colons:
  assumes "has_prefix (CHR '':'' # old) behind" and "colons new = 0"
  shows "colons (replace_first (CHR '':'' # old) new (before @ behind)) < colons (before @ behind)"
proof (induction before)
  case Nil
  then show ?case
    using assms(1) colons_drop [of "length old"] by (cases behind) (auto simp: replace_first.simps assms(2) less_Suc_eq_le)
next
  case (Cons c before)
  then show ?case
    using assms(2) colons_drop [of "length old" "before @ behind"]
    by (subst replace_first.simps) (auto simp: less_Suc_eq_le)
qed

lemma cut_colons: "colons (take n p @ drop (n + m) p) \<le> colons p"
  using colons_take_drop [of n p] colons_drop [of m "drop n p"] by (simp add: add.commute)

lemma getNextWildcard_colons:
  assumes "getNextWildcard pattern = (wildcard, pattern')" and "wildcard \<noteq> []"
  shows "colons pattern' < colons pattern"
proof -
  obtain before behind where found: "find_wildcard pattern = Some (before, wildcard, behind)"
    using assms by (auto simp: getNextWildcard_def Let_def split: option.splits if_splits)
  then obtain w where p: "pattern = before @ (CHR '':'' # w) @ behind" "wildcard = CHR '':'' # w"
    using find_wildcard_SomeD [OF found] by (cases wildcard) auto
  have cut: "colons (take (length before) q @ drop (length before + length wildcard) q) < colons pattern" if "colons q < colons pattern" for q
    using cut_colons [of "length before" q "length wildcard"] that by (rule le_less_trans)
  have special: "colons (replace_first (CHR '':'' # old) new pattern) < colons pattern"
    if "has_prefix (CHR '':'' # old) behind" "colons new = 0" for old new
    using replace_first_colons [OF that, of "before @ CHR '':'' # w"] p(1) by simp
  have plain: "colons (replace_first wildcard ''(.+)'' pattern) < colons pattern"
    using replace_first_colons [of w "(CHR '':'' # w) @ behind" "''(.+)''" before] p by (simp add: has_prefix_iff)
  have none: "colons (before @ behind) < colons pattern" using p(1) by simp
  show ?thesis
    using assms(1) found cut [OF special] plain none p(1)
    by (auto simp: getNextWildcard_def Let_def p(2) simp del: has_prefix_Cons split: if_splits)
qed

function getWildcards :: "string \<Rightarrow> string \<times> string list" where
  "getWildcards pattern =
     (case getNextWildcard pattern of
        (wildcard, pattern') \<Rightarrow>
          if wildcard \<noteq> [] then (case getWildcards pattern' of (p, ws) \<Rightarrow> (p, wildcard # ws)) else (pattern', []))"
  by pat_completeness auto
termination
  by (relation "measure colons") (auto dest: getNextWildcard_colons [OF sym])

declare getWildcards.simps [simp del]

section \<open>Checking a pattern\<close>

text \<open>The type of a segment, its wildcards and the expression that is compiled for it.\<close>

definition checkPattern :: "string \<Rightarrow> patternType \<times> string list \<times> string" where
  "checkPattern pattern =
     (let pattern = dropWhile (\<lambda>c. c = CHR ''?'') pattern
      in if pattern = ''*'' then (PATTERN_MATCH_ALL, [], [])
         else if pattern = ''*.*'' then (PATTERN_PATH_EXT, [], [])
         else if CHR '':'' \<in> set pattern
         then case getWildcards pattern of (expr, wildcards) \<Rightarrow>
           if expr = ''(.+)'' then (PATTERN_HOLDER, wildcards, []) else (PATTERN_REGEXP, wildcards, expr)
         else (PATTERN_STATIC, [], []))"

definition pattern_type :: "string \<Rightarrow> patternType" where
  "pattern_type pattern = fst (checkPattern pattern)"

definition pattern_wildcards :: "string \<Rightarrow> string list" where
  "pattern_wildcards pattern = fst (snd (checkPattern pattern))"

definition pattern_expr :: "string \<Rightarrow> string" where
  "pattern_expr pattern = snd (snd (checkPattern pattern))"

text \<open>The \<^verbatim>\<open>optional\<close> of \<^verbatim>\<open>NewLeaf\<close>.\<close>

definition optional_leaf :: "string \<Rightarrow> bool" where
  "optional_leaf pattern \<longleftrightarrow> has_prefix ''?'' pattern"

lemma optional_leaf_Nil [simp]: "\<not> optional_leaf []"
  by (simp add: optional_leaf_def)

text \<open>A segment of a named value has its one wildcard, so that the value has a name.\<close>

lemma getWildcards_none:
  assumes "getWildcards p = (expr, [])"
  shows "expr = p"
proof -
  obtain wildcard p' where next_one: "getNextWildcard p = (wildcard, p')" by fastforce
  then have "wildcard = []" "expr = p'"
    using assms by (auto simp: getWildcards.simps [of p] split: if_splits prod.splits)
  moreover have "p' = p" if "wildcard = []"
    using next_one that by (auto simp: getNextWildcard_def Let_def split: option.splits if_splits dest!: find_wildcard_SomeD)
  ultimately show ?thesis by simp
qed

lemma holder_has_wildcard:
  assumes "pattern_type p = PATTERN_HOLDER"
  shows "pattern_wildcards p \<noteq> []"
proof
  assume none: "pattern_wildcards p = []"
  define q where "q = dropWhile (\<lambda>c. c = CHR ''?'') p"
  obtain expr ws where split: "getWildcards q = (expr, ws)" by fastforce
  have "CHR '':'' \<in> set q" "expr = ''(.+)''" "ws = []"
    using assms none split by (auto simp: pattern_type_def pattern_wildcards_def checkPattern_def Let_def simp flip: q_def split: if_splits)
  then show False using getWildcards_none [of q expr] split by auto
qed

text \<open>Text without a colon that does not begin with a question mark or a star is fixed.\<close>

lemma fixed_pattern: "CHR '':'' \<notin> set p \<Longrightarrow> hd p \<notin> {CHR ''?'', CHR ''*''} \<Longrightarrow> pattern_type p = PATTERN_STATIC"
  by (cases p) (auto simp: pattern_type_def checkPattern_def)

lemma star_pattern [simp]: "pattern_type ''*'' = PATTERN_MATCH_ALL"
  by (simp add: pattern_type_def checkPattern_def)

lemma empty_pattern [simp]: "pattern_type [] = PATTERN_STATIC"
  by (simp add: pattern_type_def checkPattern_def)

text \<open>The patterns of the library's documentation.\<close>

lemma sample_patterns:
  "checkPattern '':user'' = (PATTERN_HOLDER, ['':user''], [])"
  "checkPattern '':id([0-9]+)'' = (PATTERN_REGEXP, ['':id''], ''([0-9]+)'')"
  "checkPattern '':id:int'' = (PATTERN_REGEXP, ['':id''], ''([0-9]+)'')"
  "checkPattern ''*.*'' = (PATTERN_PATH_EXT, [], [])"
  "checkPattern ''cms_:id([0-9]+)_:page.html'' = (PATTERN_REGEXP, ['':id'', '':page''], ''cms_([0-9]+)_(.+).html'')"
  by code_simp+

end
