(* ===== verification/Router.thy ===== *)
theory Router
  imports RoutePattern
begin

text \<open>
  The router of the HTTP library (\<^verbatim>\<open>gopkg.in/macaron.v1\<close>, \<^verbatim>\<open>router.go\<close> and \<^verbatim>\<open>tree.go\<close>). A tree has leaves, patterns with what
  they lead to, and subtrees for the first segment of longer patterns; both are kept in the order of their types, which
  are a function of the pattern (theory \<open>RoutePattern\<close>). A leaf whose pattern begins with a question mark is also
  put one level up, under the segment of its tree.

  Undoing percent escapes, which fails on a bad escape, and matching a compiled regular expression are parameters. The
  model is of registrations that return: the library panics on an unknown method and on an expression that does not
  compile, and loops on a parenthesis that is not closed.
\<close>

section \<open>Trees\<close>

datatype 'h Tree = Tree (leaves: "(string \<times> 'h) list") (subtrees: "(string \<times> 'h Tree) list")

definition NewTree :: "'h Tree" where
  "NewTree = Tree [] []"

text \<open>A new leaf or subtree goes before the first one of a later type.\<close>

definition insert_by_type :: "string \<times> 'a \<Rightarrow> (string \<times> 'a) list \<Rightarrow> (string \<times> 'a) list" where
  "insert_by_type l ls =
     takeWhile (\<lambda>l'. \<not> pattern_type (fst l) < pattern_type (fst l')) ls @ l #
     dropWhile (\<lambda>l'. \<not> pattern_type (fst l) < pattern_type (fst l')) ls"

definition new_leaf :: "string \<Rightarrow> 'h \<Rightarrow> 'h Tree \<Rightarrow> 'h Tree" where
  "new_leaf pattern handle t = Tree (insert_by_type (pattern, handle) (leaves t)) (subtrees t)"

text \<open>
  \<^verbatim>\<open>addLeaf\<close>: a pattern that is there keeps its leaf. The root puts a second leaf for an optional one under the empty
  pattern itself; any other tree leaves it to its parent, which the third result says.
\<close>

definition addLeaf :: "bool \<Rightarrow> string \<Rightarrow> 'h \<Rightarrow> 'h Tree \<Rightarrow> 'h \<times> 'h Tree \<times> bool" where
  "addLeaf root pattern handle t =
     (case map_of (leaves t) pattern of
        Some h \<Rightarrow> (h, t, False)
      | None \<Rightarrow>
          if optional_leaf pattern \<and> root
          then (handle, new_leaf pattern handle (if map_of (leaves t) [] = None then new_leaf [] handle t else t), False)
          else (handle, new_leaf pattern handle t, optional_leaf pattern))"

definition trim_slash :: "string \<Rightarrow> string" where
  "trim_slash s = (if has_prefix ''/'' s then drop 1 s else s)"

definition trim_last_slash :: "string \<Rightarrow> string" where
  "trim_last_slash s = (if has_suffix ''/'' s then butlast s else s)"

text \<open>\<^verbatim>\<open>addSubtree\<close>: the subtree of a segment is changed where it is, or a new one gets its place.\<close>

definition set_subtree :: "string \<Rightarrow> 'h Tree \<Rightarrow> (string \<times> 'h Tree) list \<Rightarrow> (string \<times> 'h Tree) list" where
  "set_subtree segment t ts =
     (if segment \<in> fst ` set ts then map (\<lambda>(p, u). if p = segment then (p, t) else (p, u)) ts else insert_by_type (segment, t) ts)"

lemma splitn2_shorter: "splitn2 c s = [a, b] \<Longrightarrow> length b < length s"
  by (cases c s rule: splitn2_cases) auto

lemma trim_slash_length: "length (trim_slash s) \<le> length s"
  by (simp add: trim_slash_def)

function addNextSegment :: "bool \<Rightarrow> string \<Rightarrow> 'h \<Rightarrow> 'h Tree \<Rightarrow> 'h \<times> 'h Tree \<times> bool" where
  "addNextSegment root pattern handle t =
     (case splitn2 CHR ''/'' (trim_slash pattern) of
        [segment, rest] \<Rightarrow>
          let sub = (case map_of (subtrees t) segment of None \<Rightarrow> NewTree | Some u \<Rightarrow> u);
              (h, sub, optional) = addNextSegment False rest handle sub;
              t = Tree (leaves t) (set_subtree segment sub (subtrees t))
          in (h, if optional then snd (addLeaf root segment handle t) else (t, False))
      | _ \<Rightarrow> addLeaf root (trim_slash pattern) handle t)"
  by pat_completeness auto
termination
  by (relation "measure (\<lambda>(root, pattern, handle, t). length pattern)")
    (auto dest: splitn2_shorter intro: less_le_trans [OF _ trim_slash_length])

declare addNextSegment.simps [simp del]

definition Tree_Add :: "string \<Rightarrow> 'h \<Rightarrow> 'h Tree \<Rightarrow> 'h \<times> 'h Tree" where
  "Tree_Add pattern handle t =
     (case addNextSegment True (trim_last_slash pattern) handle t of (h, t, _) \<Rightarrow> (h, t))"

section \<open>Matching\<close>

text \<open>
  The parameters that a path gives, which matching fills in as it goes, also on ways that lead nowhere. A compiled
  expression gives the match and its groups, or the empty list.
\<close>

type_synonym unescape = "string \<Rightarrow> string option"

type_synonym params = "string \<rightharpoonup> string"

type_synonym submatch = "string \<Rightarrow> string \<Rightarrow> string list"

definition glob_name :: "nat \<Rightarrow> string" where
  "glob_name globLevel = CHR ''*'' # itoa (int globLevel)"

definition set_glob :: "nat \<Rightarrow> string \<Rightarrow> params \<Rightarrow> params" where
  "set_glob globLevel url ps = ps(''*'' \<mapsto> url, glob_name globLevel \<mapsto> url)"

definition set_path_ext :: "string \<Rightarrow> params \<Rightarrow> params" where
  "set_path_ext url ps =
     (if CHR ''.'' \<in> set url
      then ps('':path'' \<mapsto> rev (tl (dropWhile (\<lambda>c. c \<noteq> CHR ''.'') (rev url))), '':ext'' \<mapsto> rev (takeWhile (\<lambda>c. c \<noteq> CHR ''.'') (rev url)))
      else ps('':path'' \<mapsto> url))"

definition set_wildcards :: "submatch \<Rightarrow> string \<Rightarrow> string \<Rightarrow> params \<Rightarrow> params option" where
  "set_wildcards re pattern url ps =
     (let results = re (pattern_expr pattern) url; wildcards = pattern_wildcards pattern
      in if length results = length wildcards + 1 then Some (ps(wildcards [\<mapsto>] tl results)) else None)"

text \<open>One turn of the loop of \<^verbatim>\<open>matchLeaf\<close>: the parameters when the leaf takes the text.\<close>

definition leaf_takes :: "submatch \<Rightarrow> nat \<Rightarrow> string \<Rightarrow> string \<Rightarrow> params \<Rightarrow> params option" where
  "leaf_takes re globLevel pattern url ps =
     (case pattern_type pattern of
        PATTERN_STATIC \<Rightarrow> if pattern = url then Some ps else None
      | PATTERN_REGEXP \<Rightarrow> set_wildcards re pattern url ps
      | PATTERN_PATH_EXT \<Rightarrow> Some (set_path_ext url ps)
      | PATTERN_HOLDER \<Rightarrow> Some (ps(hd (pattern_wildcards pattern) \<mapsto> url))
      | PATTERN_MATCH_ALL \<Rightarrow> Some (set_glob globLevel url ps))"

fun first_leaf :: "submatch \<Rightarrow> nat \<Rightarrow> string \<Rightarrow> (string \<times> 'h) list \<Rightarrow> params \<Rightarrow> 'h option \<times> params" where
  "first_leaf re globLevel url [] ps = (None, ps)"
| "first_leaf re globLevel url ((p, h) # ls) ps =
     (case leaf_takes re globLevel p url ps of
        Some ps' \<Rightarrow> (Some h, ps')
      | None \<Rightarrow> first_leaf re globLevel url ls ps)"

definition matchLeaf :: "submatch \<Rightarrow> unescape \<Rightarrow> nat \<Rightarrow> 'h Tree \<Rightarrow> string \<Rightarrow> params \<Rightarrow> 'h option \<times> params" where
  "matchLeaf re un globLevel t url ps =
     (case un url of None \<Rightarrow> (None, ps) | Some url \<Rightarrow> first_leaf re globLevel url (leaves t) ps)"

text \<open>The loop of \<^verbatim>\<open>matchSubtree\<close>: the first subtree on whose way the path leads somewhere.\<close>

fun first_way :: "('a \<Rightarrow> 's \<Rightarrow> 'h option \<times> 's) \<Rightarrow> 'a list \<Rightarrow> 's \<Rightarrow> 'h option \<times> 's" where
  "first_way f [] s = (None, s)"
| "first_way f (x # xs) s = (case f x s of (Some h, s) \<Rightarrow> (Some h, s) | (None, s) \<Rightarrow> first_way f xs s)"

text \<open>One turn of that loop; \<open>go\<close> is matching the rest of the path in the subtree.\<close>

definition subtree_way ::
  "submatch \<Rightarrow> nat \<Rightarrow> string \<Rightarrow> (nat \<Rightarrow> 'h Tree \<Rightarrow> params \<Rightarrow> 'h option \<times> params) \<Rightarrow> string \<times> 'h Tree \<Rightarrow> params \<Rightarrow> 'h option \<times> params" where
  "subtree_way re globLevel segment go = (\<lambda>(pattern, u) ps.
     case pattern_type pattern of
       PATTERN_STATIC \<Rightarrow> if pattern = segment then go globLevel u ps else (None, ps)
     | PATTERN_REGEXP \<Rightarrow> (case set_wildcards re pattern segment ps of None \<Rightarrow> (None, ps) | Some ps \<Rightarrow> go globLevel u ps)
     | PATTERN_PATH_EXT \<Rightarrow> (None, ps)
     | PATTERN_HOLDER \<Rightarrow>
         (case go (globLevel + 1) u ps of
            (Some h, ps) \<Rightarrow> (Some h, ps(hd (pattern_wildcards pattern) \<mapsto> segment))
          | (None, ps) \<Rightarrow> (None, ps))
     | PATTERN_MATCH_ALL \<Rightarrow>
         (case go (globLevel + 1) u ps of
            (Some h, ps) \<Rightarrow> (Some h, ps(glob_name globLevel \<mapsto> segment))
          | (None, ps) \<Rightarrow> (None, ps)))"

text \<open>The end of \<^verbatim>\<open>matchSubtree\<close>: the last leaf may take the segment and the rest.\<close>

definition rest_leaf :: "unescape \<Rightarrow> nat \<Rightarrow> 'h Tree \<Rightarrow> string \<Rightarrow> string \<Rightarrow> params \<Rightarrow> 'h option \<times> params" where
  "rest_leaf un globLevel t segment rest ps =
     (if leaves t = [] then (None, ps)
      else
        case un (segment @ ''/'' @ rest) of
          None \<Rightarrow> (None, ps)
        | Some url \<Rightarrow>
            let (pattern, h) = last (leaves t)
            in if pattern_type pattern = PATTERN_PATH_EXT then (Some h, set_path_ext url ps)
               else if pattern_type pattern = PATTERN_MATCH_ALL then (Some h, set_glob globLevel url ps)
               else (None, ps))"

function matchNextSegment :: "submatch \<Rightarrow> unescape \<Rightarrow> nat \<Rightarrow> 'h Tree \<Rightarrow> string \<Rightarrow> params \<Rightarrow> 'h option \<times> params" where
  "matchNextSegment re un globLevel t url ps =
     (case splitn2 CHR ''/'' url of
        [segment, rest] \<Rightarrow>
          (case un segment of
             None \<Rightarrow> (None, ps)
           | Some seg \<Rightarrow>
               (case first_way (subtree_way re globLevel seg (\<lambda>g u. matchNextSegment re un g u rest)) (subtrees t) ps of
                  (Some h, ps) \<Rightarrow> (Some h, ps)
                | (None, ps) \<Rightarrow> rest_leaf un globLevel t segment rest ps))
      | _ \<Rightarrow> matchLeaf re un globLevel t url ps)"
  by pat_completeness auto
termination
  by (relation "measure (\<lambda>(re, un, globLevel, t, url, ps). length url)") (auto dest: splitn2_shorter)

declare matchNextSegment.simps [simp del]

definition Tree_Match :: "submatch \<Rightarrow> unescape \<Rightarrow> 'h Tree \<Rightarrow> string \<Rightarrow> ('h \<times> params) option" where
  "Tree_Match re un t url =
     (case matchNextSegment re un 0 t (trim_last_slash (trim_slash url)) Map.empty of
        (Some h, ps) \<Rightarrow> Some (h, ps)
      | (None, ps) \<Rightarrow> None)"

section \<open>The router\<close>

definition HTTP_METHODS :: "string list" where
  "HTTP_METHODS = [''GET'', ''POST'', ''PUT'', ''DELETE'', ''PATCH'', ''OPTIONS'', ''HEAD'']"

record 'h Router =
  ro_routers :: "string \<rightharpoonup> 'h Tree"
  ro_routes :: "string \<times> string \<rightharpoonup> 'h"

definition NewRouter :: "'h Router" where
  "NewRouter = \<lparr>ro_routers = Map.empty, ro_routes = Map.empty\<rparr>"

definition add_method :: "string \<Rightarrow> 'h \<Rightarrow> string \<Rightarrow> 'h Router \<Rightarrow> 'h Router" where
  "add_method pattern handle m r =
     (let (h, t) = Tree_Add pattern handle (case ro_routers r m of None \<Rightarrow> NewTree | Some t \<Rightarrow> t)
      in \<lparr>ro_routers = (ro_routers r)(m \<mapsto> t), ro_routes = (ro_routes r)((m, pattern) \<mapsto> h)\<rparr>)"

text \<open>\<^verbatim>\<open>handle\<close>: the method \<^verbatim>\<open>*\<close> stands for all; a pattern that is registered for the method stays as it is.\<close>

definition router_handle :: "string \<Rightarrow> string \<Rightarrow> 'h \<Rightarrow> 'h Router \<Rightarrow> 'h Router" where
  "router_handle method pattern handle r =
     (if ro_routes r (method, pattern) \<noteq> None then r
      else fold (add_method pattern handle) (if method = ''*'' then HTTP_METHODS else [method]) r)"

text \<open>
  \<^verbatim>\<open>ServeHTTP\<close>, with the path and the escaped path of the request; \<^term>\<open>None\<close> is not found. Of the parameters the result has
  the one under \<^verbatim>\<open>*\<close>, the only one that the handlers of the gateway read.
\<close>

definition Router_ServeHTTP ::
  "submatch \<Rightarrow> unescape \<Rightarrow> 'h Router \<Rightarrow> string \<Rightarrow> string \<Rightarrow> string \<Rightarrow> ('h \<times> string option) option" where
  "Router_ServeHTTP re un r method path escaped =
     (case ro_routers r method of
        None \<Rightarrow> None
      | Some t \<Rightarrow>
          (case ro_routes r (method, path) of
             Some h \<Rightarrow> Some (h, None)
           | None \<Rightarrow>
               (case Tree_Match re un t escaped of
                  None \<Rightarrow> None
                | Some (h, p) \<Rightarrow>
                    let p = (case p ''*0'' of Some splat \<Rightarrow> p(''*'' \<mapsto> splat) | None \<Rightarrow> p)
                    in Some (h, p ''*''))))"

section \<open>Where a path can lead\<close>

text \<open>What a tree leads to is what was added to it.\<close>

lemma set_Tree_Tree [simp]:
  "set_Tree (Tree ls ts) = snd ` set ls \<union> (\<Union>u \<in> snd ` set ts. set_Tree u)"
  by (force simp: snds.simps)

declare Tree.set [simp del]

lemma set_Tree_leaf: "(p, h) \<in> set (leaves t) \<Longrightarrow> h \<in> set_Tree t"
  by (cases t) force

lemma set_Tree_subtree: "(p, u) \<in> set (subtrees t) \<Longrightarrow> set_Tree u \<subseteq> set_Tree t"
  by (cases t) force

lemma insert_by_type_set: "set (insert_by_type l ls) = insert l (set ls)"
proof -
  have "set ls = set (takeWhile P ls) \<union> set (dropWhile P ls)" for P
    unfolding set_append [symmetric] by simp
  then show ?thesis by (auto simp: insert_by_type_def)
qed

lemma set_subtree_set: "snd ` set (set_subtree seg t ts) \<subseteq> insert t (snd ` set ts)"
  by (auto simp: set_subtree_def insert_by_type_set split: if_splits)

lemma set_new_leaf: "set_Tree (new_leaf p h t) = insert h (set_Tree t)"
  by (cases t) (simp add: new_leaf_def insert_by_type_set)

lemma addLeaf_handles:
  "addLeaf root pattern handle t = (h, t', opt) \<Longrightarrow>
   h \<in> insert handle (set_Tree t) \<and> set_Tree t' \<subseteq> insert handle (set_Tree t)"
  using set_Tree_leaf [OF map_of_SomeD, of t pattern]
  by (auto simp: addLeaf_def set_new_leaf split: option.splits if_splits)

lemma add_handles:
  "addNextSegment root pattern handle t = (h, t', opt) \<Longrightarrow>
   h \<in> insert handle (set_Tree t) \<and> set_Tree t' \<subseteq> insert handle (set_Tree t)"
proof (induction root pattern handle t arbitrary: h t' opt rule: addNextSegment.induct)
  case (1 root pattern handle t)
  show ?case
  proof (cases "CHR ''/''" "trim_slash pattern" rule: splitn2_cases)
    case 1
    then show ?thesis
      using "1.prems" addLeaf_handles [of root "trim_slash pattern" handle t] by (simp add: addNextSegment.simps [of root pattern])
  next
    case (2 seg rest)
    define sub where "sub = (case map_of (subtrees t) seg of None \<Rightarrow> NewTree | Some u \<Rightarrow> u)"
    obtain h1 t1 opt1 where add: "addNextSegment False rest handle sub = (h1, t1, opt1)" by (rule prod_cases3)
    define t2 where "t2 = Tree (leaves t) (set_subtree seg t1 (subtrees t))"
    have sub: "set_Tree sub \<subseteq> set_Tree t"
      using set_Tree_subtree [OF map_of_SomeD, of t seg] by (auto simp: sub_def NewTree_def split: option.splits)
    have "addNextSegment root pattern handle t = (h1, if opt1 then snd (addLeaf root seg handle t2) else (t2, False))"
      using 2(1) add by (simp add: addNextSegment.simps [of root pattern] Let_def t2_def flip: sub_def)
    with "1.prems" have res: "h = h1" "(t', opt) = (if opt1 then snd (addLeaf root seg handle t2) else (t2, False))" by simp_all
    have "h1 \<in> insert handle (set_Tree sub) \<and> set_Tree t1 \<subseteq> insert handle (set_Tree sub)"
      using "1.IH" [OF 2(1) refl refl] add by (simp add: sub_def)
    moreover have "set_Tree t2 \<subseteq> set_Tree t \<union> set_Tree t1"
      using set_subtree_set [of seg t1 "subtrees t"] unfolding t2_def by (cases t) fastforce
    moreover have "set_Tree t' \<subseteq> insert handle (set_Tree t2)"
      using res(2) addLeaf_handles [of root seg handle t2] by (cases "addLeaf root seg handle t2") (auto split: if_splits)
    ultimately show ?thesis using res(1) sub by blast
  qed
qed

lemma first_leaf_handle: "first_leaf re g url ls ps = (Some h, ps') \<Longrightarrow> h \<in> snd ` set ls"
  by (induction re g url ls ps rule: first_leaf.induct) (auto split: option.splits)

lemma first_way_SomeD: "first_way f xs s = (Some h, s') \<Longrightarrow> \<exists>x \<in> set xs. \<exists>s1 s2. f x s1 = (Some h, s2)"
  by (induction xs arbitrary: s) (fastforce split: prod.splits option.splits)+

lemma subtree_way_SomeD:
  "subtree_way re g seg go (p, u) ps = (Some h, ps') \<Longrightarrow> \<exists>g' ps1 ps2. go g' u ps1 = (Some h, ps2)"
  by (auto simp: subtree_way_def split: patternType.splits if_splits option.splits prod.splits)

lemma match_handles: "matchNextSegment re un g t url ps = (Some h, ps') \<Longrightarrow> h \<in> set_Tree t"
proof (induction re un g t url ps arbitrary: h ps' rule: matchNextSegment.induct)
  case (1 re un g t url ps)
  show ?case
  proof (cases "CHR ''/''" url rule: splitn2_cases)
    case 1
    then show ?thesis
      using "1.prems" set_Tree_leaf
      by (auto simp: matchNextSegment.simps [of re un g t url] matchLeaf_def split: option.splits dest!: first_leaf_handle)
  next
    case (2 seg rest)
    obtain seg' where seg': "un seg = Some seg'"
      using "1.prems" 2(1) by (auto simp: matchNextSegment.simps [of re un g t url] split: option.splits)
    consider (sub) ps1 where "first_way (subtree_way re g seg' (\<lambda>g u. matchNextSegment re un g u rest)) (subtrees t) ps = (Some h, ps1)"
      | (rest) ps1 where "rest_leaf un g t seg rest ps1 = (Some h, ps')"
      using "1.prems" 2(1) seg' by (auto simp: matchNextSegment.simps [of re un g t url] split: option.splits prod.splits)
    then show ?thesis
    proof cases
      case sub
      obtain p u g1 ps1 ps2 where u: "(p, u) \<in> set (subtrees t)" "matchNextSegment re un g1 u rest ps1 = (Some h, ps2)"
        using first_way_SomeD [OF sub] subtree_way_SomeD by fastforce
      then have "h \<in> set_Tree u" using "1.IH" [OF 2(1) refl refl seg'] by blast
      then show ?thesis using set_Tree_subtree [OF u(1)] by blast
    next
      case rest
      then have "leaves t \<noteq> []" "snd (last (leaves t)) = h"
        by (auto simp: rest_leaf_def Let_def split: option.splits if_splits prod.splits)
      then show ?thesis using last_in_set [of "leaves t"] set_Tree_leaf [of "fst (last (leaves t))" h t] by auto
    qed
  qed
qed

section \<open>Well-formed trees\<close>

text \<open>
  Each pattern and each segment occurs once, and leaves and subtrees are in the order of their types; so fixed text is
  found before expressions, these before named values, and the catch-all is tried last.
\<close>

abbreviation by_type :: "(string \<times> 'a) list \<Rightarrow> bool" where
  "by_type ls \<equiv> distinct (map fst ls) \<and> sorted (map (pattern_type \<circ> fst) ls)"

fun tree_ok :: "'h Tree \<Rightarrow> bool" where
  "tree_ok (Tree ls ts) \<longleftrightarrow> by_type ls \<and> by_type ts \<and> (\<forall>pu \<in> set ts. tree_ok (snd pu))"

lemma tree_ok_NewTree [simp]: "tree_ok NewTree"
  by (simp add: NewTree_def)

lemma tree_ok_subtree: "tree_ok t \<Longrightarrow> (p, u) \<in> set (subtrees t) \<Longrightarrow> tree_ok u"
  by (cases t) force

lemma insert_by_type_ok:
  assumes "by_type ls" and "fst l \<notin> fst ` set ls"
  shows "by_type (insert_by_type l ls)"
proof -
  have "sorted (map (pattern_type \<circ> fst) (insert_by_type l ls))"
    using assms(1)
  proof (induction ls)
    case (Cons x ls)
    show ?case
    proof (cases "pattern_type (fst l) < pattern_type (fst x)")
      case True
      then show ?thesis using Cons.prems by (auto simp: insert_by_type_def)
    next
      case False
      then have "insert_by_type l (x # ls) = x # insert_by_type l ls" by (simp add: insert_by_type_def)
      then show ?thesis using Cons False by (auto simp: insert_by_type_set)
    qed
  qed (simp add: insert_by_type_def)
  moreover have "distinct (map fst (takeWhile P ls) @ fst l # map fst (dropWhile P ls))" for P
  proof -
    have "distinct (map fst (takeWhile P ls) @ map fst (dropWhile P ls))" using assms(1) by (simp flip: map_append)
    moreover have "fst l \<notin> set (map fst (takeWhile P ls) @ map fst (dropWhile P ls))" using assms(2) by (simp flip: map_append)
    ultimately show ?thesis by auto
  qed
  ultimately show ?thesis by (simp add: insert_by_type_def)
qed

lemma new_leaf_ok: "tree_ok t \<Longrightarrow> map_of (leaves t) p = None \<Longrightarrow> tree_ok (new_leaf p h t)"
  using insert_by_type_ok [of "leaves t" "(p, h)"] by (cases t) (simp add: new_leaf_def map_of_eq_None_iff)

lemma new_leaf_other: "p \<noteq> q \<Longrightarrow> map_of (leaves t) p = None \<Longrightarrow> map_of (leaves (new_leaf q h t)) p = None"
  by (auto simp: new_leaf_def map_of_eq_None_iff insert_by_type_set)

lemma addLeaf_ok: "tree_ok t \<Longrightarrow> tree_ok (fst (snd (addLeaf root p h t)))"
  using new_leaf_other [of p "[]" t h] by (cases "p = []") (auto simp: addLeaf_def new_leaf_ok split: option.splits)

lemma set_subtree_ok:
  assumes "by_type ts"
  shows "by_type (set_subtree seg t ts)"
proof (cases "seg \<in> fst ` set ts")
  case True
  have "map f (map (\<lambda>(p, u). if p = seg then (p, t) else (p, u)) ts) = map f ts" if "\<And>p u u'. f (p, u) = f (p, u')" for f :: "_ \<Rightarrow> 'b"
    using that by (auto simp: comp_def split_beta)
  then show ?thesis
    using True assms by (simp add: set_subtree_def comp_def split_beta if_distrib cong: if_cong)
next
  case False
  then show ?thesis using insert_by_type_ok [OF assms, of "(seg, t)"] by (simp add: set_subtree_def)
qed

lemma add_ok: "tree_ok t \<Longrightarrow> tree_ok (fst (snd (addNextSegment root pattern handle t)))"
proof (induction root pattern handle t rule: addNextSegment.induct)
  case (1 root pattern handle t)
  show ?case
  proof (cases "CHR ''/''" "trim_slash pattern" rule: splitn2_cases)
    case 1
    then show ?thesis using "1.prems" addLeaf_ok by (simp add: addNextSegment.simps [of root pattern])
  next
    case (2 seg rest)
    define sub where "sub = (case map_of (subtrees t) seg of None \<Rightarrow> NewTree | Some u \<Rightarrow> u)"
    define t2 where "t2 = Tree (leaves t) (set_subtree seg (fst (snd (addNextSegment False rest handle sub))) (subtrees t))"
    have "tree_ok sub"
      using tree_ok_subtree [OF "1.prems" map_of_SomeD, of seg] by (auto simp: sub_def split: option.splits)
    then have "tree_ok (fst (snd (addNextSegment False rest handle sub)))"
      using "1.IH" [OF 2(1) refl refl] by (simp add: sub_def)
    then have "tree_ok t2"
      using "1.prems" set_subtree_ok [of "subtrees t" seg] set_subtree_set [of seg _ "subtrees t"] unfolding t2_def by (cases t) fastforce
    then show ?thesis
      using 2(1) addLeaf_ok [of t2 root seg handle] by (simp add: addNextSegment.simps [of root pattern] t2_def sub_def Let_def split_beta)
  qed
qed

text \<open>The tree and its subtrees at every depth.\<close>

inductive_set levels :: "'h Tree \<Rightarrow> 'h Tree set" for t where
  here: "t \<in> levels t"
| below: "u \<in> levels t \<Longrightarrow> (p, v) \<in> set (subtrees u) \<Longrightarrow> v \<in> levels t"

lemma levels_ok: "tree_ok t \<Longrightarrow> u \<in> levels t \<Longrightarrow> tree_ok u"
  by (rotate_tac, induction rule: levels.induct) (auto intro: tree_ok_subtree)

text \<open>So a leaf of fixed text takes its text whatever other leaves there are.\<close>

lemma first_leaf_fixed:
  "by_type ls \<Longrightarrow> (url, h) \<in> set ls \<Longrightarrow> pattern_type url = PATTERN_STATIC \<Longrightarrow> first_leaf re g url ls ps = (Some h, ps)"
proof (induction ls)
  case (Cons l ls)
  obtain p k where l: "l = (p, k)" by (cases l)
  show ?case
  proof (cases "p = url")
    case True
    then have "k = h" using Cons.prems(1,2) l by force
    then show ?thesis using True Cons.prems(3) l by (simp add: leaf_takes_def)
  next
    case False
    then have "pattern_type p \<le> PATTERN_STATIC" using Cons.prems l by fastforce
    then have "pattern_type p = PATTERN_STATIC" by (simp add: antisym)
    then show ?thesis using False Cons l by (simp add: leaf_takes_def)
  qed
qed simp

section \<open>Registering routes\<close>

type_synonym 'h registration = "string \<times> string \<times> 'h"

definition register_all :: "'h registration list \<Rightarrow> 'h Router" where
  "register_all regs = fold (\<lambda>(m, p, h). router_handle m p h) regs NewRouter"

text \<open>Everything in a router was registered, and its trees are well-formed.\<close>

definition router_ok :: "'h set \<Rightarrow> 'h Router \<Rightarrow> bool" where
  "router_ok H r \<longleftrightarrow> (\<forall>m t. ro_routers r m = Some t \<longrightarrow> tree_ok t \<and> set_Tree t \<subseteq> H) \<and>
     (\<forall>k h. ro_routes r k = Some h \<longrightarrow> h \<in> H)"

lemma router_ok_add_method:
  assumes "router_ok H r" and "h \<in> H"
  shows "router_ok H (add_method p h m r)"
proof -
  define t where "t = (case ro_routers r m of None \<Rightarrow> NewTree | Some t \<Rightarrow> t)"
  have t: "tree_ok t" "set_Tree t \<subseteq> H"
    using assms(1) by (auto simp: t_def router_ok_def NewTree_def split: option.splits)
  obtain h' t' where add: "Tree_Add p h t = (h', t')" by fastforce
  have t': "tree_ok t'" "set_Tree t' \<subseteq> H" "h' \<in> H"
    using add add_ok [OF t(1), of True "trim_last_slash p" h] t(2) assms(2)
    by (auto simp: Tree_Add_def split: prod.splits dest!: add_handles)
  show ?thesis
    using assms(1) t' add
    by (auto simp: router_ok_def add_method_def t_def [symmetric])
qed

lemma router_ok_handle: "router_ok H r \<Longrightarrow> h \<in> H \<Longrightarrow> router_ok H (router_handle m p h r)"
proof -
  assume "router_ok H r" "h \<in> H"
  then have "router_ok H (fold (add_method p h) ms r)" for ms
    by (induction ms arbitrary: r) (simp_all add: router_ok_add_method)
  with \<open>router_ok H r\<close> show ?thesis by (simp add: router_handle_def)
qed

lemma router_ok_register: "router_ok ((snd \<circ> snd) ` set regs) (register_all regs)"
proof -
  have "router_ok H r \<Longrightarrow> (snd \<circ> snd) ` set regs \<subseteq> H \<Longrightarrow> router_ok H (fold (\<lambda>(m, p, h). router_handle m p h) regs r)" for H r
    by (induction regs arbitrary: r) (auto simp: router_ok_handle)
  moreover have "router_ok H NewRouter" for H by (simp add: router_ok_def NewRouter_def)
  ultimately show ?thesis unfolding register_all_def by blast
qed

lemma serve_http_handle:
  assumes "router_ok H r" and "Router_ServeHTTP re un r method path escaped = Some (h, v)"
  shows "h \<in> H"
proof -
  obtain t where t: "ro_routers r method = Some t" using assms(2) by (auto simp: Router_ServeHTTP_def split: option.splits)
  show ?thesis
  proof (cases "ro_routes r (method, path)")
    case None
    then have "h \<in> set_Tree t"
      using assms(2) t by (auto simp: Router_ServeHTTP_def Tree_Match_def Let_def split: option.splits prod.splits dest!: match_handles)
    then show ?thesis using assms(1) t unfolding router_ok_def by blast
  next
    case (Some h')
    then have "h' = h" using assms(2) t by (simp add: Router_ServeHTTP_def)
    then show ?thesis using assms(1) Some unfolding router_ok_def by blast
  qed
qed

lemma routes_registered:
  "ro_routes (register_all regs) (m, p) \<noteq> None \<Longrightarrow> p \<in> (fst \<circ> snd) ` set regs"
proof -
  have handle: "ro_routes (router_handle m' p' h r) (m, p) \<noteq> None \<Longrightarrow> p = p' \<or> ro_routes r (m, p) \<noteq> None" for m' p' h and r :: "'a Router"
  proof -
    have "ro_routes (fold (add_method p' h) ms r) (m, p) \<noteq> None \<Longrightarrow> p = p' \<or> ro_routes r (m, p) \<noteq> None" for ms
      by (induction ms arbitrary: r) (fastforce simp: add_method_def Let_def split_beta split: if_splits)+
    then show "ro_routes (router_handle m' p' h r) (m, p) \<noteq> None \<Longrightarrow> p = p' \<or> ro_routes r (m, p) \<noteq> None"
      by (auto simp: router_handle_def split: if_splits)
  qed
  have "ro_routes (fold (\<lambda>(m, p, h). router_handle m p h) regs r) (m, p) \<noteq> None \<Longrightarrow>
      p \<in> (fst \<circ> snd) ` set regs \<or> ro_routes r (m, p) \<noteq> None" for r
  proof (induction regs arbitrary: r)
    case (Cons reg regs)
    obtain m' p' h where reg: "reg = (m', p', h)" by (cases reg)
    have "p \<in> (fst \<circ> snd) ` set regs \<or> ro_routes (router_handle m' p' h r) (m, p) \<noteq> None"
      using Cons.IH [of "router_handle m' p' h r"] Cons.prems reg by simp
    then show ?case using handle [of m' p' h r] by (auto simp: reg)
  qed simp
  then show "ro_routes (register_all regs) (m, p) \<noteq> None \<Longrightarrow> p \<in> (fst \<circ> snd) ` set regs"
    by (fastforce simp: register_all_def NewRouter_def)
qed

text \<open>
  In a well-formed tree whose subtrees are for fixed segments a path goes down into the subtree of its first segment, and
  to the last leaf when that has no place for it.
\<close>

lemma first_way_fixed:
  "distinct (map fst ts) \<Longrightarrow> \<forall>p \<in> fst ` set ts. pattern_type p = PATTERN_STATIC \<Longrightarrow>
   first_way (subtree_way re g seg go) ts ps = (case map_of ts seg of None \<Rightarrow> (None, ps) | Some u \<Rightarrow> go g u ps)"
proof (induction ts)
  case (Cons pu ts)
  obtain p u where pu: "pu = (p, u)" by (cases pu)
  have "seg \<notin> fst ` set ts" if "p = seg" using that Cons.prems(1) pu by auto
  then have "first_way (subtree_way re g seg go) ts ps' = (None, ps')" if "p = seg" for ps'
    using that Cons.prems(2)
    by (induction ts) (auto simp: subtree_way_def)
  then show ?case using Cons pu by (auto simp: subtree_way_def split: prod.splits option.splits)
qed simp

lemma match_down:
  assumes "distinct (map fst (subtrees t))" and "\<forall>p \<in> fst ` set (subtrees t). pattern_type p = PATTERN_STATIC"
    and "CHR ''/'' \<notin> set seg" and "un seg = Some seg"
  shows "matchNextSegment re un g t (seg @ CHR ''/'' # rest) ps =
    (case map_of (subtrees t) seg of
       None \<Rightarrow> rest_leaf un g t seg rest ps
     | Some u \<Rightarrow>
         (case matchNextSegment re un g u rest ps of
            (Some h, ps) \<Rightarrow> (Some h, ps)
          | (None, ps) \<Rightarrow> rest_leaf un g t seg rest ps))"
  using assms(3,4) first_way_fixed [OF assms(1,2)]
  by (simp add: matchNextSegment.simps [of _ _ _ _ "_ @ _ # _"] split: option.split)

section \<open>Properties\<close>

text \<open>
  C40. The shape of the route trees: whatever routes are registered, with fixed, optional, named, expression or
  catch-all segments and in whatever order, in the tree of every method each pattern and each segment
  occurs once at every level, leaves and subtrees are in the order of their types, so that a catch-all has only
  catch-alls behind it, and everything the trees lead to was registered. So at every level a last segment
  that is the fixed text of a leaf is taken by that leaf and gives no parameters, whatever wildcards stand beside it.
\<close>

theorem route_trees_well_formed:
  assumes "ro_routers (register_all regs) method = Some t"
  shows "tree_ok t \<and> set_Tree t \<subseteq> (snd \<circ> snd) ` set regs \<and>
    (\<forall>u \<in> levels t. \<forall>p h. (p, h) \<in> set (leaves u) \<and> pattern_type p = PATTERN_STATIC \<longrightarrow>
      (\<forall>re un g url ps. un url = Some p \<longrightarrow> matchLeaf re un g u url ps = (Some h, ps)))"
proof -
  have ok: "tree_ok t" "set_Tree t \<subseteq> (snd \<circ> snd) ` set regs"
    using router_ok_register [of regs] assms unfolding router_ok_def by blast+
  have "by_type (leaves u)" if "u \<in> levels t" for u
    using levels_ok [OF ok(1) that] by (cases u) simp
  then show ?thesis using ok first_leaf_fixed by (fastforce simp: matchLeaf_def)
qed

theorem route_trees_well_formed_witness:
  "\<exists>t. ro_routers (register_all [(''*'', ''/p/*'', 1), (''*'', ''/p/?*'', 3), (''POST'', ''/p/w'', 2::nat)]) ''POST'' = Some t \<and>
    tree_ok t \<and> set_Tree t \<subseteq> {1, 2, 3}"
proof -
  let ?regs = "[(''*'', ''/p/*'', 1), (''*'', ''/p/?*'', 3), (''POST'', ''/p/w'', 2::nat)]"
  obtain t where t: "ro_routers (register_all ?regs) ''POST'' = Some t"
    by (simp add: register_all_def router_handle_def add_method_def HTTP_METHODS_def NewRouter_def split_beta)
  show ?thesis using route_trees_well_formed [OF t] t by auto
qed

end
