(* ===== verification/Routes.thy ===== *)
theory Routes
  imports ApiChain Query Router
begin

text \<open>
  What \<^verbatim>\<open>cmd/tsdb-gw/main.go\<close> puts together: the routes of the gateway with their chains of handlers, the Graphite
  route with its limit on the time range, and the request statistics of \<^verbatim>\<open>api/middleware.go\<close>.
\<close>

section \<open>Statistics\<close>

text \<open>
  \<^verbatim>\<open>requestStats\<close>: the counters by path and status, and the values given to the histograms and meters by path, in
  order. A counter is created the first time it is needed.
\<close>

record requestStats =
  rs_counts :: "string \<rightharpoonup> (int \<rightharpoonup> uint32)"
  rs_latencies :: "string \<rightharpoonup> int list"
  rs_sizes :: "string \<rightharpoonup> int list"

definition PathStatusCount :: "string \<Rightarrow> int \<Rightarrow> requestStats \<Rightarrow> requestStats" where
  "PathStatusCount path status r =
     (let p = (case rs_counts r path of None \<Rightarrow> Map.empty | Some p \<Rightarrow> p);
          c = (case p status of None \<Rightarrow> 0 | Some c \<Rightarrow> c)
      in r\<lparr>rs_counts := (rs_counts r)(path \<mapsto> p(status \<mapsto> c + 1))\<rparr>)"

definition PathLatency :: "string \<Rightarrow> int \<Rightarrow> requestStats \<Rightarrow> requestStats" where
  "PathLatency path dur r =
     (let p = (case rs_latencies r path of None \<Rightarrow> [] | Some p \<Rightarrow> p)
      in r\<lparr>rs_latencies := (rs_latencies r)(path \<mapsto> p @ [dur])\<rparr>)"

definition PathSize :: "string \<Rightarrow> int \<Rightarrow> requestStats \<Rightarrow> requestStats" where
  "PathSize path sz r =
     (let p = (case rs_sizes r path of None \<Rightarrow> [] | Some p \<Rightarrow> p)
      in r\<lparr>rs_sizes := (rs_sizes r)(path \<mapsto> p @ [sz])\<rparr>)"

text \<open>What \<^verbatim>\<open>RequestStats\<close> does after the handlers have run.\<close>

definition RequestStats :: "string \<Rightarrow> int \<Rightarrow> int \<Rightarrow> int \<Rightarrow> requestStats \<Rightarrow> requestStats" where
  "RequestStats urlPath status took sz r =
     (let path = pathSlug urlPath;
          r = PathStatusCount path status r;
          r = PathLatency path took r
      in if status < 300 then PathSize path sz r else r)"

section \<open>The Graphite route\<close>

text \<open>\<^verbatim>\<open>CaptureBody\<close>: the status it answers with, if any, and the body it keeps.\<close>

definition CaptureBody :: "body_read \<Rightarrow> int option \<times> gobyte list" where
  "CaptureBody body = (if snd body then None else Some 500, fst body)"

text \<open>
  What the binding library makes of a request: a content type it does not know, or the values it found, whether
  decoding failed, and what it left of the body.
\<close>

datatype bind_result = BindUnsupported | BindParsed bool FromTo "gobyte list"

text \<open>The handlers of the route after the chain: with a limit, and without.\<close>

definition graphite_limited ::
  "date_parser \<Rightarrow> uint32 \<Rightarrow> int \<Rightarrow> (proxy_request \<Rightarrow> bind_result) \<Rightarrow> Url \<Rightarrow> int \<Rightarrow> string \<Rightarrow> string option
    \<Rightarrow> proxy_request \<Rightarrow> int + proxy_request" where
  "graphite_limited parse limit now bind u orgId proxyPath clientIP req =
     (case CaptureBody (case px_body req of None \<Rightarrow> ([], True) | Some b \<Rightarrow> b) of
        (Some status, _) \<Rightarrow> Inl status
      | (None, body) \<Rightarrow>
          (case bind (req\<lparr>px_body := Some (body, True)\<rparr>) of
             BindUnsupported \<Rightarrow> Inl 415
           | BindParsed failed ft left \<Rightarrow>
               if failed then Inl 400
               else if FromTo_Validate parse limit now (ur_Path (px_url req)) ft [] \<noteq> [] then Inl 422
               else Inr (GraphiteProxy u orgId proxyPath clientIP (Some body) (req\<lparr>px_body := Some (left, True)\<rparr>))))"

definition graphite_plain :: "Url \<Rightarrow> int \<Rightarrow> string \<Rightarrow> string option \<Rightarrow> proxy_request \<Rightarrow> proxy_request" where
  "graphite_plain u orgId proxyPath clientIP req = GraphiteProxy u orgId proxyPath clientIP None req"

section \<open>The routes\<close>

datatype endpoint =
    MetrictankEndpoint string
  | PrometheusQuery
  | GraphiteLimited
  | GraphiteUnlimited
  | MetricsEndpoint
  | DataDogSeriesEndpoint
  | OpenTSDBEndpoint
  | PrometheusWriteEndpoint
  | ImporterEndpoint

text \<open>A target: the index page, or the arguments of \<^verbatim>\<open>GenerateHandlers\<close> (kind, datadog, rate limit) and the endpoint.\<close>

datatype target = IndexPage | Guarded string bool bool endpoint

text \<open>
  \<^verbatim>\<open>initRoutes\<close> after the index page that \<^verbatim>\<open>api.New\<close> registers. \<open>timerange\<close> and \<open>importer\<close> tell whether the flags
  \<^verbatim>\<open>timerange-limit\<close> and \<^verbatim>\<open>importer-url\<close> are set.
\<close>

definition initRoutes :: "bool \<Rightarrow> bool \<Rightarrow> target registration list" where
  "initRoutes timerange importer =
     [(''GET'', ''/'', IndexPage),
      (''GET'', ''/metrics/index.json'', Guarded ''read'' False False (MetrictankEndpoint ''/metrics/index.json'')),
      (''GET'', ''/graphite/metrics/index.json'', Guarded ''read'' False False (MetrictankEndpoint ''/metrics/index.json'')),
      (''*'', ''/prometheus/*'', Guarded ''read'' False False PrometheusQuery),
      (''*'', ''/graphite/*'', Guarded ''read'' False False (if timerange then GraphiteLimited else GraphiteUnlimited)),
      (''POST'', ''/metrics'', Guarded ''write'' False True MetricsEndpoint),
      (''POST'', ''/datadog/api/v1/series'', Guarded ''write'' True False DataDogSeriesEndpoint),
      (''POST'', ''/opentsdb/api/put'', Guarded ''write'' False False OpenTSDBEndpoint),
      (''*'', ''/prometheus/write'', Guarded ''write'' False False PrometheusWriteEndpoint),
      (''POST'', ''/metrics/delete'', Guarded ''write'' False False (MetrictankEndpoint ''/metrics/delete'')),
      (''POST'', ''/tags/delSeries'', Guarded ''write'' False False (MetrictankEndpoint ''/tags/delSeries''))] @
     (if importer then [(''POST'', ''/metrics/import'', Guarded ''write'' False False ImporterEndpoint)] else [])"

definition gateway_router :: "bool \<Rightarrow> bool \<Rightarrow> target Router" where
  "gateway_router timerange importer = register_all (initRoutes timerange importer)"

text \<open>A request up to its endpoint, with the value of \<^verbatim>\<open>*\<close> and the user it is served for.\<close>

datatype outcome = NotFound | ShowsIndex | Refused api_reply | Reaches endpoint "string option" nat

definition api_handle ::
  "submatch \<Rightarrow> unescape \<Rightarrow> auth_state plugin \<Rightarrow> (Limiter \<Rightarrow> bool) \<Rightarrow> limiters \<Rightarrow> bool \<Rightarrow> target Router \<Rightarrow> string \<Rightarrow> string \<Rightarrow> string
    \<Rightarrow> http_request \<Rightarrow> auth_state \<Rightarrow> outcome \<times> auth_state" where
  "api_handle re un authp allow rl enforceRoles r method path escaped req s =
     (case Router_ServeHTTP re un r method path escaped of
        None \<Rightarrow> (NotFound, s)
      | Some (IndexPage, star) \<Rightarrow> (ShowsIndex, s\<lparr>au_heap := snd (alloc zero_user (au_heap s))\<rparr>)
      | Some (Guarded kind datadog rateLimited ep, star) \<Rightarrow>
          (case serve authp allow rl req (GenerateHandlers rl kind enforceRoles datadog rateLimited) s of
             (Inl reply, s) \<Rightarrow> (Refused reply, s)
           | (Inr p, s) \<Rightarrow> (Reaches ep star p, s)))"

text \<open>\<^verbatim>\<open>GetAuthPlugin\<close>: an unknown name ends the process.\<close>

datatype plugin_name = GrafanaComPlugin | GrafanaComInstancePlugin | FilePlugin

definition GetAuthPlugin :: "string \<Rightarrow> plugin_name option" where
  "GetAuthPlugin name =
     (if name = ''grafana'' then Some GrafanaComPlugin
      else if name = ''grafana-instance'' then Some GrafanaComInstancePlugin
      else if name = ''file'' then Some FilePlugin
      else None)"

section \<open>Counting requests\<close>

definition count_of :: "string \<Rightarrow> int \<Rightarrow> requestStats \<Rightarrow> uint32" where
  "count_of path status r =
     (case rs_counts r path of None \<Rightarrow> 0 | Some p \<Rightarrow> (case p status of None \<Rightarrow> 0 | Some c \<Rightarrow> c))"

lemma count_of_RequestStats:
  "count_of path st (RequestStats urlPath status took sz r) =
     count_of path st r + (if path = pathSlug urlPath \<and> st = status then 1 else 0)"
  by (auto simp: count_of_def RequestStats_def PathStatusCount_def PathLatency_def PathSize_def Let_def split: option.splits)

text \<open>After any requests the counter of a path and a status is the number of those requests, modulo 2^32.\<close>

lemma requests_counted:
  "count_of path st (fold (\<lambda>(urlPath, status, took, sz). RequestStats urlPath status took sz) reqs r) =
     count_of path st r + of_nat (length (filter (\<lambda>(urlPath, status, took, sz). pathSlug urlPath = path \<and> status = st) reqs))"
  by (induction reqs arbitrary: r) (auto simp: count_of_RequestStats split: if_splits)

section \<open>The body behind the limit\<close>

text \<open>A request that passes the limit goes on with the body the client sent, whatever binding left of it.\<close>

lemma graphite_limited_body:
  assumes "graphite_limited parse limit now bind u orgId proxyPath clientIP req = Inr out" and "px_body req = Some (data, True)"
    and "px_length req \<noteq> 0"
  shows "px_body out = Some (data, True)"
  using assms
  by (auto simp: graphite_limited_def CaptureBody_def GraphiteProxy_def graphite_Proxy_def reverse_proxy_def graphite_director_def
      set_org_def Let_def split: bind_result.splits if_splits)

section \<open>Routing of the gateway\<close>

lemma gateway_router_ok: "router_ok ((snd \<circ> snd) ` set (initRoutes timerange importer)) (gateway_router timerange importer)"
  unfolding gateway_router_def by (rule router_ok_register)

lemma initRoutes_rate_limited:
  "Guarded kind datadog rateLimited ep \<in> (snd \<circ> snd) ` set (initRoutes timerange importer) \<Longrightarrow>
   (rateLimited \<longleftrightarrow> ep = MetricsEndpoint) \<and> (datadog \<longleftrightarrow> ep = DataDogSeriesEndpoint) \<and> (datadog \<longrightarrow> kind = ''write'')"
  by (auto simp: initRoutes_def split: if_splits)

lemma serve_generated:
  assumes "serve authp allow rl req (GenerateHandlers rl kind enforceRoles datadog rateLimited) s = (Inr p, s')"
  shows "\<exists>name key s1. chain_creds kind datadog req = (name, key) \<and> key \<noteq> [] \<and>
    authp name key (s\<lparr>au_heap := snd (alloc zero_user (au_heap s))\<rparr>) = (Inr p, s1) \<and> s' = impersonate req p s1 \<and>
    (enforceRoles \<longrightarrow> IsPublisher (us_Role (hp_users (au_heap s') p))) \<and>
    (UseRateLimit rl \<and> rateLimited \<longrightarrow> IsRateBudgetAvailable allow rl (us_ID (hp_users (au_heap s') p)))"
proof -
  obtain name key where creds: "chain_creds kind datadog req = (name, key)" by fastforce
  obtain q h where heap: "alloc zero_user (au_heap s) = (q, h)" by fastforce
  obtain r s1 where plugin: "authp name key (s\<lparr>au_heap := h\<rparr>) = (r, s1)" by fastforce
  have run: "run_chain authp allow rl req (GenerateHandlers rl kind enforceRoles datadog rateLimited) q (s\<lparr>au_heap := h\<rparr>) = (Inr p, s')"
    using assms by (simp add: serve_def heap)
  show ?thesis
    using run unfolding run_chain_generated
    by (auto simp: creds heap plugin authenticate_def RequirePublisher_def IngestRateLimiter_def Let_def
        split: sum.splits option.splits if_splits)
qed

text \<open>Limits do not matter to a chain that is not rate limited.\<close>

lemma serve_unlimited:
  "serve authp allow rl req (GenerateHandlers rl kind enforceRoles datadog False) s =
   serve authp allow' rl' req (GenerateHandlers rl' kind enforceRoles datadog False) s"
  unfolding serve_def run_chain_generated simp_thms if_False ..

text \<open>The tree of the method GET, below the segment \<^verbatim>\<open>graphite\<close>.\<close>

definition graphite_tree :: "target Tree" where
  "graphite_tree = Tree [(''*'', Guarded ''read'' False False GraphiteLimited)]
     [(''metrics'', Tree [(''index.json'', Guarded ''read'' False False (MetrictankEndpoint ''/metrics/index.json''))] [])]"

lemma get_tree:
  "map_option (\<lambda>t. (map_of (subtrees t) ''graphite'', map (pattern_type \<circ> fst) (subtrees t), distinct (map fst (subtrees t))))
    (ro_routers (gateway_router True importer) ''GET'') = Some (Some graphite_tree, replicate 3 PATTERN_STATIC, True)"
  by (cases importer; simp only:; code_simp)

lemma post_metrics_route:
  "Router_ServeHTTP re Some (gateway_router False False) ''POST'' ''/metrics'' ''/metrics'' = Some (Guarded ''write'' False True MetricsEndpoint, None)"
proof -
  have "ro_routers (gateway_router False False) ''POST'' \<noteq> None \<and>
      ro_routes (gateway_router False False) (''POST'', ''/metrics'') = Some (Guarded ''write'' False True MetricsEndpoint)"
    by code_simp
  then show ?thesis by (auto simp: Router_ServeHTTP_def)
qed

lemma trim_slashes:
  "rest \<noteq> [] \<Longrightarrow> last rest \<noteq> CHR ''/'' \<Longrightarrow> trim_last_slash (trim_slash (CHR ''/'' # rest)) = rest"
  by (cases rest rule: rev_cases) (auto simp: trim_slash_def trim_last_slash_def has_suffix_def)

text \<open>A path below \<^verbatim>\<open>/graphite/\<close> that is not registered as it stands is matched against the tree of \<^verbatim>\<open>graphite\<close>.\<close>

lemma graphite_route:
  assumes "\<And>s. CHR ''%'' \<notin> set s \<Longrightarrow> un s = Some s" and "CHR ''%'' \<notin> set rest" and "rest \<noteq> []" and "last rest \<noteq> CHR ''/''"
    and "rest \<notin> {''*'', ''metrics/index.json''}"
    and "matchNextSegment re un 0 graphite_tree rest Map.empty = (Some h, set_glob 0 star Map.empty)"
  shows "Router_ServeHTTP re un (gateway_router True importer) ''GET'' (''/graphite/'' @ rest) (''/graphite/'' @ rest) = Some (h, Some star)"
proof -
  obtain t where t: "ro_routers (gateway_router True importer) ''GET'' = Some t" "map_of (subtrees t) ''graphite'' = Some graphite_tree"
    "map (pattern_type \<circ> fst) (subtrees t) = replicate 3 PATTERN_STATIC" "distinct (map fst (subtrees t))"
    using get_tree [of importer] by auto
  have fixed: "\<forall>p \<in> fst ` set (subtrees t). pattern_type p = PATTERN_STATIC"
    using arg_cong [OF t(3), of set] by auto
  have "''/graphite/'' @ rest \<notin> (fst \<circ> snd) ` set (initRoutes True importer)"
    using assms(5) by (auto simp: initRoutes_def)
  then have "ro_routes (gateway_router True importer) (''GET'', ''/graphite/'' @ rest) = None"
    unfolding gateway_router_def using routes_registered by blast
  moreover have "Tree_Match re un t (''/graphite/'' @ rest) = Some (h, set_glob 0 star Map.empty)"
    using match_down [OF t(4) fixed, of "''graphite''" un re 0 rest Map.empty] t(2) assms(1) [of "''graphite''"] assms(6) assms(3,4)
      trim_slashes [of "''graphite/'' @ rest"]
    by (simp add: Tree_Match_def)
  ultimately show ?thesis using t(1) by (simp add: Router_ServeHTTP_def set_glob_def glob_name_def split: option.split)
qed

lemma graphite_tree_fixed:
  "\<forall>p \<in> fst ` set (subtrees graphite_tree). pattern_type p = PATTERN_STATIC" "distinct (map fst (subtrees graphite_tree))"
  by (simp_all add: graphite_tree_def fixed_pattern)

lemma graphite_tree_double_slash:
  assumes "\<And>s. CHR ''%'' \<notin> set s \<Longrightarrow> un s = Some s" and "CHR ''%'' \<notin> set rest"
  shows "matchNextSegment re un 0 graphite_tree (CHR ''/'' # rest) ps =
    (Some (Guarded ''read'' False False GraphiteLimited), set_glob 0 (CHR ''/'' # rest) ps)"
  using match_down [OF graphite_tree_fixed(2,1), of "[]" un re 0 rest] assms
  by (simp add: graphite_tree_def rest_leaf_def)

lemma graphite_tree_render:
  assumes "\<And>s. CHR ''%'' \<notin> set s \<Longrightarrow> un s = Some s" and "CHR ''%'' \<notin> set rest" and "has_prefix ''render'' rest"
  shows "matchNextSegment re un 0 graphite_tree rest ps = (Some (Guarded ''read'' False False GraphiteLimited), set_glob 0 rest ps)"
proof (cases "CHR ''/''" rest rule: splitn2_cases)
  case 1
  then show ?thesis
    using assms(1,2) by (simp add: matchNextSegment.simps [of re un _ _ rest] matchLeaf_def graphite_tree_def leaf_takes_def)
next
  case (2 seg tail)
  have "seg \<noteq> ''metrics''" using 2(2) assms(3) by auto
  then show ?thesis
    using match_down [OF graphite_tree_fixed(2,1), of seg un re 0 tail] 2 assms(1,2)
    by (simp add: graphite_tree_def rest_leaf_def)
qed

section \<open>Properties\<close>

text \<open>
  C5. No endpoint without an accepted key: whatever the method and the path, a request reaches an endpoint of the
  gateway only when it carried a key that is not empty and that the plugin accepted, for the user the
  endpoint then serves, with a role that may publish when roles are enforced. The key comes from the
  datadog header on the datadog route alone. The endpoint for metrics is only reached with budget left under the rate
  limits, if there are any; it is the only one for which they matter: a request that reaches another endpoint does so
  under every other limits and budgets too.
\<close>

theorem endpoints_need_accepted_key:
  assumes "api_handle re un authp allow rl enforceRoles (gateway_router timerange importer) method path escaped req s =
    (Reaches ep star p, s')"
  shows "\<exists>name key s1.
    (if ep = DataDogSeriesEndpoint then dd_creds req else getAuthCreds req) = (name, key) \<and> key \<noteq> [] \<and>
    authp name key (s\<lparr>au_heap := snd (alloc zero_user (au_heap s))\<rparr>) = (Inr p, s1) \<and> s' = impersonate req p s1 \<and>
    (enforceRoles \<longrightarrow> IsPublisher (us_Role (hp_users (au_heap s') p))) \<and>
    (ep = MetricsEndpoint \<and> UseRateLimit rl \<longrightarrow> IsRateBudgetAvailable allow rl (us_ID (hp_users (au_heap s') p))) \<and>
    (ep \<noteq> MetricsEndpoint \<longrightarrow>
      (\<forall>allow' rl'. api_handle re un authp allow' rl' enforceRoles (gateway_router timerange importer) method path escaped req s =
        (Reaches ep star p, s')))"
proof -
  obtain kind datadog rateLimited where
    found: "Router_ServeHTTP re un (gateway_router timerange importer) method path escaped = Some (Guarded kind datadog rateLimited ep, star)"
    and chain: "serve authp allow rl req (GenerateHandlers rl kind enforceRoles datadog rateLimited) s = (Inr p, s')"
    using assms by (auto simp: api_handle_def split: option.splits target.splits prod.splits sum.splits)
  have route: "rateLimited \<longleftrightarrow> ep = MetricsEndpoint" "datadog \<longleftrightarrow> ep = DataDogSeriesEndpoint" "datadog \<longrightarrow> kind = ''write''"
    using initRoutes_rate_limited [OF serve_http_handle [OF gateway_router_ok found]] by blast+
  have "chain_creds kind datadog req = (if ep = DataDogSeriesEndpoint then dd_creds req else getAuthCreds req)"
    using route(2,3) by (simp add: chain_creds_def)
  moreover have "api_handle re un authp allow' rl' enforceRoles (gateway_router timerange importer) method path escaped req s =
      (Reaches ep star p, s')" if "ep \<noteq> MetricsEndpoint" for allow' rl'
    using that route(1) chain serve_unlimited [of authp allow rl req kind enforceRoles datadog s allow' rl'] by (simp add: api_handle_def found)
  ultimately show ?thesis using serve_generated [OF chain] route(1) by auto
qed

theorem endpoints_need_accepted_key_witness:
  "\<exists>s'. api_handle (\<lambda>expr s. []) Some (\<lambda>u k s. (FileAuth_Auth ''secret'' sample_file u k (au_heap s), s)) (\<lambda>l. True) Map.empty True
      (gateway_router False False) ''POST'' ''/metrics'' ''/metrics'' sample_req sample_auth = (Reaches MetricsEndpoint None 0, s') \<and>
    IsPublisher (us_Role (hp_users (au_heap s') 0))"
proof -
  let ?re = "\<lambda>expr s. []"
  let ?authp = "\<lambda>u k s. (FileAuth_Auth ''secret'' sample_file u k (au_heap s), s)"
  obtain s' where run: "api_handle ?re Some ?authp (\<lambda>l. True) Map.empty True (gateway_router False False) ''POST'' ''/metrics'' ''/metrics''
      sample_req sample_auth = (Reaches MetricsEndpoint None 0, s')"
    unfolding api_handle_def post_metrics_route
    by (simp add: serve_def run_chain_generated alloc_def authenticate_def chain_creds_def getAuthCreds_def sample_req_def
        FileAuth_Auth_def impersonate_def sample_auth_def init_heap_def RequirePublisher_def UseRateLimit_def Let_def
        AdminUser_def IsPublisher_def)
  show ?thesis using endpoints_need_accepted_key [OF run] run by auto
qed

text \<open>
  C35. A second slash evades the limit on the time range: for every render path, the request with one slash after
  \<^verbatim>\<open>/graphite\<close> and the request with two go to the limited Graphite route and on to the same address, but the check
  passes the second whatever its range, where it refuses the first for a range above the limit.
\<close>

theorem double_slash_evades_limit:
  assumes "\<And>s. CHR ''%'' \<notin> set s \<Longrightarrow> un s = Some s" and "CHR ''%'' \<notin> set rest" and "has_prefix ''render'' rest"
    and "last rest \<noteq> CHR ''/''"
    and "getFromTo parse ft now (uint32_of (now - 86400)) (uint32_of now) = Some (f, t)" and "t - f > limit"
  shows "Router_ServeHTTP re un (gateway_router True importer) ''GET'' (''/graphite/'' @ rest) (''/graphite/'' @ rest) =
      Some (Guarded ''read'' False False GraphiteLimited, Some rest) \<and>
    Router_ServeHTTP re un (gateway_router True importer) ''GET'' (''/graphite//'' @ rest) (''/graphite//'' @ rest) =
      Some (Guarded ''read'' False False GraphiteLimited, Some (CHR ''/'' # rest)) \<and>
    px_url (GraphiteProxy u orgId (CHR ''/'' # rest) clientIP b req) = px_url (GraphiteProxy u orgId rest clientIP b req) \<and>
    FromTo_Validate parse limit now (''/graphite/'' @ rest) ft [] = [ErrRangeTooLarge] \<and>
    FromTo_Validate parse limit now (''/graphite//'' @ rest) ft [] = []"
proof -
  have rest: "rest \<noteq> []" "rest \<notin> {''*'', ''metrics/index.json''}" "\<not> has_prefix ''/'' rest"
    using assms(3) by (auto split: list.splits)
  have one: "Router_ServeHTTP re un (gateway_router True importer) ''GET'' (''/graphite/'' @ rest) (''/graphite/'' @ rest) =
      Some (Guarded ''read'' False False GraphiteLimited, Some rest)"
    by (rule graphite_route [OF assms(1,2) rest(1) assms(4) rest(2) graphite_tree_render [OF assms(1-3)]])
  have two: "Router_ServeHTTP re un (gateway_router True importer) ''GET'' (''/graphite/'' @ CHR ''/'' # rest) (''/graphite/'' @ CHR ''/'' # rest) =
      Some (Guarded ''read'' False False GraphiteLimited, Some (CHR ''/'' # rest))"
    using graphite_route [OF assms(1) _ _ _ _ graphite_tree_double_slash [OF assms(1,2)], of re importer] assms(2,4) rest(1) by simp
  have url: "px_url (GraphiteProxy u orgId (CHR ''/'' # rest) clientIP b req) = px_url (GraphiteProxy u orgId rest clientIP b req)"
    using JoinUrlFragments_slash [OF rest(3)]
    by (simp add: GraphiteProxy_def graphite_Proxy_def reverse_proxy_def graphite_director_def set_org_def Let_def split: option.split)
  have checked: "FromTo_Validate parse limit now (''/graphite/'' @ rest) ft [] = [ErrRangeTooLarge]"
    "FromTo_Validate parse limit now (''/graphite//'' @ rest) ft [] = []"
    using assms(3,5,6) by (auto simp: FromTo_Validate_def Let_def split: list.splits)
  show ?thesis using one two url checked by simp
qed

theorem double_slash_evades_limit_witness:
  "Router_ServeHTTP (\<lambda>expr s. []) Some (gateway_router True False) ''GET'' ''/graphite//render'' ''/graphite//render'' =
      Some (Guarded ''read'' False False GraphiteLimited, Some ''/render'') \<and>
   FromTo_Validate (\<lambda>s n d. Some d) 3600 1000000 ''/graphite/render'' \<lparr>ft_From = [], ft_Until = [], ft_To = [], ft_Tz = []\<rparr> [] =
      [ErrRangeTooLarge] \<and>
   FromTo_Validate (\<lambda>s n d. Some d) 3600 1000000 ''/graphite//render'' \<lparr>ft_From = [], ft_Until = [], ft_To = [], ft_Tz = []\<rparr> [] = []"
  using double_slash_evades_limit [of Some "''render''" "\<lambda>s n d. Some d" "\<lparr>ft_From = [], ft_Until = [], ft_To = [], ft_Tz = []\<rparr>" 1000000
      "uint32_of (1000000 - 86400)" "uint32_of 1000000" 3600 "\<lambda>expr s. []" False]
  by (simp add: getFromTo_def uint32_of_def)

end
