(* ===== verification/Middleware.thy ===== *)
theory Middleware
  imports Routes
begin

text \<open>
  How a request passes through the middleware of the gateway: the vendored response writer and the loop over
  the handlers of \<^verbatim>\<open>macaron\<close> with its \<^verbatim>\<open>Recovery\<close>, and \<^verbatim>\<open>Tracer\<close>, \<^verbatim>\<open>RequestStats\<close>, \<^verbatim>\<open>PromStats\<close> and the
  tracing writer of \<^verbatim>\<open>api/middleware.go\<close>, in the order in which \<^verbatim>\<open>api.New\<close> and \<^verbatim>\<open>initRoutes\<close> add them.

  \<^item> A handler ends or panics; a panic unwinds the handlers that called \<^verbatim>\<open>Next\<close> up to \<^verbatim>\<open>Recovery\<close>, and what they
    do after \<^verbatim>\<open>Next\<close> is skipped.
  \<^item> \<open>ctx_run\<close> is the loop with its index, given fuel for the nesting of \<^verbatim>\<open>Next\<close>; \<open>nested\<close> is the same as plain nesting.
  \<^item> The renderer that \<^verbatim>\<open>ctx.JSON\<close> uses keeps the writer it was made with, before \<^verbatim>\<open>Tracer\<close> wraps it.
\<close>

section \<open>Writing a response\<close>

text \<open>
  \<open>rw_status\<close> is what \<^verbatim>\<open>Status()\<close> returns, 0 before anything is written. The server sends the first status it is
  given, \<open>rw_sent\<close>, and ignores later ones. \<open>rw_errBody\<close> is the field of the tracing writer.
\<close>

record response =
  rw_method :: string
  rw_status :: int
  rw_size :: int
  rw_sent :: "int option"
  rw_body :: "gobyte list"
  rw_errBody :: "gobyte list"

definition new_response :: "string \<Rightarrow> response" where
  "new_response method =
     \<lparr>rw_method = method, rw_status = 0, rw_size = 0, rw_sent = None, rw_body = [], rw_errBody = []\<rparr>"

definition WriteHeader :: "int \<Rightarrow> response \<Rightarrow> response" where
  "WriteHeader status rw =
     rw\<lparr>rw_sent := (case rw_sent rw of None \<Rightarrow> Some status | Some h \<Rightarrow> Some h), rw_status := status\<rparr>"

definition Written :: "response \<Rightarrow> bool" where
  "Written rw \<longleftrightarrow> rw_status rw \<noteq> 0"

definition Write :: "gobyte list \<Rightarrow> response \<Rightarrow> response" where
  "Write b rw =
     (let rw = (if \<not> Written rw then WriteHeader 200 rw else rw)
      in if rw_method rw \<noteq> ''HEAD'' then rw\<lparr>rw_body := rw_body rw @ b, rw_size := rw_size rw + int (length b)\<rparr> else rw)"

definition Tracing_Write :: "gobyte list \<Rightarrow> response \<Rightarrow> response" where
  "Tracing_Write b rw = Write b (if 400 \<le> rw_status rw then rw\<lparr>rw_errBody := b\<rparr> else rw)"

text \<open>\<^verbatim>\<open>JSON\<close> and \<^verbatim>\<open>PlainText\<close> of the renderer, given the encoded value: they write past the tracing writer.\<close>

definition Render_data :: "int \<Rightarrow> gobyte list \<Rightarrow> response \<Rightarrow> response" where
  "Render_data status v rw = Write v (WriteHeader status rw)"

text \<open>The reply of the index page.\<close>

definition index_page :: "response \<Rightarrow> response" where
  "index_page = Render_data 200 (map (word_of_nat \<circ> of_char) (CHR 0x22 # ''ok'' @ [CHR 0x22]))"

text \<open>
  The writers as they wrap each other; the innermost one is the server's, which may or may not be able to hand
  over its connection.
\<close>

datatype 'c writer = ServerWriter "'c option" | MacaronWriter "'c writer" | TracingWriter "'c writer"

fun Hijack :: "'c writer \<Rightarrow> string + 'c" where
  "Hijack (ServerWriter conn) =
     (case conn of None \<Rightarrow> Inl ''the ResponseWriter doesn't support the Hijacker interface'' | Some c \<Rightarrow> Inr c)"
| "Hijack (MacaronWriter w) = Hijack w"
| "Hijack (TracingWriter w) = Hijack w"

section \<open>The loop over the handlers\<close>

datatype 's flow = Finished 's | Panicked 's

text \<open>
  A handler that does not call \<^verbatim>\<open>Next\<close>; one that does something before and after; and \<^verbatim>\<open>Recovery\<close>, which does
  something when what comes after it panics.
\<close>

datatype 's mhandler = Plain "'s \<Rightarrow> 's flow" | Around "'s \<Rightarrow> 's" "'s \<Rightarrow> 's" | Recover "'s \<Rightarrow> 's"

text \<open>\<^verbatim>\<open>Context.handler\<close>: after the last handler comes the action, which is empty.\<close>

definition handler_at :: "'s mhandler list \<Rightarrow> nat \<Rightarrow> 's mhandler" where
  "handler_at hs i = (if i < length hs then hs ! i else Plain Finished)"

text \<open>\<^verbatim>\<open>Context.run\<close> from an index on, with the index it leaves.\<close>

fun ctx_run :: "nat \<Rightarrow> ('s \<Rightarrow> bool) \<Rightarrow> 's mhandler list \<Rightarrow> nat \<Rightarrow> 's \<Rightarrow> (nat \<times> 's flow) option" where
  "ctx_run 0 written hs i s = None"
| "ctx_run (Suc fuel) written hs i s =
     (if length hs < i then Some (i, Finished s)
      else
        let invoked =
          (case handler_at hs i of
             Plain f \<Rightarrow> Some (i, f s)
           | Around before after \<Rightarrow>
               (case ctx_run fuel written hs (Suc i) (before s) of
                  None \<Rightarrow> None
                | Some (j, Panicked s) \<Rightarrow> Some (j, Panicked s)
                | Some (j, Finished s) \<Rightarrow> Some (j, Finished (after s)))
           | Recover f \<Rightarrow>
               (case ctx_run fuel written hs (Suc i) s of
                  None \<Rightarrow> None
                | Some (j, Panicked s) \<Rightarrow> Some (j, Finished (f s))
                | Some (j, Finished s) \<Rightarrow> Some (j, Finished s)))
        in case invoked of
             None \<Rightarrow> None
           | Some (j, Panicked s) \<Rightarrow> Some (j, Panicked s)
           | Some (j, Finished s) \<Rightarrow>
               if written s then Some (Suc j, Finished s) else ctx_run fuel written hs (Suc j) s)"

declare ctx_run.simps(2) [simp del]

text \<open>The same without an index: each handler that calls \<^verbatim>\<open>Next\<close> wraps those after it.\<close>

fun nested :: "('s \<Rightarrow> bool) \<Rightarrow> 's mhandler list \<Rightarrow> 's \<Rightarrow> 's flow" where
  "nested written [] s = Finished s"
| "nested written (Plain f # hs) s =
     (case f s of Panicked s \<Rightarrow> Panicked s | Finished s \<Rightarrow> if written s then Finished s else nested written hs s)"
| "nested written (Around before after # hs) s =
     (case nested written hs (before s) of Panicked s \<Rightarrow> Panicked s | Finished s \<Rightarrow> Finished (after s))"
| "nested written (Recover f # hs) s =
     (case nested written hs s of Panicked s \<Rightarrow> Finished (f s) | Finished s \<Rightarrow> Finished s)"

text \<open>What the handlers after \<^verbatim>\<open>Next\<close> may not do: unwrite a response, or recover without writing one.\<close>

definition handler_ok :: "('s \<Rightarrow> bool) \<Rightarrow> 's mhandler \<Rightarrow> bool" where
  "handler_ok written h =
     (case h of
        Plain f \<Rightarrow> True
      | Around before after \<Rightarrow> \<forall>s. written s \<longrightarrow> written (after s)
      | Recover f \<Rightarrow> \<forall>s. written (f s))"

section \<open>The middleware of the gateway\<close>

datatype tag = TagStr string | TagInt int | TagBool bool

record span =
  sp_name :: string
  sp_tags :: "(string \<times> tag) list"
  sp_errors :: "gobyte list list"
  sp_finished :: bool

text \<open>
  A request on its way: the path of its URL, which handlers may replace, the response, and what has been
  recorded about it.
\<close>

record served =
  sv_path :: string
  sv_resp :: response
  sv_stats :: requestStats
  sv_prom :: "(string \<times> string \<times> string \<times> int) list"
  sv_span :: "span option"

record request_info =
  ri_method :: string
  ri_url :: string
  ri_took :: int

abbreviation on_resp :: "(response \<Rightarrow> response) \<Rightarrow> served \<Rightarrow> served" where
  "on_resp f s \<equiv> s\<lparr>sv_resp := f (sv_resp s)\<rparr>"

definition sv_written :: "served \<Rightarrow> bool" where
  "sv_written s = Written (sv_resp s)"

text \<open>
  \<^verbatim>\<open>Recovery\<close> answers through the writer that is mapped when the panic comes; in development mode, the default,
  \<open>page\<close> holds the page with the panic.
\<close>

definition Recovery :: "gobyte list option \<Rightarrow> served mhandler" where
  "Recovery page =
     Recover (on_resp (\<lambda>rw. let rw = WriteHeader 500 rw in case page of None \<Rightarrow> rw | Some b \<Rightarrow> Tracing_Write b rw))"

definition start_span :: "string \<Rightarrow> request_info \<Rightarrow> served \<Rightarrow> span" where
  "start_span componentName info s =
     \<lparr>sp_name = ''HTTP '' @ ri_method info @ '' '' @ pathSlug (sv_path s),
      sp_tags = [(''span.kind'', TagStr ''server''), (''http.method'', TagStr (ri_method info)),
                 (''http.url'', TagStr (ri_url info)), (''component'', TagStr (componentName @ ''/api''))],
      sp_errors = [], sp_finished = False\<rparr>"

text \<open>What \<^verbatim>\<open>Tracer\<close> does after \<^verbatim>\<open>Next\<close>; the status is cut to 16 bits.\<close>

definition finish_span :: "response \<Rightarrow> span \<Rightarrow> span" where
  "finish_span rw span =
     (let status = rw_status rw;
          span = span\<lparr>sp_tags := sp_tags span @ [(''http.status_code'', TagInt (status mod 2 ^ 16))]\<rparr>;
          span = (if 200 \<le> status \<and> status < 300 then span\<lparr>sp_tags := sp_tags span @ [(''http.size'', TagInt (rw_size rw))]\<rparr> else span);
          span = (if 400 \<le> status then
                    let span = span\<lparr>sp_errors := sp_errors span @ [rw_errBody rw]\<rparr>
                    in if 500 \<le> status then span\<lparr>sp_tags := sp_tags span @ [(''error'', TagBool True)]\<rparr> else span
                  else span)
      in span\<lparr>sp_finished := True\<rparr>)"

definition Tracer :: "string \<Rightarrow> request_info \<Rightarrow> served mhandler" where
  "Tracer componentName info =
     Around (\<lambda>s. s\<lparr>sv_span := Some (start_span componentName info s)\<rparr>)
            (\<lambda>s. s\<lparr>sv_span := map_option (finish_span (sv_resp s)) (sv_span s)\<rparr>)"

definition RequestStats_handler :: "request_info \<Rightarrow> served mhandler" where
  "RequestStats_handler info =
     Around id (\<lambda>s. s\<lparr>sv_stats := RequestStats (sv_path s) (rw_status (sv_resp s)) (ri_took info) (rw_size (sv_resp s)) (sv_stats s)\<rparr>)"

definition PromStats :: "string \<Rightarrow> request_info \<Rightarrow> served mhandler" where
  "PromStats handler info =
     Around id (\<lambda>s. s\<lparr>sv_prom := sv_prom s @ [(ri_method info, handler, itoa (rw_status (sv_resp s)), ri_took info)]\<rparr>)"

text \<open>
  The handlers every request passes: \<^verbatim>\<open>Recovery\<close>, \<^verbatim>\<open>Renderer\<close>, \<^verbatim>\<open>Tracer\<close> and \<^verbatim>\<open>GetContextHandler\<close> of \<^verbatim>\<open>api.New\<close>, and
  \<^verbatim>\<open>RequestStats\<close> of \<^verbatim>\<open>initRoutes\<close>. \<^verbatim>\<open>Renderer\<close> and \<^verbatim>\<open>GetContextHandler\<close> only map values.
\<close>

definition api_middleware :: "gobyte list option \<Rightarrow> string \<Rightarrow> request_info \<Rightarrow> served mhandler list" where
  "api_middleware page appName info =
     [Recovery page, Plain Finished, Tracer appName info, Plain Finished, RequestStats_handler info]"

definition received :: "string \<Rightarrow> request_info \<Rightarrow> requestStats \<Rightarrow> served" where
  "received path info st =
     \<lparr>sv_path = path, sv_resp = new_response (ri_method info), sv_stats = st, sv_prom = [], sv_span = None\<rparr>"

text \<open>A request for a route with the handlers \<open>route\<close>; the fuel is one more than the nesting can need.\<close>

definition gateway_serve ::
  "gobyte list option \<Rightarrow> string \<Rightarrow> request_info \<Rightarrow> served mhandler list \<Rightarrow> served \<Rightarrow> served flow option" where
  "gateway_serve page appName info route s =
     (let hs = api_middleware page appName info @ route
      in map_option snd (ctx_run (length hs + 2) sv_written hs 0 s))"

section \<open>The loop is nesting\<close>

lemma ctx_run_past: "length hs < i \<Longrightarrow> 0 < fuel \<Longrightarrow> ctx_run fuel written hs i s = Some (i, Finished s)"
  by (cases fuel) (simp_all add: ctx_run.simps)

definition left_ok :: "('s \<Rightarrow> bool) \<Rightarrow> 's mhandler list \<Rightarrow> nat \<Rightarrow> 's flow \<Rightarrow> bool" where
  "left_ok written hs j r = (case r of Finished s \<Rightarrow> length hs < j \<or> written s | Panicked s \<Rightarrow> True)"

text \<open>What follows a handler that has finished, when nothing is left to run or something has been written.\<close>

lemma after_invoke:
  assumes "length hs < j \<or> written s" and "0 < fuel"
  shows "\<exists>k. (if written s then Some (Suc j, Finished s) else ctx_run fuel written hs (Suc j) s) = Some (k, Finished s) \<and>
    left_ok written hs k (Finished s)"
  using assms ctx_run_past [of hs "Suc j" fuel written s] by (auto simp: left_ok_def)

lemma run_around:
  assumes "i < length hs" and "hs ! i = Around before after" and "handler_ok written (hs ! i)" and "0 < fuel"
    and "ctx_run fuel written hs (Suc i) (before s) = Some (j, r)" and "left_ok written hs j r"
  shows "\<exists>k. ctx_run (Suc fuel) written hs i s = Some (k, case r of Panicked s \<Rightarrow> Panicked s | Finished s \<Rightarrow> Finished (after s)) \<and>
    left_ok written hs k (case r of Panicked s \<Rightarrow> Panicked s | Finished s \<Rightarrow> Finished (after s))"
proof (cases r)
  case (Finished s')
  then have "length hs < j \<or> written (after s')" using assms(2,3,6) by (auto simp: left_ok_def handler_ok_def)
  from after_invoke [of hs j written "after s'", OF this assms(4)] show ?thesis
    using Finished assms by (simp add: ctx_run.simps(2) handler_at_def)
qed (use assms in \<open>simp add: ctx_run.simps(2) handler_at_def left_ok_def\<close>)

lemma run_recover:
  assumes "i < length hs" and "hs ! i = Recover f" and "handler_ok written (hs ! i)" and "0 < fuel"
    and "ctx_run fuel written hs (Suc i) s = Some (j, r)" and "left_ok written hs j r"
  shows "\<exists>k. ctx_run (Suc fuel) written hs i s = Some (k, case r of Panicked s \<Rightarrow> Finished (f s) | Finished s \<Rightarrow> Finished s) \<and>
    left_ok written hs k (case r of Panicked s \<Rightarrow> Finished (f s) | Finished s \<Rightarrow> Finished s)"
proof (cases r)
  case (Finished s')
  then have "length hs < j \<or> written s'" using assms(6) by (auto simp: left_ok_def)
  from after_invoke [of hs j written s', OF this assms(4)] show ?thesis
    using Finished assms by (simp add: ctx_run.simps(2) handler_at_def)
next
  case (Panicked s')
  then have "length hs < j \<or> written (f s')" using assms(2,3) by (auto simp: handler_ok_def)
  from after_invoke [of hs j written "f s'", OF this assms(4)] show ?thesis
    using Panicked assms by (simp add: ctx_run.simps(2) handler_at_def)
qed

lemma ctx_run_nested:
  assumes "\<forall>h \<in> set hs. handler_ok written h" and "i \<le> length hs" and "length hs - i + 2 \<le> fuel"
  shows "\<exists>j. ctx_run fuel written hs i s = Some (j, nested written (drop i hs) s) \<and>
    left_ok written hs j (nested written (drop i hs) s)"
  using assms(2,3)
proof (induction fuel arbitrary: i s)
  case (Suc fuel)
  have fuel: "0 < fuel" using Suc.prems by simp
  show ?case
  proof (cases "i = length hs")
    case True
    then show ?thesis
      using ctx_run_past [of hs "Suc i" fuel written s] fuel
      by (auto simp: ctx_run.simps(2) handler_at_def left_ok_def)
  next
    case False
    then have i: "i < length hs" using Suc.prems by simp
    then have split: "drop i hs = hs ! i # drop (Suc i) hs" and ok: "handler_ok written (hs ! i)"
      using assms(1) by (simp_all add: Cons_nth_drop_Suc)
    have IH: "\<exists>j. ctx_run fuel written hs (Suc i) s = Some (j, nested written (drop (Suc i) hs) s) \<and>
        left_ok written hs j (nested written (drop (Suc i) hs) s)" for s
      using Suc.IH [of "Suc i" s] Suc.prems i by simp
    show ?thesis
    proof (cases "hs ! i")
      case (Plain f)
      then show ?thesis
        using IH i by (auto simp: ctx_run.simps(2) handler_at_def split left_ok_def split: flow.splits)
    next
      case (Around before after)
      then show ?thesis
        using IH [of "before s"] run_around [OF i Around ok fuel, of s] by (auto simp: split)
    next
      case (Recover f)
      then show ?thesis
        using IH [of s] run_recover [OF i Recover ok fuel, of s] by (auto simp: split)
    qed
  qed
qed simp

section \<open>Serving a request\<close>

lemma Written_Write: "Written (Write b rw)"
  by (simp add: Write_def Written_def WriteHeader_def Let_def)

lemma Written_Tracing_Write: "Written (Tracing_Write b rw)"
  by (simp add: Tracing_Write_def Written_Write)

lemma middleware_ok: "\<forall>h \<in> set (api_middleware page appName info). handler_ok sv_written h"
  by (auto simp: api_middleware_def Recovery_def Tracer_def RequestStats_handler_def handler_ok_def sv_written_def Let_def
      Written_Tracing_Write split: option.split) (simp add: Written_def WriteHeader_def)

lemma gateway_serve_nested:
  assumes "\<forall>h \<in> set route. handler_ok sv_written h"
  shows "gateway_serve page appName info route s =
    Some (nested sv_written (api_middleware page appName info @ route) s)"
  using ctx_run_nested [of "api_middleware page appName info @ route" sv_written 0
      "length (api_middleware page appName info @ route) + 2" s] assms middleware_ok [of page appName info]
  by (auto simp: gateway_serve_def Let_def)

lemma received_unwritten: "\<not> sv_written (received path info st)"
  by (simp add: received_def sv_written_def Written_def new_response_def)

text \<open>The state in which the handlers of the route start.\<close>

definition traced :: "string \<Rightarrow> request_info \<Rightarrow> served \<Rightarrow> served" where
  "traced appName info s = s\<lparr>sv_span := Some (start_span appName info s)\<rparr>"

lemma sv_written_traced [simp]: "sv_written (traced appName info s) = sv_written s"
  by (simp add: traced_def sv_written_def)

lemma nested_middleware:
  assumes "\<not> sv_written s"
  shows "nested sv_written (api_middleware page appName info @ route) s =
    (case nested sv_written route (traced appName info s) of
       Finished s1 \<Rightarrow> Finished (s1\<lparr>sv_stats := RequestStats (sv_path s1) (rw_status (sv_resp s1)) (ri_took info) (rw_size (sv_resp s1)) (sv_stats s1),
           sv_span := map_option (finish_span (sv_resp s1)) (sv_span s1)\<rparr>)
     | Panicked s1 \<Rightarrow> Finished (on_resp (\<lambda>rw. let rw = WriteHeader 500 rw in case page of None \<Rightarrow> rw | Some b \<Rightarrow> Tracing_Write b rw) s1))"
  using assms sv_written_traced [of appName info s]
  by (simp add: api_middleware_def Recovery_def Tracer_def RequestStats_handler_def traced_def split: flow.split)

lemma Tracing_Write_unread:
  "rw_status (Tracing_Write b rw) = (if rw_status rw = 0 then 200 else rw_status rw)"
  "rw_sent (Tracing_Write b rw) = (if rw_status rw = 0 then rw_sent (WriteHeader 200 rw) else rw_sent rw)"
  by (auto simp: Tracing_Write_def Write_def Written_def WriteHeader_def Let_def)

lemma finish_span_finished: "sp_finished (finish_span rw sp)"
  by (simp add: finish_span_def Let_def)

lemma Hijack_wrapped: "Hijack (TracingWriter (MacaronWriter (ServerWriter (Some c)))) = Inr c"
  by simp

section \<open>Properties\<close>

text \<open>
  C38. The loop over the handlers, with its index that the handlers advance by \<^verbatim>\<open>Next\<close>, does what nesting them
  does, as long as no handler takes back what was written and recovery writes something: enough fuel is two
  more than there are handlers.
\<close>

theorem handler_loop_is_nesting:
  assumes "\<forall>h \<in> set hs. handler_ok written h" and "length hs + 2 \<le> fuel"
  shows "\<exists>j. ctx_run fuel written hs 0 s = Some (j, nested written hs s)"
  using ctx_run_nested [OF assms(1), of 0 fuel s] assms(2) by auto

theorem handler_loop_is_nesting_witness:
  "\<exists>j. ctx_run 4 (\<lambda>n. n > (5::nat)) [Around Suc Suc, Plain (\<lambda>n. Finished (n + 5))] 0 0 =
    Some (j, nested (\<lambda>n. n > 5) [Around Suc Suc, Plain (\<lambda>n. Finished (n + 5))] 0) \<and>
    nested (\<lambda>n. n > (5::nat)) [Around Suc Suc, Plain (\<lambda>n. Finished (n + 5))] 0 = Finished 7"
  using handler_loop_is_nesting [of "[Around Suc Suc, Plain (\<lambda>n. Finished (n + 5))]" "\<lambda>n. n > (5::nat)" 4 0]
  by (simp add: handler_ok_def)

text \<open>
  C39. What is recorded of a request: when the handlers of its route finish, the response goes out as they left
  it, the counter of the path and the status grows by one, and the span is finished. When they panic,
  the client gets the status 500 unless one was sent before, but the request is counted nowhere and its
  span is never finished.
\<close>

theorem panics_are_not_recorded:
  assumes "\<forall>h \<in> set route. handler_ok sv_written h"
  shows "\<exists>s'. gateway_serve page appName info route (received path info st) = Some (Finished s') \<and>
    (case nested sv_written route (traced appName info (received path info st)) of
       Finished s1 \<Rightarrow> sv_resp s' = sv_resp s1 \<and>
         (\<forall>p code. count_of p code (sv_stats s') = count_of p code (sv_stats s1) +
           (if p = pathSlug (sv_path s1) \<and> code = rw_status (sv_resp s1) then 1 else 0)) \<and>
         (\<forall>sp. sv_span s1 = Some sp \<longrightarrow> sv_span s' = Some (finish_span (sv_resp s1) sp) \<and> sp_finished (the (sv_span s')))
     | Panicked s1 \<Rightarrow> rw_status (sv_resp s') = 500 \<and>
         rw_sent (sv_resp s') = (case rw_sent (sv_resp s1) of None \<Rightarrow> Some 500 | Some h \<Rightarrow> Some h) \<and>
         sv_stats s' = sv_stats s1 \<and> sv_span s' = sv_span s1)"
proof -
  have serve: "gateway_serve page appName info route (received path info st) =
      Some (nested sv_written (api_middleware page appName info @ route) (received path info st))"
    by (rule gateway_serve_nested [OF assms])
  show ?thesis
    unfolding serve nested_middleware [OF received_unwritten]
    by (cases "nested sv_written route (traced appName info (received path info st))")
      (auto simp: count_of_RequestStats finish_span_finished Let_def Tracing_Write_unread WriteHeader_def split: option.split)
qed

theorem panics_are_not_recorded_witness:
  "\<exists>s'. gateway_serve None ''tsdb-gw'' \<lparr>ri_method = ''POST'', ri_url = ''/metrics'', ri_took = 5\<rparr> [Plain Panicked]
      (received ''/metrics'' \<lparr>ri_method = ''POST'', ri_url = ''/metrics'', ri_took = 5\<rparr>
        \<lparr>rs_counts = Map.empty, rs_latencies = Map.empty, rs_sizes = Map.empty\<rparr>) = Some (Finished s') \<and>
    rw_sent (sv_resp s') = Some 500 \<and> sv_stats s' = \<lparr>rs_counts = Map.empty, rs_latencies = Map.empty, rs_sizes = Map.empty\<rparr>"
  using panics_are_not_recorded [of "[Plain Panicked]" None "''tsdb-gw''" "\<lparr>ri_method = ''POST'', ri_url = ''/metrics'', ri_took = 5\<rparr>" "''/metrics''"
      "\<lparr>rs_counts = Map.empty, rs_latencies = Map.empty, rs_sizes = Map.empty\<rparr>"]
  by (auto simp: handler_ok_def traced_def received_def new_response_def)

text \<open>
  The trace of a refused request has no error text: an error that a handler writes with \<^verbatim>\<open>ctx.JSON\<close> reaches the
  client, but the span logs an empty error, because the renderer writes past the tracing writer; only what
  is written through \<^verbatim>\<open>ctx.Resp\<close>, as the proxies do, is logged.
\<close>

theorem rendered_errors_not_traced:
  assumes "400 \<le> status" and "ri_method info \<noteq> ''HEAD''"
  shows "\<exists>s1 s2 sp1 sp2.
    gateway_serve page appName info [Plain (\<lambda>s. Finished (on_resp (Render_data status v) s))] (received path info st) = Some (Finished s1) \<and>
    gateway_serve page appName info [Plain (\<lambda>s. Finished (on_resp (\<lambda>rw. Tracing_Write v (WriteHeader status rw)) s))] (received path info st) =
      Some (Finished s2) \<and>
    rw_sent (sv_resp s1) = Some status \<and> rw_body (sv_resp s1) = v \<and> sv_span s1 = Some sp1 \<and> sp_errors sp1 = [[]] \<and>
    rw_sent (sv_resp s2) = Some status \<and> rw_body (sv_resp s2) = v \<and> sv_span s2 = Some sp2 \<and> sp_errors sp2 = [v]"
proof -
  have ok: "\<forall>h \<in> set [Plain f]. handler_ok sv_written h" for f by (simp add: handler_ok_def)
  show ?thesis
    unfolding gateway_serve_nested [OF ok] nested_middleware [OF received_unwritten]
    using assms
    by (simp add: Render_data_def Tracing_Write_def Write_def WriteHeader_def Written_def sv_written_def traced_def received_def
        new_response_def start_span_def finish_span_def Let_def)
qed

theorem rendered_errors_not_traced_witness:
  "\<exists>s1 sp1. gateway_serve None ''tsdb-gw'' \<lparr>ri_method = ''POST'', ri_url = ''/metrics'', ri_took = 5\<rparr>
      [Plain (\<lambda>s. Finished (on_resp (Render_data 401 [1, 2]) s))]
      (received ''/metrics'' \<lparr>ri_method = ''POST'', ri_url = ''/metrics'', ri_took = 5\<rparr>
        \<lparr>rs_counts = Map.empty, rs_latencies = Map.empty, rs_sizes = Map.empty\<rparr>) = Some (Finished s1) \<and>
    rw_body (sv_resp s1) = [1, 2] \<and> sv_span s1 = Some sp1 \<and> sp_errors sp1 = [[]]"
  using rendered_errors_not_traced [of 401 "\<lparr>ri_method = ''POST'', ri_url = ''/metrics'', ri_took = 5\<rparr>" None "''tsdb-gw''" "[1, 2]" "''/metrics''"
      "\<lparr>rs_counts = Map.empty, rs_latencies = Map.empty, rs_sizes = Map.empty\<rparr>"]
  by auto

end
