(* ===== verification/Logging.thy ===== *)
theory Logging
  imports GoNumeric
begin

text \<open>
  \<^verbatim>\<open>util/log.go\<close> and what it uses of the vendored \<^verbatim>\<open>logrus\<close>: the level of the logger, the hook that adds the place of an
  error, and which entries are written. Levels are ordered as the library numbers them, the most severe first.
\<close>

section \<open>Levels\<close>

datatype log_level = PanicLevel | FatalLevel | ErrorLevel | WarnLevel | InfoLevel | DebugLevel | TraceLevel

fun level_number :: "log_level \<Rightarrow> nat" where
  "level_number PanicLevel = 0"
| "level_number FatalLevel = 1"
| "level_number ErrorLevel = 2"
| "level_number WarnLevel = 3"
| "level_number InfoLevel = 4"
| "level_number DebugLevel = 5"
| "level_number TraceLevel = 6"

lemma level_number_inject: "level_number l = level_number l' \<longleftrightarrow> l = l'"
  by (cases l; cases l') simp_all

instantiation log_level :: linorder
begin

definition less_eq_log_level :: "log_level \<Rightarrow> log_level \<Rightarrow> bool" where
  "l \<le> l' \<longleftrightarrow> level_number l \<le> level_number l'"

definition less_log_level :: "log_level \<Rightarrow> log_level \<Rightarrow> bool" where
  "l < l' \<longleftrightarrow> level_number l < level_number l'"

instance
  by standard (auto simp: less_eq_log_level_def less_log_level_def level_number_inject [symmetric])

end

text \<open>\<^verbatim>\<open>InitLogger\<close>: a number that is none of the six leaves the level as it is.\<close>

definition InitLogger :: "int \<Rightarrow> log_level \<Rightarrow> log_level" where
  "InitLogger level cur =
     (if level = 1 then DebugLevel
      else if level = 2 then InfoLevel
      else if level = 3 then WarnLevel
      else if level = 4 then ErrorLevel
      else if level = 5 then FatalLevel
      else if level = 6 then PanicLevel
      else cur)"

definition IsLevelEnabled :: "log_level \<Rightarrow> log_level \<Rightarrow> bool" where
  "IsLevelEnabled logger level \<longleftrightarrow> level \<le> logger"

section \<open>The hook\<close>

definition after_last_slash :: "string \<Rightarrow> string" where
  "after_last_slash s = rev (takeWhile (\<lambda>c. c \<noteq> CHR ''/'') (rev s))"

text \<open>\<open>caller\<close> is the file and the line of the caller, if the runtime knows it.\<close>

definition hook_Fire :: "(string \<times> int) option \<Rightarrow> (string \<rightharpoonup> string) \<Rightarrow> (string \<rightharpoonup> string)" where
  "hook_Fire caller data =
     (let (file, line) = (case caller of None \<Rightarrow> (''<???>'', 1) | Some (file, line) \<Rightarrow> (after_last_slash file, line))
      in data(''source'' \<mapsto> file @ '':'' @ itoa line))"

definition hook_Levels :: "log_level list" where
  "hook_Levels = [ErrorLevel, FatalLevel, PanicLevel]"

text \<open>\<^verbatim>\<open>LevelHooks\<close>: the hooks of a level, in the order in which they were added. None of them fails here.\<close>

type_synonym log_hook = "(string \<rightharpoonup> string) \<Rightarrow> (string \<rightharpoonup> string)"

definition hooks_Add :: "log_hook \<Rightarrow> log_level list \<Rightarrow> (log_level \<Rightarrow> log_hook list) \<Rightarrow> (log_level \<Rightarrow> log_hook list)" where
  "hooks_Add hook levels hooks = fold (\<lambda>l hs. hs(l := hs l @ [hook])) levels hooks"

definition hooks_Fire :: "(log_level \<Rightarrow> log_hook list) \<Rightarrow> log_level \<Rightarrow> log_hook" where
  "hooks_Fire hooks level data = fold (\<lambda>hook data. hook data) (hooks level) data"

text \<open>An entry: the fields it is written with, if its level is enabled. The exit or panic that follows a fatal entry is its caller's.\<close>

definition entry_log :: "log_level \<Rightarrow> (log_level \<Rightarrow> log_hook list) \<Rightarrow> log_level \<Rightarrow> (string \<rightharpoonup> string) \<Rightarrow> (string \<rightharpoonup> string) option" where
  "entry_log logger hooks level data = (if IsLevelEnabled logger level then Some (hooks_Fire hooks level data) else None)"

lemma hook_levels_severe: "set hook_Levels = {l. l \<le> ErrorLevel}"
proof (intro set_eqI)
  show "l \<in> set hook_Levels \<longleftrightarrow> l \<in> {l. l \<le> ErrorLevel}" for l
    by (cases l) (simp_all add: hook_Levels_def less_eq_log_level_def)
qed

lemma hooks_Add_distinct:
  "distinct levels \<Longrightarrow> hooks_Add hook levels hooks l = hooks l @ (if l \<in> set levels then [hook] else [])"
  unfolding hooks_Add_def by (induction levels arbitrary: hooks) auto

text \<open>
  What is written once the logger is set up: the entries up to the level that was chosen, with the place of the
  caller exactly when they are errors or worse.
\<close>

lemma logged_entries:
  "entry_log logger (hooks_Add (hook_Fire caller) hook_Levels (\<lambda>_. [])) level data =
     (if level \<le> logger then Some (if level \<le> ErrorLevel then hook_Fire caller data else data) else None)"
proof -
  have "distinct hook_Levels" by (simp add: hook_Levels_def)
  then show ?thesis using hook_levels_severe by (auto simp: entry_log_def IsLevelEnabled_def hooks_Fire_def hooks_Add_distinct)
qed

text \<open>An error that is logged names the file without its directories and the line.\<close>

lemma error_names_its_place:
  assumes "CHR ''/'' \<notin> set file" and "ErrorLevel \<le> logger"
  shows "\<exists>data'. entry_log logger (hooks_Add (hook_Fire (Some (dir @ CHR ''/'' # file, line))) hook_Levels (\<lambda>_. [])) ErrorLevel data =
    Some data' \<and> data' ''source'' = Some (file @ '':'' @ itoa line)"
proof -
  have "after_last_slash (dir @ CHR ''/'' # file) = file"
    using assms(1) unfolding after_last_slash_def by (simp, subst takeWhile_append2) auto
  then show ?thesis using assms(2) by (simp add: logged_entries hook_Fire_def)
qed

end
