(* ===== verification/Process.thy ===== *)
theory Process
  imports Routes Transitions
begin

text \<open>
  The end of the process (\<^verbatim>\<open>handleShutdown\<close> of \<^verbatim>\<open>cmd/tsdb-gw/main.go\<close>) as a step relation: after the signal one goroutine
  per input calls its \<^verbatim>\<open>Stop\<close>, and \<^verbatim>\<open>main\<close> returns when all have returned or after two minutes. A panic in one of the
  goroutines ends the process at once, and so does \<^verbatim>\<open>log.Fatalf\<close>.

  \<^item> \<^verbatim>\<open>Api.Stop\<close> closes the listener, waits until the goroutine that serves has closed \<^verbatim>\<open>done\<close>, and stops its plugin. The
    plugins of grafana.com share their two caches with the plugin of the carbon input.
  \<^item> \<^verbatim>\<open>Carbon.Stop\<close> waits for the goroutines of its listener, closes the channel and waits for its flushers. How many
    goroutines there are at that time, and how many lines and flushers when the channel is closed, are parameters; that
    the flushers take each line and return is shown in the theory \<open>CarbonStop\<close>. It does not stop its plugin.
  \<^item> \<^verbatim>\<open>metricsServer.Stop\<close> closes the server. The goroutine of \<^verbatim>\<open>NewMetricsServer\<close> is in \<^verbatim>\<open>ListenAndServe\<close>, which then
    returns \<^verbatim>\<open>ErrServerClosed\<close>.
\<close>

section \<open>Stopping the plugins\<close>

definition plugin_New :: "plugin_name \<Rightarrow> cache_vars \<Rightarrow> cache_vars" where
  "plugin_New p v =
     (case p of
        GrafanaComPlugin \<Rightarrow> NewGrafanaComAuth v
      | GrafanaComInstancePlugin \<Rightarrow> NewGrafanaComInstanceAuth v
      | FilePlugin \<Rightarrow> v)"

definition plugin_Stop :: "plugin_name \<Rightarrow> cache_vars \<Rightarrow> cache_vars option" where
  "plugin_Stop p v =
     (case p of
        GrafanaComPlugin \<Rightarrow> GrafanaComAuth_Stop v
      | GrafanaComInstancePlugin \<Rightarrow> GrafanaComInstanceAuth_Stop v
      | FilePlugin \<Rightarrow> Some v)"

text \<open>How the gateway was started: the plugin of the API, that of the carbon input if it is enabled, and the two numbers.\<close>

record stop_config =
  sc_plugin :: plugin_name
  sc_carbon :: "plugin_name option"
  sc_conns :: nat
  sc_lines :: nat

text \<open>The caches once \<^verbatim>\<open>api.New\<close> and \<^verbatim>\<open>carbon.InitCarbon\<close> have made their plugins.\<close>

definition started_caches :: "stop_config \<Rightarrow> cache_vars" where
  "started_caches cfg =
     (let v = plugin_New (sc_plugin cfg) \<lparr>cv_token = None, cv_instance = None\<rparr>
      in case sc_carbon cfg of None \<Rightarrow> v | Some p \<Rightarrow> plugin_New p v)"

section \<open>Shutting down\<close>

datatype api_stage = ApiServing | ApiListenerClosed | ApiServed | ApiStopped

datatype carbon_stage = CarbonServing | CarbonListenerStopping nat | CarbonDraining nat | CarbonStopped

datatype ms_stage = MsServing | MsClosed

datatype process_end = MainReturned | Panicked | Fatal

text \<open>\<^verbatim>\<open>ListenAndServe\<close>: it returns once the server is closed, and then with an error.\<close>

datatype serve_error = ErrServerClosed

definition ListenAndServe :: "ms_stage \<Rightarrow> serve_error option option" where
  "ListenAndServe st = (case st of MsServing \<Rightarrow> None | MsClosed \<Rightarrow> Some (Some ErrServerClosed))"

text \<open>The goroutine of \<^verbatim>\<open>NewMetricsServer\<close> after that: how it ends the process, if it does.\<close>

definition metricsServer_goroutine :: "serve_error option \<Rightarrow> process_end option" where
  "metricsServer_goroutine err = (if err \<noteq> None then Some Fatal else None)"

record process =
  pr_launched :: nat
  pr_api :: api_stage
  pr_carbon :: carbon_stage
  pr_ms :: ms_stage
  pr_caches :: cache_vars
  pr_complete :: bool
  pr_timer :: bool
  pr_end :: "process_end option"

text \<open>The state when the signal has come.\<close>

definition signalled :: "stop_config \<Rightarrow> process" where
  "signalled cfg =
     \<lparr>pr_launched = 0, pr_api = ApiServing, pr_carbon = CarbonServing, pr_ms = MsServing, pr_caches = started_caches cfg,
      pr_complete = False, pr_timer = False, pr_end = None\<rparr>"

abbreviation all_stopped :: "process \<Rightarrow> bool" where
  "all_stopped s \<equiv> pr_api s = ApiStopped \<and> pr_carbon s = CarbonStopped \<and> pr_ms s = MsClosed"

inductive shutdown_step :: "stop_config \<Rightarrow> process \<Rightarrow> process \<Rightarrow> bool" for cfg where
  launch: "pr_end s = None \<Longrightarrow> pr_launched s < 3 \<Longrightarrow> shutdown_step cfg s (s\<lparr>pr_launched := pr_launched s + 1\<rparr>)"
| api_close: "pr_end s = None \<Longrightarrow> pr_launched s \<ge> 1 \<Longrightarrow> pr_api s = ApiServing \<Longrightarrow>
    shutdown_step cfg s (s\<lparr>pr_api := ApiListenerClosed\<rparr>)"
| api_served: "pr_end s = None \<Longrightarrow> pr_api s = ApiListenerClosed \<Longrightarrow> shutdown_step cfg s (s\<lparr>pr_api := ApiServed\<rparr>)"
| api_stopped: "pr_end s = None \<Longrightarrow> pr_api s = ApiServed \<Longrightarrow> plugin_Stop (sc_plugin cfg) (pr_caches s) = Some v \<Longrightarrow>
    shutdown_step cfg s (s\<lparr>pr_api := ApiStopped, pr_caches := v\<rparr>)"
| api_panics: "pr_end s = None \<Longrightarrow> pr_api s = ApiServed \<Longrightarrow> plugin_Stop (sc_plugin cfg) (pr_caches s) = None \<Longrightarrow>
    shutdown_step cfg s (s\<lparr>pr_end := Some Panicked\<rparr>)"
| carbon_off: "pr_end s = None \<Longrightarrow> pr_launched s \<ge> 2 \<Longrightarrow> pr_carbon s = CarbonServing \<Longrightarrow> sc_carbon cfg = None \<Longrightarrow>
    shutdown_step cfg s (s\<lparr>pr_carbon := CarbonStopped\<rparr>)"
| carbon_stop: "pr_end s = None \<Longrightarrow> pr_launched s \<ge> 2 \<Longrightarrow> pr_carbon s = CarbonServing \<Longrightarrow> sc_carbon cfg \<noteq> None \<Longrightarrow>
    shutdown_step cfg s (s\<lparr>pr_carbon := CarbonListenerStopping (sc_conns cfg)\<rparr>)"
| carbon_conn: "pr_end s = None \<Longrightarrow> pr_carbon s = CarbonListenerStopping (Suc n) \<Longrightarrow>
    shutdown_step cfg s (s\<lparr>pr_carbon := CarbonListenerStopping n\<rparr>)"
| carbon_close: "pr_end s = None \<Longrightarrow> pr_carbon s = CarbonListenerStopping 0 \<Longrightarrow>
    shutdown_step cfg s (s\<lparr>pr_carbon := CarbonDraining (sc_lines cfg)\<rparr>)"
| carbon_drain: "pr_end s = None \<Longrightarrow> pr_carbon s = CarbonDraining (Suc n) \<Longrightarrow> shutdown_step cfg s (s\<lparr>pr_carbon := CarbonDraining n\<rparr>)"
| carbon_stopped: "pr_end s = None \<Longrightarrow> pr_carbon s = CarbonDraining 0 \<Longrightarrow> shutdown_step cfg s (s\<lparr>pr_carbon := CarbonStopped\<rparr>)"
| ms_close: "pr_end s = None \<Longrightarrow> pr_launched s \<ge> 3 \<Longrightarrow> pr_ms s = MsServing \<Longrightarrow> shutdown_step cfg s (s\<lparr>pr_ms := MsClosed\<rparr>)"
| ms_served: "pr_end s = None \<Longrightarrow> ListenAndServe (pr_ms s) = Some err \<Longrightarrow> metricsServer_goroutine err = Some e \<Longrightarrow>
    shutdown_step cfg s (s\<lparr>pr_end := Some e\<rparr>)"
| complete: "pr_end s = None \<Longrightarrow> pr_launched s = 3 \<Longrightarrow> all_stopped s \<Longrightarrow> \<not> pr_complete s \<Longrightarrow>
    shutdown_step cfg s (s\<lparr>pr_complete := True\<rparr>)"
| timer: "pr_end s = None \<Longrightarrow> pr_launched s = 3 \<Longrightarrow> \<not> pr_timer s \<Longrightarrow> shutdown_step cfg s (s\<lparr>pr_timer := True\<rparr>)"
| finish: "pr_end s = None \<Longrightarrow> pr_complete s \<or> pr_timer s \<Longrightarrow> shutdown_step cfg s (s\<lparr>pr_end := Some MainReturned\<rparr>)"

text \<open>The runs from the signal on, with their number of steps.\<close>

inductive shutdown_run :: "stop_config \<Rightarrow> nat \<Rightarrow> process \<Rightarrow> bool" for cfg where
  begin_run: "shutdown_run cfg 0 (signalled cfg)"
| extend_run: "shutdown_run cfg k s \<Longrightarrow> shutdown_step cfg s s' \<Longrightarrow> shutdown_run cfg (Suc k) s'"

section \<open>Invariant and measure\<close>

definition shutdown_inv :: "stop_config \<Rightarrow> process \<Rightarrow> bool" where
  "shutdown_inv cfg s \<longleftrightarrow>
     pr_launched s \<le> 3 \<and> (pr_complete s \<longrightarrow> all_stopped s) \<and> (pr_end s = Some MainReturned \<longrightarrow> pr_complete s \<or> pr_timer s) \<and>
     (if pr_api s = ApiStopped then plugin_Stop (sc_plugin cfg) (started_caches cfg) \<noteq> None else pr_caches s = started_caches cfg) \<and>
     (pr_end s = Some Panicked \<longrightarrow> plugin_Stop (sc_plugin cfg) (started_caches cfg) = None) \<and>
     (pr_end s = Some Fatal \<longrightarrow> pr_ms s = MsClosed)"

lemma shutdown_inv_signalled: "shutdown_inv cfg (signalled cfg)"
  by (simp add: shutdown_inv_def signalled_def)

lemma shutdown_step_inv: "shutdown_step cfg s s' \<Longrightarrow> shutdown_inv cfg s \<Longrightarrow> shutdown_inv cfg s'"
  by (induction rule: shutdown_step.induct)
    (auto simp: shutdown_inv_def metricsServer_goroutine_def ListenAndServe_def split: ms_stage.splits if_splits)

text \<open>What is left to do; every step makes it smaller.\<close>

fun api_work :: "api_stage \<Rightarrow> nat" where
  "api_work ApiServing = 3" | "api_work ApiListenerClosed = 2" | "api_work ApiServed = 1" | "api_work ApiStopped = 0"

fun carbon_work :: "stop_config \<Rightarrow> carbon_stage \<Rightarrow> nat" where
  "carbon_work cfg CarbonServing = sc_conns cfg + sc_lines cfg + 3"
| "carbon_work cfg (CarbonListenerStopping n) = n + sc_lines cfg + 2"
| "carbon_work cfg (CarbonDraining n) = n + 1"
| "carbon_work cfg CarbonStopped = 0"

definition work_left :: "stop_config \<Rightarrow> process \<Rightarrow> nat" where
  "work_left cfg s = (3 - pr_launched s) + api_work (pr_api s) + carbon_work cfg (pr_carbon s) + of_bool (pr_ms s = MsServing) +
     of_bool (\<not> pr_complete s) + of_bool (\<not> pr_timer s) + of_bool (pr_end s = None)"

lemma shutdown_step_work: "shutdown_step cfg s s' \<Longrightarrow> work_left cfg s' < work_left cfg s"
  by (induction rule: shutdown_step.induct) (simp_all add: work_left_def)

text \<open>While the process runs there is always something it can do.\<close>

lemma shutdown_progress:
  assumes "shutdown_inv cfg s" and "pr_end s = None"
  shows "\<exists>s'. shutdown_step cfg s s'"
proof (cases "pr_launched s < 3")
  case True
  then show ?thesis using shutdown_step.launch assms(2) by blast
next
  case False
  then have "pr_launched s = 3" using assms(1) by (simp add: shutdown_inv_def)
  then show ?thesis using shutdown_step.timer [of s cfg] shutdown_step.finish [of s cfg] assms(2) by blast
qed

interpretation shutdown: terminating_system "shutdown_step cfg" "shutdown_inv cfg" "work_left cfg" "\<lambda>s. pr_end s \<noteq> None"
  for cfg
  by unfold_locales (auto intro: shutdown_step_inv shutdown_step_work shutdown_progress)

lemma shutdown_run_moves: "shutdown_run cfg k s \<Longrightarrow> (shutdown_step cfg ^^ k) (signalled cfg) s"
  by (induction rule: shutdown_run.induct) auto

lemma shutdown_run_inv: "shutdown_run cfg k s \<Longrightarrow> shutdown_inv cfg s"
  using shutdown.moves_bounded [OF shutdown_run_moves shutdown_inv_signalled] by blast

lemma shutdown_run_bounded: "shutdown_run cfg k s \<Longrightarrow> k + work_left cfg s \<le> 13 + sc_conns cfg + sc_lines cfg"
  using shutdown.moves_bounded [OF shutdown_run_moves shutdown_inv_signalled] by (force simp: work_left_def signalled_def)

text \<open>Stopping the plugin of the API panics when nobody has made the cache of instances.\<close>

lemma plugin_Stop_panics:
  "plugin_Stop (sc_plugin cfg) (started_caches cfg) = None \<longleftrightarrow>
   sc_plugin cfg = GrafanaComPlugin \<and> sc_carbon cfg \<noteq> Some GrafanaComInstancePlugin"
  by (cases "sc_plugin cfg"; cases "sc_carbon cfg"; cases "the (sc_carbon cfg)")
    (auto simp: started_caches_def plugin_Stop_def plugin_New_def GrafanaComAuth_Stop_def GrafanaComInstanceAuth_Stop_def
      NewGrafanaComAuth_def NewGrafanaComInstanceAuth_def InitTokenCache_def InitInstanceCache_def StopTokenCache_def StopInstanceCache_def)

section \<open>Properties\<close>

text \<open>
  C37. The shutdown ends: until the process has ended there is a step it can take, and it takes at most thirteen and one
  for each goroutine of the carbon listener, line on the channel and flusher. \<^verbatim>\<open>main\<close> returns only after two minutes or when
  every input has stopped. With the plain grafana.com plugin, the default, unless the carbon input has made the cache of
  instances with the other plugin, the API never stops, so the inputs never all stop: stopping that plugin panics,
  which happens in no other case. And with every plugin, as soon as the metrics server has been closed the process may
  exit at any moment, whatever the other inputs are doing, and it exits so only then.
\<close>

theorem gateway_shutdown:
  assumes "shutdown_run cfg k s"
  shows "k \<le> 13 + sc_conns cfg + sc_lines cfg \<and> (pr_end s = None \<longrightarrow> (\<exists>s'. shutdown_step cfg s s')) \<and>
    (pr_end s = Some MainReturned \<longrightarrow> pr_timer s \<or> all_stopped s) \<and>
    (sc_plugin cfg = GrafanaComPlugin \<and> sc_carbon cfg \<noteq> Some GrafanaComInstancePlugin \<longrightarrow>
      pr_api s \<noteq> ApiStopped \<and> \<not> pr_complete s) \<and>
    (pr_end s = Some Panicked \<longrightarrow> sc_plugin cfg = GrafanaComPlugin \<and> sc_carbon cfg \<noteq> Some GrafanaComInstancePlugin) \<and>
    (pr_end s = None \<and> pr_ms s = MsClosed \<longrightarrow> shutdown_step cfg s (s\<lparr>pr_end := Some Fatal\<rparr>)) \<and>
    (pr_end s = Some Fatal \<longrightarrow> pr_ms s = MsClosed)"
proof -
  note inv = shutdown_run_inv [OF assms]
  have "k \<le> 13 + sc_conns cfg + sc_lines cfg" using shutdown_run_bounded [OF assms] by simp
  moreover have "shutdown_step cfg s (s\<lparr>pr_end := Some Fatal\<rparr>)" if "pr_end s = None" "pr_ms s = MsClosed"
    by (rule shutdown_step.ms_served [OF that(1), of "Some ErrServerClosed" Fatal])
      (use that(2) in \<open>simp_all add: ListenAndServe_def metricsServer_goroutine_def\<close>)
  ultimately show ?thesis
    using shutdown_progress [OF inv] inv unfolding shutdown_inv_def plugin_Stop_panics by (auto split: if_splits)
qed

theorem gateway_shutdown_witness:
  "\<exists>s. shutdown_run \<lparr>sc_plugin = FilePlugin, sc_carbon = None, sc_conns = 0, sc_lines = 0\<rparr> 4 s \<and> pr_api s = ApiServing \<and>
    shutdown_step \<lparr>sc_plugin = FilePlugin, sc_carbon = None, sc_conns = 0, sc_lines = 0\<rparr> s (s\<lparr>pr_end := Some Fatal\<rparr>)"
proof -
  let ?cfg = "\<lparr>sc_plugin = FilePlugin, sc_carbon = None, sc_conns = 0, sc_lines = 0\<rparr>"
  let ?s = "\<lambda>n. (signalled ?cfg)\<lparr>pr_launched := n\<rparr>"
  have step: "shutdown_step ?cfg (?s n) (?s (Suc n))" if "n < 3" for n
    using shutdown_step.launch [of "?s n" ?cfg] that by (simp add: signalled_def)
  have "shutdown_run ?cfg 0 (?s 0)" using shutdown_run.begin_run [of ?cfg] by (simp add: signalled_def)
  from shutdown_run.extend_run [OF this step [of 0]] have "shutdown_run ?cfg (Suc 0) (?s (Suc 0))" by simp
  from shutdown_run.extend_run [OF this step [of "Suc 0"]] have "shutdown_run ?cfg (Suc (Suc 0)) (?s (Suc (Suc 0)))" by simp
  from shutdown_run.extend_run [OF this step [of "Suc (Suc 0)"]] have launched: "shutdown_run ?cfg 3 (?s 3)" by (simp add: eval_nat_numeral)
  have "shutdown_step ?cfg (?s 3) ((?s 3)\<lparr>pr_ms := MsClosed\<rparr>)"
    by (rule shutdown_step.ms_close) (simp_all add: signalled_def)
  from shutdown_run.extend_run [OF launched this] have run: "shutdown_run ?cfg 4 ((?s 3)\<lparr>pr_ms := MsClosed\<rparr>)" by simp
  show ?thesis using gateway_shutdown [OF run] run by (intro exI [of _ "(?s 3)\<lparr>pr_ms := MsClosed\<rparr>"]) (simp add: signalled_def)
qed

end
