(* ===== verification/Startup.thy ===== *)
theory Startup
  imports Logging Process Flags Dur KafkaPublish PublishGate Persister
begin

text \<open>
  The start of the two processes: \<^verbatim>\<open>main\<close> of \<^verbatim>\<open>cmd/tsdb-gw\<close> and of \<^verbatim>\<open>cmd/persister-gw\<close> from the command line to the
  moment they serve, with \<^verbatim>\<open>util/tracer.go\<close>, \<^verbatim>\<open>util/metrics_server.go\<close>, \<^verbatim>\<open>api.New\<close> and the
  \<^verbatim>\<open>Init\<close> functions they call.

  \<^item> What the process finds in its surroundings is an argument: the environment, files, the network, the
    Kafka client and URL parsing.
  \<^item> A start that fails ends the process; \<open>exit\<close> tells where. The order of the steps is that of the code.
  \<^item> \<^verbatim>\<open>log.Fatal\<close> in a goroutine that \<^verbatim>\<open>main\<close> starts, when a key pair cannot be loaded (\<open>api_Start\<close>) or the
    metrics server cannot listen, comes after the start.
\<close>

section \<open>Steps that may fail\<close>

definition sum_bind :: "'e + 'a \<Rightarrow> ('a \<Rightarrow> 'e + 'b) \<Rightarrow> 'e + 'b" where
  "sum_bind r f = (case r of Inl e \<Rightarrow> Inl e | Inr x \<Rightarrow> f x)"

definition or_exit :: "'e \<Rightarrow> 'a option \<Rightarrow> 'e + 'a" where
  "or_exit e r = (case r of None \<Rightarrow> Inl e | Some x \<Rightarrow> Inr x)"

lemma sum_bind_Inr: "sum_bind r f = Inr y \<longleftrightarrow> (\<exists>x. r = Inr x \<and> f x = Inr y)"
  by (simp add: sum_bind_def split: sum.split)

lemma or_exit_Inr [simp]: "or_exit e r = Inr x \<longleftrightarrow> r = Some x"
  by (simp add: or_exit_def split: option.split)

section \<open>Tracing and statistics\<close>

record tracer_config =
  jc_Disabled :: bool
  jc_SamplerType :: string
  jc_SamplerParam :: int
  jc_LogSpans :: bool
  jc_LocalAgentHostPort :: string

text \<open>\<^verbatim>\<open>GetTracer\<close>; \<open>new\<close> is the constructor of the tracing library.\<close>

definition GetTracer :: "(string \<Rightarrow> tracer_config \<Rightarrow> 't option) \<Rightarrow> string \<Rightarrow> bool \<Rightarrow> string \<Rightarrow> 't option" where
  "GetTracer new app enabled addr =
     new app \<lparr>jc_Disabled = (\<not> enabled), jc_SamplerType = ''const'', jc_SamplerParam = 1, jc_LogSpans = False,
              jc_LocalAgentHostPort = addr\<rparr>"

text \<open>\<^verbatim>\<open>strings.Replace(s, old, new, -1)\<close> for an \<^verbatim>\<open>old\<close> that is not empty.\<close>

function replace_all :: "string \<Rightarrow> string \<Rightarrow> string \<Rightarrow> string" where
  "replace_all old new s =
     (if s = [] then []
      else if old \<noteq> [] \<and> has_prefix old s then new @ replace_all old new (drop (length old) s)
      else hd s # replace_all old new (tl s))"
  by pat_completeness auto

termination
  by (relation "measure (\<lambda>(old, new, s). length s)") auto

datatype stats_sink = Devnull | Graphite string string int int int

definition stats_prefix :: "string \<Rightarrow> string \<Rightarrow> string" where
  "stats_prefix prefix hostname = replace_all ''$hostname'' (replace_char CHR ''.'' CHR ''_'' hostname) prefix"

section \<open>The metrics server\<close>

datatype ms_handler =
  PromHandler | BlockHandler | MutexHandler | PprofIndex | PprofCmdline | PprofProfile | PprofSymbol | PprofTrace
  | PprofLookup string

definition metrics_mux :: "(string \<times> ms_handler) list" where
  "metrics_mux =
     [(''/metrics'', PromHandler),
      (''/debug/pprof/block'', BlockHandler), (''/debug/pprof/mutex'', MutexHandler),
      (''/debug/pprof/'', PprofIndex), (''/debug/pprof/cmdline'', PprofCmdline), (''/debug/pprof/profile'', PprofProfile),
      (''/debug/pprof/symbol'', PprofSymbol), (''/debug/pprof/trace'', PprofTrace),
      (''/debug/pprof/heap'', PprofLookup ''heap''), (''/debug/pprof/threadcreate'', PprofLookup ''threadcreate''),
      (''/debug/pprof/goroutine'', PprofLookup ''goroutine''), (''/debug/pprof/allocs'', PprofLookup ''allocs'')]"

text \<open>The number \<^verbatim>\<open>Atoi\<close> and \<^verbatim>\<open>ParseInt\<close> return with an error that the caller ignores.\<close>

definition num_value :: "string \<Rightarrow> int" where
  "num_value s =
     (case parse_int 64 s of
        Inr n \<Rightarrow> n
      | Inl ErrSyntax \<Rightarrow> 0
      | Inl ErrRange \<Rightarrow> if hd s = CHR ''-'' then - (2 ^ 63) else 2 ^ 63 - 1)"

text \<open>What the profiling handlers do, in order; a sleep that is not positive returns at once.\<close>

datatype profile_event = SetRate string int | Sleep int | WriteProfile string int

definition profile_handler :: "string \<Rightarrow> int \<Rightarrow> string \<Rightarrow> string \<Rightarrow> string \<Rightarrow> profile_event list" where
  "profile_handler kind usual debugStr secondsStr rateStr =
     (let debug = num_value debugStr;
          sec = num_value secondsStr; sec = (if sec = 0 then 30 else sec);
          rate = num_value rateStr; rate = (if rate = 0 then usual else rate)
      in [SetRate kind rate, Sleep (int64_of (sec * 1000000000)), SetRate kind 0, WriteProfile kind debug])"

definition blockHandler :: "string \<Rightarrow> string \<Rightarrow> string \<Rightarrow> profile_event list" where
  "blockHandler = profile_handler ''block'' 10000"

definition mutexHandler :: "string \<Rightarrow> string \<Rightarrow> string \<Rightarrow> profile_event list" where
  "mutexHandler = profile_handler ''mutex'' 1000"

section \<open>The gateway\<close>

definition flag_str :: "flag_set \<Rightarrow> string \<Rightarrow> string" where
  "flag_str fs n = (case fs_formal fs n of Some (FStr s) \<Rightarrow> s | _ \<Rightarrow> [])"

definition flag_bool :: "flag_set \<Rightarrow> string \<Rightarrow> bool" where
  "flag_bool fs n = (case fs_formal fs n of Some (FBool b) \<Rightarrow> b | _ \<Rightarrow> False)"

definition flag_int :: "flag_set \<Rightarrow> string \<Rightarrow> int" where
  "flag_int fs n = (case fs_formal fs n of Some (FInt i) \<Rightarrow> i | Some (FDur d) \<Rightarrow> d | _ \<Rightarrow> 0)"

definition flag_ints :: "flag_set \<Rightarrow> string \<Rightarrow> int list" where
  "flag_ints fs n = (case fs_formal fs n of Some (FInts ns) \<Rightarrow> ns | _ \<Rightarrow> [])"

text \<open>
  The surroundings. A file does not exist, or exists and cannot be read, or has a value for some flags; the file of
  the authentication plugin gives its sections.
\<close>

record surroundings =
  wd_env :: "string \<rightharpoonup> string"
  wd_file :: "string \<Rightarrow> (string \<rightharpoonup> string) option option"
  wd_dur :: "string \<Rightarrow> int option"
  wd_hostname :: string
  wd_tracer :: "string \<Rightarrow> tracer_config \<Rightarrow> unit option"
  wd_kafka :: startup
  wd_url :: "string \<Rightarrow> Url option"
  wd_authfile :: "string \<Rightarrow> ini_section list option"
  wd_listen :: "string \<Rightarrow> bool"

datatype exit =
    ExitUsage | ExitConf | ExitVersion | ExitTracer | ExitKafka fatal | PanicTimeRange | ExitGraphiteURL | ExitMetrictankURL
  | ExitImporterURL | ExitRateLimits limit_error | ExitSSL | ExitAuthPlugin | ExitAuthFile | ExitListen | ExitKeyPair | PanicChannel | PanicWaitGroup
  | ExitPersister

text \<open>
  The beginning of both \<^verbatim>\<open>main\<close> functions: the command line, the file it names or the default one if there is such
  a file, and the rest of the configuration.
\<close>

definition read_config :: "surroundings \<Rightarrow> flag_def list \<Rightarrow> string list \<Rightarrow> exit + flag_set" where
  "read_config w defs args =
     sum_bind (or_exit ExitUsage (define_flags defs)) (\<lambda>fs.
     sum_bind (or_exit ExitUsage (parse_args (wd_dur w) args fs)) (\<lambda>fs.
     sum_bind (case wd_file w (flag_str fs ''config'') of None \<Rightarrow> Inr Map.empty | Some dict \<Rightarrow> or_exit ExitConf dict) (\<lambda>dict.
     or_exit ExitUsage (ParseAll (wd_dur w) defs (wd_env w) dict fs))))"

definition kafka_settings :: "flag_set \<Rightarrow> flags" where
  "kafka_settings fs =
     \<lparr>fl_enabled = flag_bool fs ''metrics-publish'', fl_partitionSchemesStr = flag_str fs ''metrics-partition-scheme'',
      fl_topicsStr = flag_str fs ''metrics-topic'', fl_onlyOrgIds = flag_ints fs ''only-org-id'',
      fl_discardPrefixesStr = flag_str fs ''discard-prefixes'', fl_rewriteOrgIdStr = flag_str fs ''rewrite-org-id'',
      fl_codec = flag_str fs ''metrics-kafka-comp'', fl_tlsEnabled = flag_bool fs ''kafka-ssl'',
      fl_v2 = flag_bool fs ''v2'', fl_v2Org = flag_bool fs ''v2-org'', fl_v2ClearInterval = flag_int fs ''v2-clear-interval''\<rparr>"

definition timerange_limit :: "string \<Rightarrow> exit + uint32" where
  "timerange_limit s = (if length s > 0 then or_exit PanicTimeRange (MustParseNDuration s) else Inr 0)"

text \<open>\<^verbatim>\<open>Init\<close> of the packages \<^verbatim>\<open>graphite\<close> and \<^verbatim>\<open>metrictank\<close>, and \<^verbatim>\<open>InitMtBulkImporter\<close>.\<close>

definition graphite_Init :: "surroundings \<Rightarrow> string \<Rightarrow> uint32 \<Rightarrow> exit + Url \<times> uint32" where
  "graphite_Init w graphiteUrl limit = sum_bind (or_exit ExitGraphiteURL (wd_url w graphiteUrl)) (\<lambda>u. Inr (u, limit))"

definition metrictank_Init :: "surroundings \<Rightarrow> string \<Rightarrow> exit + Url" where
  "metrictank_Init w metrictankUrl = or_exit ExitMetrictankURL (wd_url w metrictankUrl)"

definition InitMtBulkImporter :: "surroundings \<Rightarrow> string \<Rightarrow> exit + Url" where
  "InitMtBulkImporter w importerUrlStr = or_exit ExitImporterURL (wd_url w importerUrlStr)"

text \<open>\<^verbatim>\<open>GetAuthPlugin\<close> with the file it may load.\<close>

definition load_plugin :: "surroundings \<Rightarrow> flag_set \<Rightarrow> string \<Rightarrow> exit + plugin_name" where
  "load_plugin w fs name =
     sum_bind (or_exit ExitAuthPlugin (GetAuthPlugin name)) (\<lambda>p.
     if p = FilePlugin then
       sum_bind (or_exit ExitAuthFile (wd_authfile w (flag_str fs ''auth-file-path''))) (\<lambda>secs.
       sum_bind (or_exit ExitAuthFile (NewFileAuth secs init_heap)) (\<lambda>_. Inr p))
     else Inr p)"

definition api_New :: "surroundings \<Rightarrow> flag_set \<Rightarrow> string \<Rightarrow> exit + plugin_name" where
  "api_New w fs authPlugin =
     (if flag_bool fs ''ssl'' \<and> (flag_str fs ''cert-file'' = [] \<or> flag_str fs ''key-file'' = []) then Inl ExitSSL
      else
        sum_bind (load_plugin w fs authPlugin) (\<lambda>p.
        if \<not> wd_listen w (flag_str fs ''addr'') then Inl ExitListen else Inr p))"

text \<open>
  \<^verbatim>\<open>Api.Start\<close> and what its goroutine makes of the listener: TLS with the certificate and HTTP/1.1 alone, or plain.
  \<open>load\<close> reads the key pair, which is first looked at here, when the listener is already open.
\<close>

datatype 'c serving = ServePlain | ServeTLS 'c "string list"

definition api_Start :: "(string \<Rightarrow> string \<Rightarrow> 'c option) \<Rightarrow> flag_set \<Rightarrow> exit + 'c serving" where
  "api_Start load fs =
     (if flag_bool fs ''ssl'' then
        sum_bind (or_exit ExitKeyPair (load (flag_str fs ''cert-file'') (flag_str fs ''key-file''))) (\<lambda>cert.
        Inr (ServeTLS cert [''http/1.1'']))
      else Inr ServePlain)"

text \<open>
  \<^verbatim>\<open>InitCarbon\<close>: without the input, nothing is loaded and nothing listens. A channel cannot have a negative
  capacity, nor can a negative number be added to a wait group that is zero; both panic.
\<close>

record carbon_input =
  ci_plugin :: plugin_name
  ci_capacity :: nat
  ci_flushers :: nat
  ci_requirePublisher :: bool

definition InitCarbon :: "surroundings \<Rightarrow> flag_set \<Rightarrow> bool \<Rightarrow> exit + carbon_input option" where
  "InitCarbon w fs requirePublisher =
     (if \<not> flag_bool fs ''carbon-enabled'' then Inr None
      else
        sum_bind (load_plugin w fs (flag_str fs ''carbon-auth-plugin'')) (\<lambda>p.
        if flag_int fs ''carbon-buffer-size'' < 0 then Inl PanicChannel
        else if \<not> wd_listen w (flag_str fs ''carbon-addr'') then Inl ExitListen
        else if flag_int fs ''carbon-concurrency'' < 0 then Inl PanicWaitGroup
        else
          Inr (Some \<lparr>ci_plugin = p, ci_capacity = nat (flag_int fs ''carbon-buffer-size''),
                     ci_flushers = nat (flag_int fs ''carbon-concurrency''), ci_requirePublisher = requirePublisher\<rparr>)))"

record gateway =
  gw_logLevel :: log_level
  gw_stats :: stats_sink
  gw_publisher :: "(mtPublisher \<times> KeyCache option) option"
  gw_graphite :: Url
  gw_limit :: uint32
  gw_metrictank :: Url
  gw_importer :: "Url option"
  gw_limits :: limiters
  gw_plugin :: plugin_name
  gw_enforceRoles :: bool
  gw_router :: "target Router"
  gw_carbon :: "carbon_input option"

definition start_stats :: "surroundings \<Rightarrow> flag_set \<Rightarrow> stats_sink" where
  "start_stats w fs =
     (if flag_bool fs ''stats-enabled'' then
        Graphite (stats_prefix (flag_str fs ''stats-prefix'') (wd_hostname w)) (flag_str fs ''stats-addr'')
          (flag_int fs ''stats-interval'') (flag_int fs ''stats-buffer-size'') (flag_int fs ''stats-timeout'')
      else Devnull)"

text \<open>\<^verbatim>\<open>main\<close> of the gateway from the configuration on, up to the moment it waits for the signal.\<close>

definition start_gateway :: "surroundings \<Rightarrow> flag_set \<Rightarrow> exit + gateway" where
  "start_gateway w fs =
     (let level = InitLogger (flag_int fs ''log-level'') InfoLevel
      in if flag_bool fs ''version'' then Inl ExitVersion
      else
        sum_bind (or_exit ExitTracer (GetTracer (wd_tracer w) ''tsdb-gw'' (flag_bool fs ''tracing-enabled'') (flag_str fs ''tracing-addr''))) (\<lambda>_.
        sum_bind (case New (kafka_settings fs) (wd_kafka w) (split_on CHR '','' (flag_str fs ''kafka-tcp-addr'')) True of
                    Inl e \<Rightarrow> Inl (ExitKafka e) | Inr p \<Rightarrow> Inr p) (\<lambda>publisher.
        sum_bind (timerange_limit (flag_str fs ''timerange-limit'')) (\<lambda>limit.
        sum_bind (graphite_Init w (flag_str fs ''graphite-url'') limit) (\<lambda>(graphite, limit).
        sum_bind (metrictank_Init w (flag_str fs ''metrictank-url'')) (\<lambda>metrictank.
        sum_bind (if length (flag_str fs ''importer-url'') > 0
                  then sum_bind (InitMtBulkImporter w (flag_str fs ''importer-url'')) (\<lambda>u. Inr (Some u)) else Inr None) (\<lambda>importer.
        sum_bind (case ConfigureRateLimits (flag_str fs ''rate-limits'') Map.empty of
                    (Some e, rl) \<Rightarrow> Inl (ExitRateLimits e) | (None, rl) \<Rightarrow> Inr rl) (\<lambda>limits.
        sum_bind (api_New w fs (flag_str fs ''api-auth-plugin'')) (\<lambda>plugin.
        let router = gateway_router (length (flag_str fs ''timerange-limit'') > 0) (length (flag_str fs ''importer-url'') > 0)
        in sum_bind (InitCarbon w fs (flag_bool fs ''enforce-roles'')) (\<lambda>carbon.
           Inr \<lparr>gw_logLevel = level, gw_stats = start_stats w fs, gw_publisher = publisher, gw_graphite = graphite, gw_limit = limit,
                gw_metrictank = metrictank, gw_importer = importer, gw_limits = limits, gw_plugin = plugin,
                gw_enforceRoles = flag_bool fs ''enforce-roles'', gw_router = router, gw_carbon = carbon\<rparr>))))))))))"

definition tsdb_gw_main :: "surroundings \<Rightarrow> string list \<Rightarrow> exit + gateway" where
  "tsdb_gw_main w args = sum_bind (read_config w tsdb_gw_flags args) (start_gateway w)"

section \<open>The persister\<close>

datatype persister_page = PersisterOk | PersistPage | RemovePage | IndexPage' | PrometheusPage

definition persister_routes :: "(string \<times> persister_page) list" where
  "persister_routes =
     [(''/'', PersisterOk), (''/persist'', PersistPage), (''/remove'', RemovePage), (''/index'', IndexPage'),
      (''/metrics'', PrometheusPage)]"

definition persister_config :: "flag_set \<Rightarrow> Config" where
  "persister_config fs =
     \<lparr>cf_interval = flag_int fs ''persister-interval'', cf_maxBufferSize = flag_int fs ''persister-buffer-size'',
      cf_Addr = flag_str fs ''gateway-addr'', cf_APIKey = flag_str fs ''gateway-key'',
      cf_TableName = flag_str fs ''bigtable-tablename'', cf_Prefix = flag_str fs ''bigtable-prefix''\<rparr>"

text \<open>
  \<^verbatim>\<open>main\<close> of the persister up to the server. The error of \<^verbatim>\<open>ListenAndServe\<close> is ignored: without the port the process
  ends without a message.
\<close>

definition persister_gw_main :: "surroundings \<Rightarrow> (string \<Rightarrow> string option) \<Rightarrow> 'b admin_api \<Rightarrow> 'b \<Rightarrow> string list \<Rightarrow> exit + log_level \<times> 'b Persister" where
  "persister_gw_main w parse adm table args =
     sum_bind (read_config w persister_gw_flags args) (\<lambda>fs.
     if flag_bool fs ''version'' then Inl ExitVersion
     else
       let level = InitLogger (flag_int fs ''log-level'') InfoLevel
       in sum_bind (or_exit ExitPersister (Persister_New parse adm (persister_config fs) table)) (\<lambda>p.
          if wd_listen w (flag_str fs ''addr'') then Inr (level, p) else Inl ExitListen))"

section \<open>Starting\<close>

lemma timerange_limit_Inr:
  assumes "timerange_limit s = Inr limit"
  shows "if s = [] then limit = 0 else limit \<noteq> 0 \<and> ParseDuration s = Inr limit"
  using assms by (auto simp: timerange_limit_def MustParseNDuration_def ParseNDuration_def split: if_splits sum.splits)

lemma load_plugin_Inr: "load_plugin w fs name = Inr p \<Longrightarrow> GetAuthPlugin name = Some p"
  by (auto simp: load_plugin_def sum_bind_Inr split: if_splits)

lemma api_New_Inr:
  "api_New w fs name = Inr p \<Longrightarrow> GetAuthPlugin name = Some p \<and> wd_listen w (flag_str fs ''addr'') \<and>
    (flag_bool fs ''ssl'' \<longrightarrow> flag_str fs ''cert-file'' \<noteq> [] \<and> flag_str fs ''key-file'' \<noteq> [])"
  by (auto simp: api_New_def sum_bind_Inr load_plugin_Inr split: if_splits)

lemma New_None: "New fl su brokers ai = Inr None \<longleftrightarrow> \<not> fl_enabled fl"
  by (auto simp: New_def connect_def split: sum.splits option.splits if_splits)

text \<open>The steps of a start that succeeds.\<close>

lemma start_gateway_steps:
  assumes "start_gateway w fs = Inr g"
  shows "New (kafka_settings fs) (wd_kafka w) (split_on CHR '','' (flag_str fs ''kafka-tcp-addr'')) True = Inr (gw_publisher g)"
    and "timerange_limit (flag_str fs ''timerange-limit'') = Inr (gw_limit g)"
    and "gw_importer g = (if flag_str fs ''importer-url'' = [] then None else wd_url w (flag_str fs ''importer-url'')) \<and>
      (flag_str fs ''importer-url'' \<noteq> [] \<longrightarrow> gw_importer g \<noteq> None)"
    and "ConfigureRateLimits (flag_str fs ''rate-limits'') Map.empty = (None, gw_limits g)"
    and "api_New w fs (flag_str fs ''api-auth-plugin'') = Inr (gw_plugin g)"
    and "gw_router g = gateway_router (flag_str fs ''timerange-limit'' \<noteq> []) (flag_str fs ''importer-url'' \<noteq> [])"
    and "\<not> flag_bool fs ''version''" and "gw_enforceRoles g = flag_bool fs ''enforce-roles''"
  using assms
  by (auto simp: start_gateway_def Let_def sum_bind_Inr graphite_Init_def InitMtBulkImporter_def
      split: if_splits sum.splits prod.splits option.splits)

lemma conf_Parse_nothing: "conf_Parse dur Map.empty Map.empty already names fs = Some fs"
  by (induction names) (simp_all add: conf_Parse_step conf_source_def)

lemma read_config_defaults:
  assumes "distinct (map fst defs)" and "wd_env w = Map.empty" and "\<And>path. wd_file w path = None"
  shows "read_config w defs [] = Inr \<lparr>fs_formal = map_of defs, fs_actual = {}\<rparr>"
  using assms by (simp add: read_config_def define_flags_def or_exit_def sum_bind_def ParseAll_def conf_Parse_nothing)

text \<open>A string given on the command line is the value of its flag, whatever the environment and the file say.\<close>

lemma read_config_argument:
  assumes "read_config w defs [CHR ''-'' # n @ CHR ''='' # v] = Inr fs" and "(n, FStr d) \<in> set defs"
    and "n \<noteq> []" and "hd n \<noteq> CHR ''-''" and "CHR ''='' \<notin> set n"
  shows "flag_str fs n = v"
proof -
  obtain fs1 dict where dist: "distinct (map fst defs)"
    and args: "parse_args (wd_dur w) [CHR ''-'' # n @ CHR ''='' # v] \<lparr>fs_formal = map_of defs, fs_actual = {}\<rparr> = Some fs1"
    and conf: "conf_Parse (wd_dur w) (wd_env w) dict (fs_actual fs1) (sort (map fst defs)) fs1 = Some fs"
    using assms(1) unfolding read_config_def sum_bind_Inr or_exit_Inr define_flags_def ParseAll_def by (auto simp del: parse_args.simps split: if_splits)
  obtain a as where n: "n = a # as" "a \<noteq> CHR ''-''" "a \<noteq> CHR ''=''" "CHR ''='' \<notin> set as" using assms(3-5) by (cases n) auto
  then have "splitn2 CHR ''='' (a # as @ CHR ''='' # v) = [n, v]" using splitn2_append [of "CHR ''=''" "a # as" v] by simp
  then have "flag_Set (wd_dur w) n v \<lparr>fs_formal = map_of defs, fs_actual = {}\<rparr> = Some fs1"
    using args n(2,3) unfolding n(1) by (simp split: option.splits)
  then have "fs_formal fs1 n = Some (FStr v)" "n \<in> fs_actual fs1"
    using dist assms(2) by (auto simp: flag_Set_def set_value_def split: option.splits)
  then show ?thesis using conf_Parse_other [OF conf, of n] by (simp add: flag_str_def)
qed

abbreviation default_flags :: flag_set where
  "default_flags \<equiv> \<lparr>fs_formal = map_of tsdb_gw_flags, fs_actual = {}\<rparr>"

lemma default_values:
  "flag_str default_flags ''timerange-limit'' = []" "flag_str default_flags ''importer-url'' = []"
  "flag_str default_flags ''rate-limits'' = []" "flag_str default_flags ''api-auth-plugin'' = ''grafana''"
  "flag_bool default_flags ''metrics-publish'' = False" "flag_bool default_flags ''carbon-enabled'' = False"
  "flag_bool default_flags ''enforce-roles'' = False" "flag_bool default_flags ''version'' = False"
  "flag_bool default_flags ''ssl'' = False" "flag_bool default_flags ''stats-enabled'' = False"
  by (simp_all add: flag_str_def flag_bool_def flag_defs)

text \<open>
  A gateway that has started serves in the way its flags say, unless the key pair cannot be loaded: then the process
  ends after it started.
\<close>

lemma started_gateway_serves:
  assumes "start_gateway w fs = Inr g"
  shows "case api_Start load fs of
      Inl e \<Rightarrow> e = ExitKeyPair \<and> flag_bool fs ''ssl'' \<and> load (flag_str fs ''cert-file'') (flag_str fs ''key-file'') = None
    | Inr ServePlain \<Rightarrow> \<not> flag_bool fs ''ssl''
    | Inr (ServeTLS cert protos) \<Rightarrow>
        flag_str fs ''cert-file'' \<noteq> [] \<and> flag_str fs ''key-file'' \<noteq> [] \<and>
        load (flag_str fs ''cert-file'') (flag_str fs ''key-file'') = Some cert"
  using api_New_Inr [OF start_gateway_steps(5) [OF assms]]
  by (simp add: api_Start_def sum_bind_def or_exit_def split: option.split)

section \<open>Clean paths of the routers\<close>

lemma find_route: "find (\<lambda>(tpl, h). tpl = p) rs = Some (q, h) \<longleftrightarrow> q = p \<and> map_of rs p = Some h"
  by (induction rs) auto

lemma find_no_route: "find (\<lambda>(tpl, h). tpl = p) rs = None \<longleftrightarrow> map_of rs p = None"
  by (induction rs) auto

lemma persister_routes_clean: "list_all (\<lambda>(p, h). cleanPath p = p) persister_routes"
  by code_simp

lemma persister_routes_distinct: "distinct (map fst persister_routes)"
  by (simp add: persister_routes_def)

lemma metrics_mux_prefixes: "filter (\<lambda>(q, h). has_suffix ''/'' q) metrics_mux = [(''/debug/pprof/'', PprofIndex)]"
  by code_simp

lemma longest_prefix_filter: "longest_prefix ps p = longest_prefix (filter (\<lambda>(q, h). has_suffix ''/'' q) ps) p"
proof -
  let ?f = "\<lambda>(q, h) best. if has_suffix ''/'' q \<and> has_prefix q p \<and>
      (case best of None \<Rightarrow> True | Some (b, _) \<Rightarrow> length b < length q) then Some (q, h) else best"
  have "fold ?f ps best = fold ?f (filter (\<lambda>(q, h). has_suffix ''/'' q) ps) best" for best
    by (induction ps arbitrary: best) auto
  then show ?thesis by (simp add: longest_prefix_def)
qed

lemma metrics_mux_prefix:
  "longest_prefix metrics_mux p = (if has_prefix ''/debug/pprof/'' p then Some (''/debug/pprof/'', PprofIndex) else None)"
proof -
  have "has_suffix ''/'' ''/debug/pprof/''" by code_simp
  then show ?thesis unfolding longest_prefix_filter [of metrics_mux] metrics_mux_prefixes by (simp add: longest_prefix_def)
qed

lemma map_of_suffix:
  assumes "has_suffix s k"
  shows "map_of (filter (\<lambda>(q, h). has_suffix s q) ps) k = map_of ps k"
  using assms by (induction ps) auto

lemma metrics_mux_slash: "map_of metrics_mux (p @ ''/'') \<noteq> None \<longleftrightarrow> p = ''/debug/pprof''"
proof -
  have "has_suffix ''/'' (p @ ''/'')" unfolding has_suffix_iff by (rule exI) (rule HOL.refl)
  from map_of_suffix [OF this, of metrics_mux, symmetric] show ?thesis
    unfolding metrics_mux_prefixes by (auto split: if_splits)
qed

section \<open>Properties\<close>

text \<open>
  A gateway that has started is consistent with its flags: the limit on the time range is in force on the
  Graphite route exactly when the flag is set, and is then the duration the flag says and not zero; the
  route of the importer is there exactly when its address is; metrics go to Kafka exactly when publishing
  is enabled; and the plugin is the one that was named, with a certificate and a key if the server uses
  them.
\<close>

theorem started_gateway_is_consistent:
  assumes "start_gateway w fs = Inr g"
  shows "gw_router g = gateway_router (flag_str fs ''timerange-limit'' \<noteq> []) (flag_str fs ''importer-url'' \<noteq> []) \<and>
    (gw_limit g = 0 \<longleftrightarrow> flag_str fs ''timerange-limit'' = []) \<and>
    (flag_str fs ''timerange-limit'' \<noteq> [] \<longrightarrow> ParseDuration (flag_str fs ''timerange-limit'') = Inr (gw_limit g)) \<and>
    (gw_importer g = None \<longleftrightarrow> flag_str fs ''importer-url'' = []) \<and>
    (gw_publisher g = None \<longleftrightarrow> \<not> flag_bool fs ''metrics-publish'') \<and>
    GetAuthPlugin (flag_str fs ''api-auth-plugin'') = Some (gw_plugin g) \<and>
    (flag_bool fs ''ssl'' \<longrightarrow> flag_str fs ''cert-file'' \<noteq> [] \<and> flag_str fs ''key-file'' \<noteq> [])"
proof -
  note steps = start_gateway_steps [OF assms]
  have "gw_publisher g = None \<longleftrightarrow> \<not> flag_bool fs ''metrics-publish''"
    using steps(1) New_None [of "kafka_settings fs"] by (auto simp: kafka_settings_def)
  moreover have "(gw_limit g = 0 \<longleftrightarrow> flag_str fs ''timerange-limit'' = []) \<and>
      (flag_str fs ''timerange-limit'' \<noteq> [] \<longrightarrow> ParseDuration (flag_str fs ''timerange-limit'') = Inr (gw_limit g))"
    using timerange_limit_Inr [OF steps(2)] by (auto split: if_splits)
  moreover have "gw_importer g = None \<longleftrightarrow> flag_str fs ''importer-url'' = []"
    by (metis steps(3))
  ultimately show ?thesis using steps(6) api_New_Inr [OF steps(5)] by simp
qed

definition sample_world :: surroundings where
  "sample_world =
     \<lparr>wd_env = Map.empty, wd_file = (\<lambda>_. None), wd_dur = (\<lambda>_. None), wd_hostname = ''gw.example.com'',
      wd_tracer = (\<lambda>_ _. Some ()), wd_kafka = sample_startup,
      wd_url = (\<lambda>s. Some \<lparr>ur_Scheme = ''http'', ur_Host = s, ur_Path = ''/''\<rparr>),
      wd_authfile = (\<lambda>_. None), wd_listen = (\<lambda>_. True)\<rparr>"

lemma sample_start: "\<exists>g. start_gateway sample_world default_flags = Inr g"
  by (simp add: start_gateway_def default_values sum_bind_def or_exit_def GetTracer_def sample_world_def New_def kafka_settings_def
      timerange_limit_def graphite_Init_def metrictank_Init_def ConfigureRateLimits_def api_New_def load_plugin_def GetAuthPlugin_def
      InitCarbon_def Let_def)

theorem started_gateway_is_consistent_witness:
  "\<exists>g. start_gateway sample_world default_flags = Inr g \<and> gw_router g = gateway_router False False \<and> gw_limit g = 0 \<and>
    gw_plugin g = GrafanaComPlugin"
proof -
  obtain g where g: "start_gateway sample_world default_flags = Inr g" using sample_start by blast
  show ?thesis using started_gateway_is_consistent [OF g] g by (simp add: default_values GetAuthPlugin_def)
qed

text \<open>
  A gateway that is not configured drops metrics: started without arguments, with nothing in the environment
  and without a file, it publishes nothing, yet acknowledges every batch; it has no rate limits, no limit
  on the time range, does not check roles and asks grafana.com about keys.
\<close>

theorem default_gateway_drops_metrics:
  assumes "wd_env w = Map.empty" and "\<And>path. wd_file w path = None" and "tsdb_gw_main w [] = Inr g"
  shows "Init (map_option kafka (gw_publisher g)) metrics s = Some (None, metrics, s) \<and>
    gw_limits g = Map.empty \<and> gw_limit g = 0 \<and> \<not> gw_enforceRoles g \<and> gw_plugin g = GrafanaComPlugin"
proof -
  have "distinct (map fst tsdb_gw_flags)" by code_simp
  from read_config_defaults [OF this assms(1,2)] assms(3) have g: "start_gateway w default_flags = Inr g"
    by (simp add: tsdb_gw_main_def sum_bind_def)
  note steps = start_gateway_steps [OF g]
  have "gw_publisher g = None" using steps(1) by (simp add: New_def kafka_settings_def default_values)
  then show ?thesis
    using steps(2,4,5,8) api_New_Inr [OF steps(5)]
    by (simp add: Init_def nullPublisher_Publish_def default_values timerange_limit_def ConfigureRateLimits_def GetAuthPlugin_def)
qed

theorem default_gateway_drops_metrics_witness:
  "\<exists>g. tsdb_gw_main sample_world [] = Inr g \<and>
    Init (map_option (\<lambda>_ ms s. None) (gw_publisher g)) [sample_metric] () = Some (None :: unit option, [sample_metric], ())"
proof -
  obtain g where g: "start_gateway sample_world default_flags = Inr g" using sample_start by blast
  have "distinct (map fst tsdb_gw_flags)" by code_simp
  from read_config_defaults [OF this, of sample_world] g have main: "tsdb_gw_main sample_world [] = Inr g"
    by (simp add: tsdb_gw_main_def sum_bind_def sample_world_def)
  have "Init (map_option (\<lambda>_ ms s. None) (gw_publisher g)) [sample_metric] () = Some (None :: unit option, [sample_metric], ())"
    by (rule default_gateway_drops_metrics [OF _ _ main, THEN conjunct1]) (simp_all add: sample_world_def)
  then show ?thesis using main by blast
qed

text \<open>
  The metrics server: the paths registered are served by their handlers, every other path below
  \<^verbatim>\<open>/debug/pprof/\<close> by the index of the profiles, and no path outside it but \<^verbatim>\<open>/metrics\<close> by any handler.
\<close>

theorem metrics_server_routes:
  "ServeMux_match metrics_mux p = MuxHandler h \<longleftrightarrow>
     cleanPath p = p \<and>
     (map_of metrics_mux p = Some h \<or>
      map_of metrics_mux p = None \<and> has_prefix ''/debug/pprof/'' p \<and> h = PprofIndex)"
proof -
  note slash = metrics_mux_slash [of p]
  have short: "\<not> has_prefix ''/debug/pprof/'' ''/debug/pprof''" by simp
  show ?thesis
  proof (cases "cleanPath p = p \<and> map_of metrics_mux p = None")
    case True
    then have "ServeMux_match metrics_mux p =
        (if p = ''/debug/pprof'' then MuxRedirect (p @ ''/'') else if has_prefix ''/debug/pprof/'' p then MuxHandler PprofIndex else MuxNotFound)"
      unfolding ServeMux_match_def metrics_mux_prefix slash by (simp del: has_prefix_Cons)
    then show ?thesis using True short by (simp del: has_prefix_Cons) blast
  next
    case False
    then show ?thesis by (auto simp: ServeMux_match_def simp del: has_prefix_Cons)
  qed
qed

text \<open>
  The persister serves its five paths and nothing else.
\<close>

theorem persister_serves_its_paths:
  "gorilla_match persister_routes p = MuxHandler h \<longleftrightarrow> (p, h) \<in> set persister_routes"
proof -
  have "map_of persister_routes p = Some h \<longleftrightarrow> (p, h) \<in> set persister_routes"
    by (simp add: persister_routes_distinct)
  moreover have "cleanPath p = p" if "(p, h) \<in> set persister_routes"
    using persister_routes_clean that by (auto simp: list_all_iff)
  ultimately show ?thesis
    by (auto simp: gorilla_match_def find_route find_no_route split: option.splits)
qed

end
