(* ===== verification/Spec2Isabelle.thy ===== *)
theory Spec2Isabelle
  imports KeyCacheConc GcomConc Buffers Writers CarbonInput CarbonKafka CarbonStop Datadog Persister DateTime SchemaFile Middleware Startup
begin

text \<open>
  Verification library of \<^verbatim>\<open>tsdb-gw\<close>, a gateway in front of a time series database, and of its companion
  \<^verbatim>\<open>persister-gw\<close>. Paths below are those of the repository.

  \<^bold>\<open>The program.\<close> Clients send metrics over HTTP (\<^verbatim>\<open>/metrics\<close>, OpenTSDB, Prometheus remote write, datadog) or as
  carbon lines. The router finds the route, its chain of handlers authenticates the request with one of
  three plugins, checks roles and rate limits, and the endpoint decodes the metrics, overrides their
  organisation, validates them and hands them to the publish gate, which counts them and passes them to
  the Kafka publisher. The publisher sends each metric to every topic that takes it, as a full metric or,
  when the key cache says it was announced recently, as a short point. Queries are proxied to Graphite and
  Metrictank with the organisation in a header. Datadog intakes go to the persister, which stores them in
  a table and pushes metrics made from them back to the gateway.

  \<^bold>\<open>Theories, and the code they model.\<close>
    \<^item> \<open>GwPrelude\<close>, \<open>GoNumeric\<close>, \<open>Md5\<close>, \<open>GoSlices\<close>: what the code uses of Go: machine integers, strings, number
      parsing, hex, byte order, MD5, and slices with shared backing arrays. \<open>Transitions\<close>: the locales of step
      relations that the machines below interpret (invariants, runs that end, calls that are served, labelled runs).
    \<^item> \<open>Schema\<close> (vendored \<^verbatim>\<open>metrictank/schema\<close>): \<^verbatim>\<open>MetricData\<close>, its validation, identifier, partition, and the two
      encodings of a point. \<open>StorageSchemas\<close> and \<open>SchemaFile\<close> (vendored \<^verbatim>\<open>metrictank/conf\<close>, \<^verbatim>\<open>publish/kafka/schemas.go\<close>):
      matching a name to a retention, and reading the schemas from their file.
    \<^item> \<open>KeyCache\<close> (\<^verbatim>\<open>publish/kafka/keycache\<close>): the cache as a state, its invariant, the set it stands for, runs of
      touches and ticks; \<open>KeyCacheConc\<close>: touches beside the clearing loop at the grain of the locks.
    \<^item> \<open>KafkaPublish\<close> (\<^verbatim>\<open>publish/kafka\<close>): topic settings, start-up, the payload forms, \<^verbatim>\<open>Publish\<close> with its loops.
      \<open>PublishGate\<close> (\<^verbatim>\<open>publish\<close>): the gate, over any publisher (locale \<open>publisher\<close>). \<open>Buffers\<close>
      (\<^verbatim>\<open>util/buffer_pool.go\<close>): the pooled buffers of concurrent calls of \<^verbatim>\<open>Publish\<close> (locale \<open>byte_pool\<close>).
    \<^item> \<open>RateLimit\<close> and \<open>Ingest\<close> (\<^verbatim>\<open>ingest/rate_limit.go\<close>, \<^verbatim>\<open>ingest/metrics.go\<close>, \<^verbatim>\<open>ingest/metrics_response.go\<close>): limits, and the
      JSON and binary handlers. \<open>Writers\<close> (\<^verbatim>\<open>ingest/opentsdb.go\<close>, \<^verbatim>\<open>ingest/prometheus.go\<close>): the writers over the shared
      pool of metrics. \<open>Carbon\<close> (\<^verbatim>\<open>ingest/carbon\<close>): the parser, and the connections, the channel, the flushers and
      the shutdown as a labelled step relation, over any publisher that keeps its batch (locale \<open>keeping_publisher\<close>);
      \<open>Carbon20\<close> (vendored \<^verbatim>\<open>go-metrics20\<close>): the validation of lines; \<open>CarbonInput\<close> (\<^verbatim>\<open>listener.go\<close>): scanning a
      connection into lines; \<open>CarbonKafka\<close>: runs in front of the Kafka publisher; \<open>CarbonStop\<close>: the runs after
      \<^verbatim>\<open>Stop\<close>. \<open>Datadog\<close> (\<^verbatim>\<open>ingest/datadog\<close>, \<^verbatim>\<open>persister/persist\<close>): series, checks, intakes.
    \<^item> \<open>Gcom\<close> (\<^verbatim>\<open>auth/gcom\<close>): validation of keys and instances, both caches and their background validation.
      \<open>SingleFlight\<close> (vendored \<^verbatim>\<open>singleflight\<close>, locale \<open>single_flight\<close>) and \<open>GcomConc\<close>: concurrent calls that share
      questions to grafana.com, as a step relation over both caches.
      \<open>AuthPlugins\<close> (\<^verbatim>\<open>auth\<close>): the plugins over an explicit store of users (locale \<open>auth_plugin\<close>). \<open>ApiChain\<close>
      (\<^verbatim>\<open>api/middleware.go\<close>): credentials, impersonation, role and rate checks, the generated chains. \<open>Middleware\<close>
      (\<^verbatim>\<open>api\<close>, vendored \<^verbatim>\<open>macaron\<close>): the loop over the handlers, recovery, tracing and statistics.
    \<^item> \<open>Query\<close> (\<^verbatim>\<open>query\<close>, \<^verbatim>\<open>ingest/mt_bulk_importer.go\<close>, \<^verbatim>\<open>util\<close>): the limit on the time range, the retrying transport and
      the four proxies (locale \<open>org_proxy\<close>). \<open>RoutePattern\<close> and \<open>Router\<close> (vendored \<^verbatim>\<open>macaron\<close>): the types
      and wildcards of patterns, and the trees of routes with optional segments and parameters. \<open>Routes\<close>
      (\<^verbatim>\<open>cmd/tsdb-gw/main.go\<close>, \<^verbatim>\<open>api\<close>): the route table, a request up to its endpoint, the statistics. \<open>Process\<close>
      (\<^verbatim>\<open>handleShutdown\<close>, the \<^verbatim>\<open>Stop\<close> of the three inputs, the goroutine of the metrics server): the shutdown as a step relation.
    \<^item> \<open>Flags\<close> (flags of all packages, vendored \<^verbatim>\<open>globalconf\<close>), \<open>Dur\<close> and \<open>DateTime\<close> (vendored \<^verbatim>\<open>dur\<close>: durations, dates as
      Graphite writes them), \<open>GoPath\<close> (clean paths, the muxes of
      the metrics server and of the persister), \<open>Logging\<close> (\<^verbatim>\<open>util/log.go\<close>, vendored \<^verbatim>\<open>logrus\<close>: levels and hooks) and \<open>Startup\<close> (both \<^verbatim>\<open>main\<close> functions, \<^verbatim>\<open>util/tracer.go\<close>,
      \<^verbatim>\<open>util/metrics_server.go\<close>, \<^verbatim>\<open>api.New\<close>, \<^verbatim>\<open>Api.Start\<close>): from the command line to the processes that serve.
    \<^item> \<open>Persister\<close> (\<^verbatim>\<open>persister\<close>, \<^verbatim>\<open>metrics_client\<close>): the metrics client, the table of payloads and the persister.
    \<^item> This theory: properties across components, from a request to Kafka, from the file of schemas to the
      interval of a metric, from the persister to Kafka, and from the command line to a refused query.

  \<^bold>\<open>How code corresponds to definitions.\<close> A struct is a record, a set of errors a datatype, a function or method a
  definition of its name (with its type in front where names clash), a loop a recursive function named
  after the function it is in. State that Go keeps in variables or behind pointers is passed along:
  package variables are records (\<^typ>\<open>kstate\<close>, \<^typ>\<open>ingest_state\<close>, \<^typ>\<open>'s world\<close>), users live in a store so that
  sharing of pointers is visible, and so do the arrays behind tag slices. A result of type \<^typ>\<open>'a run\<close> says
  whether a handler returns, panics or never returns. Concurrency is modelled by step relations where the
  code has it at its core (key cache, carbon, token and instance caches, buffers, shutdown); a mutex of the persister is a flag.

  \<^bold>\<open>Parameters.\<close> The JSON, msgp, snappy, protobuf, gzip and zlib codecs, the Kafka producer, the HTTP client and
  transport, the grafana.com service, the table service, the token bucket, the float parser, the
  calendar of the time zone, the jump hash, the compiler and the matcher of regular expressions, undoing percent escapes, the growth of slices, the pick of a pool and
  the order in which a Go map is visited are arguments. Theorems state what they rely on as hypotheses, and
  a witness instantiates them.

  \<^bold>\<open>What the theorems show.\<close> A batch of metrics reaches Kafka completely, once per accepting
  topic and under the right organisation; the short form is only used for announced keys, and keys are announced
  again every turn of the clearing loop; clients cannot write or read as another organisation through the
  handlers, the writers and the proxies; a key is accepted only when the plugin vouches for it, and no endpoint
  is reached without one (an instance also when grafana.com fails, which the code takes for a yes); every metric and every carbon line is accounted for; the points of
  carbon lines reach Kafka under the organisation of their key; identifiers, points, lines,
  durations and payloads survive their round trips; the file of storage schemas decides by its priorities;
  concurrent callers of grafana.com share its answers without mixing them up, and none waits for ever; pooled
  buffers are transparent; loops end. Where the code does not do what it means to, a theorem says so: failed
  sends leave keys announced, impersonation outlives its request with the file plugin, labels leak through the
  pool, a failed push blocks the persister, a second slash evades the limit on time ranges, a carbon line that
  was cut off is ingested with a wrong time, the carbon input stops without publishing what its flushers hold since their last tick, the shutdown panics with
  the default plugin and is cut short when the metrics server closes, the persister's metrics are refused by a gateway with the short
  encoding, a token that is spelled like the key of an instance check can panic the check of tokens, and requests that panic are recorded nowhere.

  \<^bold>\<open>Bounds and fuel.\<close> Loops are structural, or have a measure (attempts of the transport,
  length of a path, digits of a number, what is left of a duration or of a connection). The loop over the
  handlers has fuel; two more than there are handlers is enough, and is what \<open>gateway_serve\<close> gives
  it; and the search for a weekday, where seven days are enough. Integers that wrap in the code are words or are
  reduced where it happens; the 64 bit organisation numbers and lengths are integers, with their ranges as
  hypotheses where the code narrows them. The machines are quantified over any number of connections, flushers
  and concurrent calls.

  \<^bold>\<open>Not modelled.\<close> Sockets, TLS and the HTTP server, the access log, the text of log messages and the exposition of
  metrics; the meters for sizes and durations of the publisher; the syntax of ini files; named routes,
  groups and building addresses of the HTTP library's router, and its registrations that panic or hang; patterns of
  the persister's router that it does not register.
\<close>

section \<open>From a request to Kafka\<close>

text \<open>The Kafka publisher as the publisher behind the gate.\<close>

abbreviation kafka_pub ::
  "flags \<Rightarrow> (MetricData \<Rightarrow> gobyte list option) \<Rightarrow> (string \<Rightarrow> int \<Rightarrow> int) \<Rightarrow> (ProducerMessage list \<Rightarrow> send_error option)
    \<Rightarrow> mtPublisher \<Rightarrow> kstate publish_fun" where
  "kafka_pub fl marshalMsg jumpHash send mp \<equiv> \<lambda>ms ks. Publish fl marshalMsg jumpHash send True mp ms ks"

text \<open>A publisher that can take the metrics of an organisation.\<close>

definition takes_org :: "flags \<Rightarrow> (MetricData \<Rightarrow> gobyte list option) \<Rightarrow> (string \<Rightarrow> int \<Rightarrow> int) \<Rightarrow> mtPublisher \<Rightarrow> int \<Rightarrow> kstate \<Rightarrow> bool" where
  "takes_org fl marshalMsg jumpHash mp org ks \<longleftrightarrow>
     0 \<le> org \<and> org < 2 ^ 32 \<and> mt_topics mp \<noteq> [] \<and>
     (\<forall>t \<in> set (mt_topics mp). topic_ready jumpHash t \<and> 0 \<le> ts_rewrite_target t \<and> ts_rewrite_target t < 2 ^ 32) \<and>
     (\<forall>m. marshalMsg m \<noteq> None) \<and> cache_ready fl (ks_keyCache ks)"

lemma accepted_batch_ready:
  assumes "takes_org fl marshalMsg jumpHash mp (cx_ID ctx) ks" and "\<not> cx_IsAdmin ctx" and "accepted ctx ms \<noteq> []"
  shows "batch_ready fl marshalMsg jumpHash mp [] (accepted ctx ms) ks" and "map (deduced []) (accepted ctx ms) = accepted ctx ms"
proof -
  have same: "deduced [] m = m" if "m \<in> set (accepted ctx ms)" for m
    using accepted_props [OF that assms(2)] by (simp add: deduced_def)
  then show "map (deduced []) (accepted ctx ms) = accepted ctx ms" by (simp add: map_idI)
  show "batch_ready fl marshalMsg jumpHash mp [] (accepted ctx ms) ks"
    using assms accepted_props [OF _ assms(2), of _ ms] same
    by (auto simp: batch_ready_def takes_org_def interval_ready_def metric_ready_def dest_org_def)
qed

lemma kafka_gate:
  assumes "batch_ready fl marshalMsg jumpHash mp [] ms ks" and "map (deduced []) ms = ms" and "length ms < 2 ^ 31"
    and "distinct orgs" and "set orgs = md_OrgId ` set ms"
  shows "\<exists>msgs ks' cv'. list_all2 (\<lambda>(m, t) msg. message_for fl marshalMsg jumpHash m t msg) (deliveries (mt_topics mp) ms) msgs \<and>
    gate_Publish (kafka_pub fl marshalMsg jumpHash send mp) orgs ms ks cv =
      Some (map_option (PublisherError \<circ> ErrSend) (send msgs), ms, ks', cv')"
proof -
  have ne: "ms \<noteq> []" using assms(1) by (simp add: batch_ready_def)
  obtain msgs ks' where msgs: "list_all2 (\<lambda>(m, t) msg. message_for fl marshalMsg jumpHash m t msg) (deliveries (mt_topics mp) ms) msgs"
    and run: "Publish fl marshalMsg jumpHash send True mp ms ks = Some (map_option ErrSend (send msgs), ms, ks')"
    using Publish_batch_ready [OF assms(1), of send] unfolding assms(2) by blast
  show ?thesis
  proof (cases "send msgs")
    case None
    then show ?thesis
      using kafka.accounts_samples [of fl marshalMsg jumpHash send True mp ms ks ms ks' orgs cv] run msgs ne assms(3-5) by auto
  next
    case (Some e)
    then show ?thesis
      using kafka.error_not_accounted [of fl marshalMsg jumpHash send True mp ms ks "ErrSend e" ms ks' orgs cv] run msgs ne by auto
  qed
qed

text \<open>
  C4. From a request to Kafka: when the decoded batch of a client that is not an admin passes the rate limit, the
  handler hands the producer exactly one message for every valid metric and every topic that accepts it,
  in order, each encoding the metric under the client's own organisation or the one its topic rewrites
  that to; it answers 200 when the producer takes them and 500 otherwise.
\<close>

theorem own_metrics_reach_kafka:
  assumes "takes_org fl marshalMsg jumpHash mp (cx_ID ctx) (wo_publisher w)" and "\<not> cx_IsAdmin ctx" and "accepted ctx ms \<noteq> []"
    and "length ms < 2 ^ 31" and "visits_all order" and "\<And>ns. distinct (orgs ns) \<and> set (orgs ns) = md_OrgId ` set ns"
    and "rate_limit_reply ctx rq (wo_limiters w) (int (length (accepted ctx ms))) = None" and "\<not> rq_done rq"
  shows "\<exists>msgs r w'. ingest_decoded (kafka_pub fl marshalMsg jumpHash send mp) orgs order ctx rq (map Some ms) w = Returns (r, w') \<and>
    rp_status r = (if send msgs = None then 200 else 500) \<and>
    list_all2 (\<lambda>(m, t) msg. message_for fl marshalMsg jumpHash m t msg \<and> md_OrgId m = cx_ID ctx \<and>
        dest_org m t = (if cx_ID ctx = ts_rewrite_source t then ts_rewrite_target t else cx_ID ctx))
      (deliveries (mt_topics mp) (accepted ctx ms)) msgs"
proof -
  have len: "length (accepted ctx ms) < 2 ^ 31" using accepted_refused_length [of ctx ms 0] assms(4) by linarith
  obtain msgs ks' cv' where msgs: "list_all2 (\<lambda>(m, t) msg. message_for fl marshalMsg jumpHash m t msg)
      (deliveries (mt_topics mp) (accepted ctx ms)) msgs"
    and gate: "gate_Publish (kafka_pub fl marshalMsg jumpHash send mp) (orgs (accepted ctx ms)) (accepted ctx ms) (wo_publisher w) (wo_counters w) =
      Some (map_option (PublisherError \<circ> ErrSend) (send msgs), accepted ctx ms, ks', cv')"
    using kafka_gate [OF accepted_batch_ready [OF assms(1-3)] len, of "orgs (accepted ctx ms)" send] assms(6) by blast
  obtain resp st where prep: "prepareIngest order ctx (map Some ms) [] (wo_ingest w) = Some ((accepted ctx ms, resp), st)"
    using prepareIngest_spec [OF assms(5)] by blast
  have own: "md_OrgId m = cx_ID ctx" if "(m, t) \<in> set (deliveries (mt_topics mp) (accepted ctx ms))" for m t
    using that accepted_props [OF _ assms(2), of m ms] by (auto simp: deliveries_def)
  have "list_all2 (\<lambda>(m, t) msg. message_for fl marshalMsg jumpHash m t msg \<and> md_OrgId m = cx_ID ctx \<and>
        dest_org m t = (if cx_ID ctx = ts_rewrite_source t then ts_rewrite_target t else cx_ID ctx))
      (deliveries (mt_topics mp) (accepted ctx ms)) msgs"
    by (rule list.rel_mono_strong [OF msgs]) (auto simp: own dest_org_def)
  moreover have "\<exists>r w'. ingest_decoded (kafka_pub fl marshalMsg jumpHash send mp) orgs order ctx rq (map Some ms) w = Returns (r, w') \<and>
      rp_status r = (if send msgs = None then 200 else 500)"
    using prep gate assms(7,8)
    by (cases "send msgs") (simp_all add: ingest_decoded_def publish_reply_def Let_def)
  ultimately show ?thesis by blast
qed

definition kafka_world :: "kstate world" where
  "kafka_world =
     \<lparr>wo_ingest = \<lparr>is_metricsValid = 0, is_metricsRejected = 0, is_metricsTimestamp = Map.empty, is_discardedSamples = (\<lambda>_. 0)\<rparr>,
      wo_counters = (\<lambda>_. 0), wo_limiters = Map.empty, wo_publisher = sample_kstate\<rparr>"

lemma sample_accepted:
  "accepted \<lparr>cx_ID = 9, cx_IsAdmin = b\<rparr> [sample_metric\<lparr>md_Tags := []\<rparr>] \<noteq> []"
  by (simp add: accepted_def check_metric_def Validate_cases sample_metric_def mtypes_def fields_func_def Let_def)

theorem own_metrics_reach_kafka_witness:
  "\<exists>msgs r w'. ingest_decoded (kafka_pub sample_flags (\<lambda>m. Some []) (\<lambda>s n. 0) (\<lambda>msgs. None) sample_publisher)
      (\<lambda>ns. remdups (map md_OrgId ns)) (\<lambda>d. sorted_list_of_set (discard_pairs d)) \<lparr>cx_ID = 9, cx_IsAdmin = False\<rparr> sample_request
      (map Some [sample_metric\<lparr>md_Tags := []\<rparr>]) kafka_world = Returns (r, w') \<and> rp_status r = 200 \<and>
    list_all2 (\<lambda>(m, t) msg. md_OrgId m = 9)
      (deliveries [sample_topic] (accepted \<lparr>cx_ID = 9, cx_IsAdmin = False\<rparr> [sample_metric\<lparr>md_Tags := []\<rparr>])) (msgs :: ProducerMessage list)"
proof -
  let ?ctx = "\<lparr>cx_ID = 9, cx_IsAdmin = False\<rparr>"
  let ?ms = "[sample_metric\<lparr>md_Tags := []\<rparr>]"
  have takes: "takes_org sample_flags (\<lambda>m. Some []) (\<lambda>s n. 0) sample_publisher (cx_ID ?ctx) (wo_publisher kafka_world)"
    by (simp add: takes_org_def sample_publisher_def topic_ready_def sample_topic_def cache_ready_def kafka_world_def sample_kstate_def)
  have limit: "rate_limit_reply ?ctx sample_request (wo_limiters kafka_world) n = None" for n
    by (simp add: rate_limit_reply_def kafka_world_def UseRateLimit_def)
  obtain msgs r w' where *: "ingest_decoded (kafka_pub sample_flags (\<lambda>m. Some []) (\<lambda>s n. 0) (\<lambda>msgs. None) sample_publisher)
      (\<lambda>ns. remdups (map md_OrgId ns)) (\<lambda>d. sorted_list_of_set (discard_pairs d)) ?ctx sample_request (map Some ?ms) kafka_world = Returns (r, w')"
    "rp_status r = 200"
    "list_all2 (\<lambda>(m, t) msg. message_for sample_flags (\<lambda>m. Some []) (\<lambda>s n. 0) m t msg \<and> md_OrgId m = cx_ID ?ctx \<and>
        dest_org m t = (if cx_ID ?ctx = ts_rewrite_source t then ts_rewrite_target t else cx_ID ?ctx))
      (deliveries (mt_topics sample_publisher) (accepted ?ctx ?ms)) msgs"
    using own_metrics_reach_kafka [OF takes _ sample_accepted _ visits_all_sorted _ limit,
        of "\<lambda>ns. remdups (map md_OrgId ns)" "\<lambda>msgs. None"]
    by (auto simp: sample_request_def)
  have "list_all2 (\<lambda>(m, t) msg. md_OrgId m = 9) (deliveries [sample_topic] (accepted ?ctx ?ms)) msgs"
    using * (3) by (auto simp: sample_publisher_def elim!: list_all2_mono)
  then show ?thesis using *(1,2) by blast
qed

section \<open>From the file of schemas to the interval of a metric\<close>

text \<open>
  C19. The interval of a metric that came without one is what the file of storage schemas says: a publisher with the
  schemas that were read from a file gives it the interval of the first retention of the section with the highest
  priority among those that match its name, the earlier of two with the same priority, and the interval of the
  built-in schema when no section matches; it neither panics nor hangs.
\<close>

theorem interval_from_schema_file:
  assumes "getSchemas compile read file = Inr scs" and "read file = Some secs" and "priorities_fit secs"
    and "mt_schemas mp = Some scs" and "mt_autoInterval mp" and "md_Interval m = 0"
  shows "\<exists>s. file_decides compile secs (md_Name m) s \<and>
    deduce_interval mp m = Some (Inr (SetId (m\<lparr>md_Interval := rt_SecondsPerPoint (hd (sch_Retentions s))\<rparr>)))"
proof -
  have "ReadSchemas compile secs = Inr scs" using assms(1,2) by (simp add: getSchemas_def split: sum.splits)
  from file_priority_decides [OF this assms(3)] obtain k s where match: "Schemas_Match scs (md_Name m) 0 = Some (Inr (k, s))"
    and s: "file_decides compile secs (md_Name m) s" by blast
  have "index_or PanicRetention (sch_Retentions s) 0 = Inr (hd (sch_Retentions s))"
    using file_decides_retentions [OF s] by (simp add: index_or_def hd_conv_nth)
  then have "deduce_interval mp m = Some (Inr (SetId (m\<lparr>md_Interval := rt_SecondsPerPoint (hd (sch_Retentions s))\<rparr>)))"
    using match assms(4-6) by (simp add: deduce_interval_def)
  with s show ?thesis by blast
qed

theorem interval_from_schema_file_witness:
  "\<exists>scs s. getSchemas prefix_pattern (\<lambda>_. Some two_sections) ''schemas.conf'' = Inr scs \<and>
    file_decides prefix_pattern two_sections (md_Name sample_metric) s \<and>
    deduce_interval (sample_publisher\<lparr>mt_schemas := Some scs\<rparr>) (sample_metric\<lparr>md_Interval := 0\<rparr>) =
      Some (Inr (SetId (sample_metric\<lparr>md_Interval := rt_SecondsPerPoint (hd (sch_Retentions s))\<rparr>)))"
proof -
  obtain scs where "ReadSchemas prefix_pattern two_sections = Inr scs" using two_sections_read(1) by blast
  then have scs: "getSchemas prefix_pattern (\<lambda>_. Some two_sections) ''schemas.conf'' = Inr scs" by (simp add: getSchemas_def)
  from interval_from_schema_file [OF this _ two_sections_read(2), of "sample_publisher\<lparr>mt_schemas := Some scs\<rparr>" "sample_metric\<lparr>md_Interval := 0\<rparr>"]
  show ?thesis using scs by (simp add: sample_publisher_def)
qed

section \<open>From the persister to Kafka\<close>

text \<open>A post of the metrics client that the handler for metrics answers, as the user the credentials stand for.\<close>

definition gateway_post ::
  "'s publish_fun \<Rightarrow> (MetricData list \<Rightarrow> int list) \<Rightarrow> (discards \<Rightarrow> (int \<times> string) list)
    \<Rightarrow> (gobyte list \<Rightarrow> MetricData option list option) \<Rightarrow> (gobyte list \<Rightarrow> MetricData option list option)
    \<Rightarrow> (gobyte list \<Rightarrow> gobyte list option) \<Rightarrow> Context \<Rightarrow> request \<Rightarrow> 's world \<Rightarrow> http_post \<Rightarrow> int option" where
  "gateway_post pub orgs order unmarshalJson unmarshalMsgp unsnappy ctx rq w req =
     (case Metrics pub orgs order unmarshalJson unmarshalMsgp unsnappy (hp_contentType req) ctx
             (rq\<lparr>rq_hasBody := True, rq_read := Some (hp_body req)\<rparr>) w of
        Returns (r, w') \<Rightarrow> Some (rp_status r) | Panics \<Rightarrow> None | Loops \<Rightarrow> None)"

text \<open>The message of the client is read back by the handler.\<close>

lemma CreateMsg_decoded:
  assumes "CreateMsg marshalMsgp ms = Some d"
  shows "InitFromMsg d = None \<and> DecodeMetricData unmarshalJson unmarshalMsgp d =
    (case unmarshalMsgp (the (marshalMsgp ms)) of None \<Rightarrow> Inl ErrUnmarshal | Some metrics \<Rightarrow> Inr metrics)"
  using assms by (auto simp: CreateMsg_def InitFromMsg_def DecodeMetricData_def split: option.splits)

lemma Publish_without_id:
  assumes "ms = m # rest" and "md_Id m = []" and "md_Interval m \<noteq> 0" and "fl_v2 fl"
    and "mt_topics mp = t # ts" and "accepts m t" and "md_OrgId m \<noteq> ts_rewrite_source t"
  shows "\<exists>ms' ks'. Publish fl marshalMsg jumpHash send True mp ms ks = Some (Some (ErrKey ErrStringTooShort), ms', ks')"
  using assms
  by (auto simp: Publish_def deduce_interval_def publish_topic_def accepts_def dataFromMetricData_def MKeyFromString_def empty_batch_def Let_def)

lemma accepted_admin_id:
  assumes "m' \<in> set (accepted ctx ms)" and "cx_IsAdmin ctx" and "\<forall>m \<in> set ms. md_Id m = []"
  shows "md_Id m' = [] \<and> md_Interval m' \<noteq> 0"
proof -
  obtain m where m: "m \<in> set ms" "check_metric ctx m = (None, m')"
    using assms(1,2) by (auto simp: accepted_def split: prod.splits option.splits)
  then show ?thesis
    using check_metric_ok(2) [OF m(2)] assms(2,3) by (auto simp: check_metric_def Validate_cases Let_def split: if_splits)
qed

text \<open>
  C36. The persister cannot publish through a gateway that uses the short encoding: the metrics that an intake
  generates have no identifier, an admin's metrics are taken without computing one, and the publisher
  refuses a metric without an identifier. So a push of such metrics with the admin key, to a gateway whose
  first topic takes them without rewriting their organisation, fails.
\<close>

theorem persister_push_refused:
  assumes "set ms \<subseteq> stamp now interval ` set (GeneratePersistentMetrics unmarshalGohai intake)" and "cx_IsAdmin ctx"
    and "accepted ctx ms \<noteq> []" and "fl_v2 fl" and "mt_topics mp = t # ts"
    and "\<forall>m \<in> set (accepted ctx ms). accepts m t \<and> md_OrgId m \<noteq> ts_rewrite_source t"
    and "marshalMsgp ms = Some d" and "unmarshalMsgp d = Some (map Some ms)" and "\<And>x. unsnappy (snappy x) = Some x"
    and "visits_all order" and "rate_limit_reply ctx rq' (wo_limiters w) (int (length (accepted ctx ms))) = None"
    and "\<not> rq_done rq" and "rq' = rq\<lparr>rq_hasBody := True, rq_read := Some (snappy (1 # replicate 8 0 @ d))\<rparr>"
  shows "client_Push marshalMsgp snappy
    (gateway_post (kafka_pub fl marshalMsg jumpHash send mp) orgs order unmarshalJson unmarshalMsgp unsnappy ctx rq w) c ms =
    Some ErrPushStatus"
proof -
  let ?msg = "1 # replicate 8 0 @ d"
  have ne: "ms \<noteq> []" using assms(3) by (auto simp: accepted_def)
  have msg: "CreateMsg marshalMsgp ms = Some ?msg" using assms(7) by (simp add: CreateMsg_def)
  obtain m rest where acc: "accepted ctx ms = m # rest" using assms(3) by (cases "accepted ctx ms") auto
  have "\<forall>m \<in> set ms. md_Id m = []" using assms(1) generated_fields(2) by (force simp: stamp_def)
  then have m: "md_Id m = []" "md_Interval m \<noteq> 0" using accepted_admin_id [of m ctx ms] acc assms(2) by auto
  obtain ms' ks' where pub: "Publish fl marshalMsg jumpHash send True mp (accepted ctx ms) (wo_publisher w) =
      Some (Some (ErrKey ErrStringTooShort), ms', ks')"
    using Publish_without_id [OF acc m assms(4,5)] assms(6) acc by fastforce
  obtain resp st where prep: "prepareIngest order ctx (map Some ms) [] (wo_ingest w) = Some ((accepted ctx ms, resp), st)"
    using prepareIngest_spec [OF assms(10)] by blast
  have run: "\<exists>r w'. ingest_decoded (kafka_pub fl marshalMsg jumpHash send mp) orgs order ctx rq' (map Some ms) w = Returns (r, w') \<and> rp_status r = 500"
    using prep assms(11-13) kafka.error_not_accounted [OF pub assms(3)]
    by (simp add: ingest_decoded_def publish_reply_def Let_def)
  have "gateway_post (kafka_pub fl marshalMsg jumpHash send mp) orgs order unmarshalJson unmarshalMsgp unsnappy ctx rq w
      \<lparr>hp_url = mc_url c, hp_user = itoa (md_OrgId (ms ! 0)), hp_password = mc_apiKey c,
       hp_contentType = ''rt-metric-binary-snappy'', hp_body = snappy ?msg\<rparr> = Some 500"
    using run assms(7-9,13) CreateMsg_decoded [OF msg, of unmarshalJson unmarshalMsgp]
    by (auto simp: gateway_post_def Metrics_def metricsBinary_def)
  then show ?thesis using ne msg by (simp add: client_Push_def client_push_def Suc_le_eq Let_def)
qed

definition bare_intake :: DataDogIntakePayload where
  "bare_intake = sample_intake\<lparr>di_AgentVersion := [], di_OS := [], di_InternalHostname := [], di_OrgID := 9\<rparr>"

lemma bare_generated: "GeneratePersistentMetrics (\<lambda>s. None) bare_intake = [info_metric 9 ''system_info'' []]"
  by (simp add: GeneratePersistentMetrics_def bare_intake_def sample_intake_def generateInfoTags_def add_tag_def Let_def)

theorem persister_push_refused_witness:
  "client_Push (\<lambda>ms. Some []) (\<lambda>x. x)
    (gateway_post (kafka_pub sample_flags (\<lambda>m. Some []) (\<lambda>s n. 0) (\<lambda>msgs. None) sample_publisher) (\<lambda>ns. [])
      (\<lambda>d. sorted_list_of_set (discard_pairs d)) (\<lambda>b. None) (\<lambda>b. Some [Some (stamp 5 60 (info_metric 9 ''system_info'' []))]) Some
      \<lparr>cx_ID = 1, cx_IsAdmin = True\<rparr> sample_request kafka_world)
    \<lparr>mc_url = ''u'', mc_apiKey = ''k''\<rparr> [stamp 5 60 (info_metric 9 ''system_info'' [])] = Some ErrPushStatus"
proof -
  let ?ctx = "\<lparr>cx_ID = 1, cx_IsAdmin = True\<rparr>"
  let ?m = "stamp 5 60 (info_metric 9 ''system_info'' [])"
  have acc: "accepted ?ctx [?m] = [?m\<lparr>md_Mtype := ''gauge''\<rparr>]"
    by (simp add: accepted_def check_metric_def Validate_cases stamp_def info_metric_def mtypes_def fields_func_def Let_def)
  have topic: "\<forall>m \<in> set (accepted ?ctx [?m]). accepts m sample_topic \<and> md_OrgId m \<noteq> ts_rewrite_source sample_topic"
    unfolding acc by (simp add: accepts_def discarded_def sample_topic_def stamp_def info_metric_def)
  show ?thesis
    using persister_push_refused [of "[?m]" 5 60 "\<lambda>s. None" bare_intake ?ctx sample_flags sample_publisher sample_topic "[]"
        "\<lambda>ms. Some []" "[]" "\<lambda>b. Some [Some ?m]" Some "\<lambda>x. x", OF _ _ _ _ _ topic _ _ _ visits_all_sorted _ _ HOL.refl]
    by (simp add: bare_generated acc sample_flags_def sample_publisher_def rate_limit_reply_def kafka_world_def UseRateLimit_def
        sample_request_def)
qed

section \<open>From the command line to a refused query\<close>

lemma started_with_limit:
  assumes "tsdb_gw_main w [''-timerange-limit='' @ FormatDuration n] = Inr g" and "n \<noteq> 0"
  shows "gw_limit g = n" and "\<exists>importer. gw_router g = gateway_router True importer"
proof -
  obtain fs where conf: "read_config w tsdb_gw_flags [CHR ''-'' # ''timerange-limit'' @ CHR ''='' # FormatDuration n] = Inr fs"
    and start: "start_gateway w fs = Inr g"
    using assms(1) by (auto simp: tsdb_gw_main_def sum_bind_Inr)
  have "(''timerange-limit'', FStr []) \<in> set tsdb_gw_flags" by (simp add: flag_defs)
  from read_config_argument [OF conf this] have "flag_str fs ''timerange-limit'' = FormatDuration n" by simp
  then show "gw_limit g = n" "\<exists>importer. gw_router g = gateway_router True importer"
    using timerange_limit_Inr [OF start_gateway_steps(2) [OF start]] start_gateway_steps(6) [OF start] parse_positive [OF assms(2)]
    by auto
qed

lemma relative_range:
  assumes "n \<noteq> 0" and "pre \<in> {[], ''now''}" and "ft_From ft = pre @ CHR ''-'' # FormatDuration n" and "ft_To ft = []" and "ft_Until ft = []"
    and "has_prefix ''/graphite/render'' path"
  shows "FromTo_Validate (date_time cal) limit now path ft [] = (if limit < n then [ErrRangeTooLarge] else [])"
proof -
  have "uint32_of now - uint32_of (now - int (unat n)) = n" by (simp add: uint32_of_def)
  then show ?thesis
    using assms(3-6) relative_offset [OF assms(1,2), of cal now]
    by (simp add: FromTo_Validate_def getFromTo_def date_time_def ParseDateTime_empty Let_def del: has_prefix_Cons)
qed

text \<open>
  C34. A gateway that is started with a limit on the time range, written as the duration library prints it, has
  that limit whatever the environment and the configuration file say: a query for a render path with a
  relative time, in whatever time zone, takes the limited route; it is answered 422 when it reaches back
  further than the limit, and is proxied to Graphite otherwise.
\<close>

theorem configured_limit_is_enforced:
  assumes "tsdb_gw_main w [''-timerange-limit='' @ FormatDuration limit] = Inr g" and "limit \<noteq> 0"
    and "\<And>s. CHR ''%'' \<notin> set s \<Longrightarrow> un s = Some s" and "CHR ''%'' \<notin> set rest" and "has_prefix ''render'' rest" and "last rest \<noteq> CHR ''/''"
    and "ur_Path (px_url req) = ''/graphite/'' @ rest" and "px_body req = Some (body, True)"
    and "bind (req\<lparr>px_body := Some (body, True)\<rparr>) = BindParsed False ft left"
    and "ft_From ft = pre @ CHR ''-'' # FormatDuration n" and "n \<noteq> 0" and "pre \<in> {[], ''now''}" and "ft_To ft = []" and "ft_Until ft = []"
  shows "Router_ServeHTTP re un (gw_router g) ''GET'' (''/graphite/'' @ rest) (''/graphite/'' @ rest) =
      Some (Guarded ''read'' False False GraphiteLimited, Some rest) \<and>
    graphite_limited (date_time cal) (gw_limit g) now bind u orgId rest clientIP req =
      (if limit < n then Inl 422
       else Inr (GraphiteProxy u orgId rest clientIP (Some body) (req\<lparr>px_body := Some (left, True)\<rparr>)))"
proof -
  obtain importer where g: "gw_limit g = limit" "gw_router g = gateway_router True importer"
    using started_with_limit [OF assms(1,2)] by blast
  have rest: "rest \<noteq> []" "rest \<notin> {''*'', ''metrics/index.json''}"
    using assms(5) by (auto split: list.splits)
  have "Router_ServeHTTP re un (gw_router g) ''GET'' (''/graphite/'' @ rest) (''/graphite/'' @ rest) =
      Some (Guarded ''read'' False False GraphiteLimited, Some rest)"
    unfolding g(2) by (rule graphite_route [OF assms(3,4) rest(1) assms(6) rest(2) graphite_tree_render [OF assms(3-5)]])
  moreover have "has_prefix ''/graphite/render'' (''/graphite/'' @ rest)" using assms(5) by (simp split: list.splits)
  ultimately show ?thesis
    using assms(7-9) g(1) relative_range [OF assms(11,12,10,13,14)]
    by (simp add: graphite_limited_def CaptureBody_def del: has_prefix_Cons)
qed

abbreviation limited_flags :: "string \<Rightarrow> flag_set" where
  "limited_flags s \<equiv> \<lparr>fs_formal = (map_of tsdb_gw_flags)(''timerange-limit'' \<mapsto> FStr s), fs_actual = {''timerange-limit''}\<rparr>"

lemma limited_flag: "n \<noteq> ''timerange-limit'' \<Longrightarrow> flag_str (limited_flags s) n = flag_str default_flags n"
    "n \<noteq> ''timerange-limit'' \<Longrightarrow> flag_bool (limited_flags s) n = flag_bool default_flags n"
    "flag_str (limited_flags s) ''timerange-limit'' = s"
  by (simp_all add: flag_str_def flag_bool_def)

lemma sample_limited_start:
  assumes "n \<noteq> 0"
  shows "\<exists>g. tsdb_gw_main sample_world [''-timerange-limit='' @ FormatDuration n] = Inr g"
proof -
  let ?s = "FormatDuration n"
  have "distinct (map fst tsdb_gw_flags)" by code_simp
  moreover have "map_of tsdb_gw_flags ''timerange-limit'' = Some (FStr [])" by (simp add: flag_defs)
  moreover have "splitn2 CHR ''='' (''timerange-limit='' @ ?s) = [''timerange-limit'', ?s]"
    using splitn2_append [of "CHR ''=''" "''timerange-limit''" ?s] by simp
  ultimately have "read_config sample_world tsdb_gw_flags [''-timerange-limit='' @ ?s] = Inr (limited_flags ?s)"
    by (simp add: read_config_def define_flags_def or_exit_def sum_bind_def sample_world_def flag_Set_def set_value_def ParseAll_def
        conf_Parse_nothing)
  moreover have "\<exists>g. start_gateway sample_world (limited_flags ?s) = Inr g"
    using parse_positive [OF assms] assms
    by (simp add: start_gateway_def limited_flag default_values sum_bind_def or_exit_def GetTracer_def sample_world_def New_def
        kafka_settings_def timerange_limit_def MustParseNDuration_def ParseNDuration_def graphite_Init_def metrictank_Init_def
        ConfigureRateLimits_def api_New_def load_plugin_def GetAuthPlugin_def InitCarbon_def Let_def)
  ultimately show ?thesis by (simp add: tsdb_gw_main_def sum_bind_def)
qed

text \<open>A calendar that knows the hours of the day, for the zone UTC.\<close>

definition utc :: calendar where
  "utc = \<lparr>ca_Date = (\<lambda>t. (1970, 1, 1 + t div 86400)), ca_Clock = (\<lambda>t. (t mod 86400 div 3600, t mod 3600 div 60, t mod 60)),
     ca_Unix = (\<lambda>(y, m, d) (h, mi, s). (d - 1) * 86400 + h * 3600 + mi * 60 + s), ca_AddDays = (\<lambda>t n. t + n * 86400),
     ca_Weekday = (\<lambda>t. nat ((t div 86400 + 4) mod 7)), ca_parse = (\<lambda>f s. None)\<rparr>"

definition render_request :: proxy_request where
  "render_request =
     \<lparr>px_url = \<lparr>ur_Scheme = [], ur_Host = [], ur_Path = ''/graphite/render''\<rparr>, px_header = Map.empty, px_length = 0,
      px_body = Some ([], True)\<rparr>"

theorem configured_limit_is_enforced_witness:
  "\<exists>g. tsdb_gw_main sample_world [''-timerange-limit='' @ FormatDuration 3600] = Inr g \<and>
    graphite_limited (date_time utc) (gw_limit g) 1000000
      (\<lambda>r. BindParsed False \<lparr>ft_From = CHR ''-'' # FormatDuration 7200, ft_Until = [], ft_To = [], ft_Tz = []\<rparr> [])
      \<lparr>ur_Scheme = ''http'', ur_Host = ''graphite'', ur_Path = ''/''\<rparr> 1 ''render'' None render_request = Inl 422"
proof -
  obtain g where g: "tsdb_gw_main sample_world [''-timerange-limit='' @ FormatDuration 3600] = Inr g"
    using sample_limited_start [of 3600] by auto
  let ?ft = "\<lparr>ft_From = CHR ''-'' # FormatDuration 7200, ft_Until = [], ft_To = [], ft_Tz = []\<rparr>"
  have path: "ur_Path (px_url render_request) = ''/graphite/'' @ ''render''" "px_body render_request = Some ([], True)"
    by (simp_all add: render_request_def)
  have "graphite_limited (date_time utc) (gw_limit g) 1000000 (\<lambda>r. BindParsed False ?ft [])
      \<lparr>ur_Scheme = ''http'', ur_Host = ''graphite'', ur_Path = ''/''\<rparr> 1 ''render'' None render_request =
      (if (3600 :: uint32) < 7200 then Inl 422
       else Inr (GraphiteProxy \<lparr>ur_Scheme = ''http'', ur_Host = ''graphite'', ur_Path = ''/''\<rparr> 1 ''render'' None (Some [])
         (render_request\<lparr>px_body := Some ([], True)\<rparr>)))"
    by (rule configured_limit_is_enforced [where re = "\<lambda>expr s. []" and un = Some and n = 7200 and pre = "[]" and ft = ?ft, OF g _ _ _ _ _ path, THEN conjunct2])
      simp_all
  then show ?thesis using g by simp
qed

end
